(* ===== verification/Prelude.thy ===== *)
theory Prelude
  imports Main "HOL-Library.Word"
begin

text \<open>
  What every component of the development shares: the C integer types, the byte layout of
  packed little-endian structs, a byte-addressed 32-bit memory with region reads and region
  updates that wrap as the address arithmetic of the code does, and the automation collections
  \<open>mem_simps\<close> (reading back after a region update) and \<open>word_nat\<close> (moving word
  comparisons to natural numbers).
\<close>

unbundle bit_operations_syntax

named_theorems mem_simps "reading a memory after a region update"
named_theorems word_nat "comparisons of words as comparisons of natural numbers"

type_synonym u8 = "8 word"
type_synonym u16 = "16 word"
type_synonym u32 = "32 word"
type_synonym mem = "u32 \<Rightarrow> u8"

lemmas word_le_lt_nat [word_nat] = word_le_nat_alt word_less_nat_alt

lemma unat_u32_less: "unat (w :: u32) < 2 ^ 32"
  using unsigned_less [of w] by simp

lemma unat_u16_less: "unat (w :: u16) < 2 ^ 16"
  using unsigned_less [of w] by simp

lemma unat_u8_less: "unat (w :: u8) < 2 ^ 8"
  using unsigned_less [of w] by simp

lemma unat_ucast_u16_u32 [simp]: "unat (ucast (w :: u16) :: u32) = unat w"
  by (simp add: unsigned_ucast_eq take_bit_nat_eq_self unat_u16_less [simplified, THEN less_trans])

lemma unat_plus_u32: "unat (a :: u32) + unat b < 2 ^ 32 \<Longrightarrow> unat (a + b) = unat a + unat b"
  by (simp add: unat_word_ariths)

section \<open>Little-endian byte layout\<close>

definition le16 :: "u16 \<Rightarrow> u8 list" where
  "le16 w = [ucast w, ucast (drop_bit 8 w)]"

definition le32 :: "u32 \<Rightarrow> u8 list" where
  "le32 w = [ucast w, ucast (drop_bit 8 w), ucast (drop_bit 16 w), ucast (drop_bit 24 w)]"

fun of_le16 :: "u8 list \<Rightarrow> u16" where
  "of_le16 [b0, b1] = ucast b0 XOR push_bit 8 (ucast b1)"
| "of_le16 _ = 0"

fun of_le32 :: "u8 list \<Rightarrow> u32" where
  "of_le32 [b0, b1, b2, b3] =
     ucast b0 XOR push_bit 8 (ucast b1) XOR push_bit 16 (ucast b2) XOR push_bit 24 (ucast b3)"
| "of_le32 _ = 0"

lemma length_le16 [simp]: "length (le16 w) = 2"
  by (simp add: le16_def)

lemma length_le32 [simp]: "length (le32 w) = 4"
  by (simp add: le32_def)

lemma of_le16_le16 [simp]: "of_le16 (le16 w) = w"
  by (rule bit_word_eqI) (auto simp: le16_def bit_simps)

lemma of_le32_le32 [simp]: "of_le32 (le32 w) = w"
  by (rule bit_word_eqI) (auto simp: le32_def bit_simps)

lemma le32_inject [simp]: "le32 v = le32 w \<longleftrightarrow> v = w"
  by (metis of_le32_le32)

lemma le16_inject [simp]: "le16 v = le16 w \<longleftrightarrow> v = w"
  by (metis of_le16_le16)

text \<open>XOR cancels.\<close>

lemma xor_left_cancel: "a XOR b = a XOR c \<longleftrightarrow> b = c" for a b c :: "'a::len word"
  by (metis xor.assoc xor_self_eq xor.left_neutral)

lemma xor_right_cancel: "b XOR a = c XOR a \<longleftrightarrow> b = c" for a b c :: "'a::len word"
  by (simp add: xor.commute [of _ a] xor_left_cancel)

lemma u8_ff: "(0xFF :: u8) = - 1"
  by simp

lemma u8_and_ff [simp]: "(0xFF :: u8) AND b = b" "b AND (0xFF :: u8) = b"
  by (simp_all only: u8_ff and.left_neutral and.right_neutral)

section \<open>Memory regions\<close>

text \<open>
  \<open>mem_read m a n\<close> are the \<open>n\<close> bytes from address \<open>a\<close>, \<open>mem_write a bs m\<close> stores the
  bytes \<open>bs\<close> from address \<open>a\<close>. Addresses are 32-bit words, so a region that runs past the
  last address continues at address 0, as the pointer arithmetic of the code would.
\<close>

definition mem_read :: "mem \<Rightarrow> u32 \<Rightarrow> nat \<Rightarrow> u8 list" where
  "mem_read m a n = map (\<lambda>i. m (a + of_nat i)) [0..<n]"

definition mem_write :: "u32 \<Rightarrow> u8 list \<Rightarrow> mem \<Rightarrow> mem" where
  "mem_write a bs m = (\<lambda>x. if unat (x - a) < length bs then bs ! unat (x - a) else m x)"

definition in_region :: "u32 \<Rightarrow> nat \<Rightarrow> u32 \<Rightarrow> bool" where
  "in_region a n x \<longleftrightarrow> unat (x - a) < n"

lemma length_mem_read [simp]: "length (mem_read m a n) = n"
  by (simp add: mem_read_def)

lemma nth_mem_read [simp]: "i < n \<Longrightarrow> mem_read m a n ! i = m (a + of_nat i)"
  by (simp add: mem_read_def)

lemma take_mem_read: "k \<le> n \<Longrightarrow> take k (mem_read m a n) = mem_read m a k"
  by (simp add: mem_read_def take_map)

lemma mem_read_cong:
  "(\<And>i. i < n \<Longrightarrow> m (a + of_nat i) = m' (a + of_nat i)) \<Longrightarrow> mem_read m a n = mem_read m' a n"
  by (simp add: mem_read_def)

lemma mem_write_outside [mem_simps]: "\<not> in_region a (length bs) x \<Longrightarrow> mem_write a bs m x = m x"
  by (simp add: mem_write_def in_region_def)

lemma mem_write_inside [mem_simps]:
  "in_region a (length bs) x \<Longrightarrow> mem_write a bs m x = bs ! unat (x - a)"
  by (simp add: mem_write_def in_region_def)

lemma unat_of_nat_u32: "n < 2 ^ 32 \<Longrightarrow> unat (of_nat n :: u32) = n"
  by (simp add: unat_of_nat take_bit_nat_eq_self)

lemma mem_read_write_same [mem_simps]:
  assumes "length bs = n" and "n \<le> 2 ^ 32"
  shows "mem_read (mem_write a bs m) a n = bs"
proof (rule nth_equalityI)
  fix i assume "i < length (mem_read (mem_write a bs m) a n)"
  then have "i < n" by simp
  moreover from this assms(2) have "unat (of_nat i :: u32) = i"
    by (intro unat_of_nat_u32) simp
  ultimately show "mem_read (mem_write a bs m) a n ! i = bs ! i"
    using assms(1) by (simp add: mem_write_def)
qed (simp add: assms)

lemma in_region_nat:
  assumes "unat a + n \<le> 2 ^ 32"
  shows "in_region a n x \<longleftrightarrow> unat a \<le> unat x \<and> unat x < unat a + n"
proof (cases "a \<le> x")
  case True
  then have "unat (x - a) = unat x - unat a" "unat a \<le> unat x"
    by (simp_all add: unat_sub word_le_nat_alt)
  then show ?thesis by (auto simp: in_region_def)
next
  case False
  then have "unat x < unat a" by (simp add: word_le_nat_alt)
  moreover from this have "unat (x - a) = unat x + 2 ^ 32 - unat a"
    by (simp add: unat_sub_if_size word_size)
  ultimately show ?thesis using assms by (simp add: in_region_def)
qed

lemma in_region_shift [simp]: "in_region (b + a) n (b + x) \<longleftrightarrow> in_region a n x"
  by (simp add: in_region_def)

lemma in_region_shift_0: "in_region b n (b + x) \<longleftrightarrow> in_region 0 n x"
  by (simp add: in_region_def)

lemma in_region_mono: "in_region a n x \<Longrightarrow> n \<le> k \<Longrightarrow> in_region a k x"
  by (simp add: in_region_def)

lemma in_region_of_nat: "i < n \<Longrightarrow> i < 2 ^ 32 \<Longrightarrow> in_region a n (a + of_nat i)"
  by (simp add: in_region_def unat_of_nat_u32)

lemma in_region_Suc_0 [simp]: "in_region a (Suc 0) x \<longleftrightarrow> x = a"
  by (auto simp: in_region_def unat_eq_0)

lemma mem_read_shift: "mem_read (\<lambda>x. m (b + x)) a n = mem_read m (b + a) n"
  by (simp add: mem_read_def add.assoc)

end
