(* ===== verification/Crc32.thy ===== *)
theory Crc32
  imports Prelude
begin

text \<open>
  The CRC-32 of \<open>ota-metadata.c\<close> (\<open>crc32_update\<close>, \<open>ota_crc32_buffer\<close>): the reflected
  polynomial \<open>0xEDB88320\<close>, one bit at a time, as the two nested loops of the code. The lemmas
  show the algebra that makes the checksum useful: the bit step is linear over XOR and
  injective, so is the state transformer of any byte string, and four little-endian bytes act
  on the state like one XOR with the 32-bit value they encode.
\<close>

section \<open>The algorithm\<close>

definition crc32_bit :: "u32 \<Rightarrow> u32" where
  "crc32_bit crc = (if crc AND 1 \<noteq> 0 then drop_bit 1 crc XOR 0xEDB88320 else drop_bit 1 crc)"

definition crc32_byte :: "u32 \<Rightarrow> u8 \<Rightarrow> u32" where
  "crc32_byte crc b = (crc32_bit ^^ 8) (crc XOR ucast b)"

definition crc32_update :: "u32 \<Rightarrow> u8 list \<Rightarrow> u32" where
  "crc32_update crc buf = NOT (foldl crc32_byte (NOT crc) buf)"

definition ota_crc32_buffer :: "u8 list \<Rightarrow> u32" where
  "ota_crc32_buffer buf = crc32_update 0 buf"

section \<open>The bit step is linear and injective\<close>

lemma crc32_bit_alt:
  "crc32_bit c = (if bit c 0 then drop_bit 1 c XOR 0xEDB88320 else drop_bit 1 c)"
  by (simp add: crc32_bit_def and_one_eq bit_0 mod_2_eq_odd)

lemma crc32_bit_zero [simp]: "crc32_bit 0 = 0"
  by (simp add: crc32_bit_def)

lemma crc32_bit_linear: "crc32_bit (a XOR b) = crc32_bit a XOR crc32_bit b"
  by (simp add: crc32_bit_alt bit_xor_iff drop_bit_xor ac_simps)

lemma crc32_bit_kernel:
  assumes "crc32_bit c = 0"
  shows "c = 0"
proof (cases "bit c 0")
  case True
  with assms have "bit (drop_bit 1 c XOR 0xEDB88320 :: u32) 31 = bit (0 :: u32) 31"
    by (simp add: crc32_bit_alt)
  moreover have "\<not> bit c 32"
    using bit_imp_le_length[of c 32] by auto
  ultimately show ?thesis by (simp add: bit_xor_iff bit_drop_bit_eq)
next
  case False
  with assms have zero: "drop_bit 1 c = 0" by (simp add: crc32_bit_alt)
  show ?thesis
  proof (rule bit_word_eqI)
    fix n
    show "bit c n \<longleftrightarrow> bit 0 n"
    proof (cases n)
      case 0 with False show ?thesis by simp
    next
      case (Suc k)
      have "bit (drop_bit 1 c) k \<longleftrightarrow> bit (0 :: u32) k" by (simp only: zero)
      with Suc show ?thesis by (simp add: bit_drop_bit_eq)
    qed
  qed
qed

lemma inj_crc32_bit: "inj crc32_bit"
proof (rule injI)
  fix a b assume "crc32_bit a = crc32_bit b"
  then have "crc32_bit (a XOR b) = 0" by (simp add: crc32_bit_linear)
  then have "a XOR b = 0" by (rule crc32_bit_kernel)
  then show "a = b" using xor_left_cancel [of a b a] by simp
qed

lemma crc32_bits_inject [simp]: "(crc32_bit ^^ n) a = (crc32_bit ^^ n) b \<longleftrightarrow> a = b"
  using inj_fn[OF inj_crc32_bit, of n] by (auto dest: injD)

lemma crc32_bits_linear: "(crc32_bit ^^ n) (a XOR b) = (crc32_bit ^^ n) a XOR (crc32_bit ^^ n) b"
  by (induction n) (simp_all add: crc32_bit_linear)

text \<open>Bits that are still above the low end only move down.\<close>

lemma crc32_bits_shift: "(\<And>i. i < n \<Longrightarrow> \<not> bit c i) \<Longrightarrow> (crc32_bit ^^ n) c = drop_bit n c"
proof (induction n)
  case 0
  then show ?case by simp
next
  case (Suc n)
  then have "(crc32_bit ^^ n) c = drop_bit n c" by simp
  moreover have "\<not> bit (drop_bit n c) 0" using Suc.prems by (simp add: bit_drop_bit_eq)
  ultimately show ?case by (simp add: crc32_bit_alt [of "drop_bit n c"])
qed

text \<open>XORing a byte into the state after \<open>n\<close> steps is XORing it \<open>n\<close> places higher before them.\<close>

lemma crc32_bits_push:
  assumes "\<And>i. 32 - n \<le> i \<Longrightarrow> \<not> bit x i"
  shows "(crc32_bit ^^ n) c XOR x = (crc32_bit ^^ n) (c XOR push_bit n x)"
proof -
  have "(crc32_bit ^^ n) (push_bit n x) = drop_bit n (push_bit n x)"
    by (rule crc32_bits_shift) (simp add: bit_push_bit_iff)
  also have "\<dots> = x"
  proof (rule bit_word_eqI)
    fix i show "bit (drop_bit n (push_bit n x)) i \<longleftrightarrow> bit x i"
      using assms [of i] bit_imp_le_length [of x i] by (cases "n + i < 32") (auto simp: bit_simps)
  qed
  finally show ?thesis by (simp add: crc32_bits_linear)
qed

section \<open>Byte strings\<close>

lemma crc32_byte_inject_state [simp]: "crc32_byte c b = crc32_byte d b \<longleftrightarrow> c = d"
  by (simp add: crc32_byte_def xor_right_cancel)

lemma foldl_crc32_byte_inject [simp]:
  "foldl crc32_byte c bs = foldl crc32_byte d bs \<longleftrightarrow> c = d"
  by (induction bs arbitrary: c d) simp_all

text \<open>Four bytes in little-endian order act like one 32-bit XOR and 32 bit steps.\<close>

lemma crc32_bits_byte:
  "n \<le> 24 \<Longrightarrow> (crc32_bit ^^ n) c XOR ucast (b :: u8) = (crc32_bit ^^ n) (c XOR push_bit n (ucast b))"
proof (rule crc32_bits_push)
  fix i assume "n \<le> 24" "32 - n \<le> i"
  then have "\<not> bit b i" using bit_imp_le_length [of b i] by auto
  then show "\<not> bit (ucast b :: u32) i" by (simp add: bit_ucast_iff)
qed

lemma crc32_le32: "foldl crc32_byte c (le32 w) = (crc32_bit ^^ 32) (c XOR w)"
proof -
  let ?b = "\<lambda>k. ucast (drop_bit k w) :: u8"
  have step: "crc32_byte ((crc32_bit ^^ n) d) b = (crc32_bit ^^ (8 + n)) (d XOR push_bit n (ucast b))"
    if "n \<le> 24" for n d b
    using that by (simp add: crc32_byte_def crc32_bits_byte funpow_add)
  have "foldl crc32_byte c (le32 w) =
      crc32_byte (crc32_byte (crc32_byte (crc32_byte ((crc32_bit ^^ 0) c) (?b 0)) (?b 8)) (?b 16)) (?b 24)"
    by (simp add: le32_def)
  also have "\<dots> = (crc32_bit ^^ 32) (c XOR of_le32 (le32 w))"
    by (simp only: step) (simp add: le32_def ac_simps)
  finally show ?thesis by simp
qed

section \<open>Strings of 32-bit values\<close>

definition le32s :: "u32 list \<Rightarrow> u8 list" where
  "le32s ws = concat (map le32 ws)"

lemma length_le32s [simp]: "length (le32s ws) = 4 * length ws"
  by (induction ws) (simp_all add: le32s_def)

lemma crc32_le32s: "foldl crc32_byte c (le32s ws) = foldl (\<lambda>c w. (crc32_bit ^^ 32) (c XOR w)) c ws"
  by (induction ws arbitrary: c) (simp_all add: le32s_def crc32_le32)

lemma foldl_crc32_word_inject:
  "foldl (\<lambda>c w. (crc32_bit ^^ 32) (c XOR w)) c ws = foldl (\<lambda>c w. (crc32_bit ^^ 32) (c XOR w)) d ws
   \<longleftrightarrow> c = d"
  using foldl_crc32_byte_inject [of c "le32s ws" d] by (simp only: crc32_le32s)

text \<open>Changing any one 32-bit value of a record changes its checksum: an error burst inside one
  word is always detected.\<close>

lemma crc32_one_word:
  assumes "i < length ws" and "w \<noteq> ws ! i"
  shows "ota_crc32_buffer (le32s (ws[i := w])) \<noteq> ota_crc32_buffer (le32s ws)"
proof -
  have split: "ws = take i ws @ ws ! i # drop (Suc i) ws"
    using assms(1) by (rule id_take_nth_drop)
  have upd: "ws[i := w] = take i ws @ w # drop (Suc i) ws"
    using assms(1) by (rule upd_conv_take_nth_drop)
  have "foldl crc32_byte c (le32s (ws[i := w])) \<noteq> foldl crc32_byte c (le32s ws)" for c
    unfolding upd by (subst (2) split)
      (simp add: crc32_le32s foldl_crc32_word_inject assms(2) xor_left_cancel)
  then show ?thesis
    by (simp add: ota_crc32_buffer_def crc32_update_def) 
qed

end
