(* ===== verification/Metadata.thy ===== *)
theory Metadata
  imports Crc32
begin

text \<open>
  The boot metadata of the dual-onchip layout, \<open>ota-metadata.h\<close> and \<open>ota-metadata.c\<close>: the
  struct \<open>ota_boot_metadata_t\<close> as a record of its thirteen 32-bit fields, its byte image, and
  every operation of the file. A C function that changes \<open>*metadata\<close> and returns a \<open>bool\<close>
  becomes a function that returns the pair of that bool and the new record; where the code
  returns early the record is returned as it then stands.

  The lemmas show that every mutator leaves a record whose CRC validates, that the check rejects
  a record in which any one field was changed, and that the record, seen as two slots and three
  scalars (\<open>boot_view\<close>), is updated slot-symmetrically.
\<close>

section \<open>Data\<close>

definition OTA_IMAGE_MAGIC :: u32 where "OTA_IMAGE_MAGIC = 0x4F544131"
definition OTA_IMAGE_STATE_EMPTY :: u32 where "OTA_IMAGE_STATE_EMPTY = 0"
definition OTA_IMAGE_STATE_DOWNLOADING :: u32 where "OTA_IMAGE_STATE_DOWNLOADING = 1"
definition OTA_IMAGE_STATE_VERIFIED :: u32 where "OTA_IMAGE_STATE_VERIFIED = 2"
definition OTA_IMAGE_STATE_PENDING :: u32 where "OTA_IMAGE_STATE_PENDING = 3"
definition OTA_IMAGE_STATE_CONFIRMED :: u32 where "OTA_IMAGE_STATE_CONFIRMED = 4"
definition OTA_IMAGE_STATE_INVALID :: u32 where "OTA_IMAGE_STATE_INVALID = 5"
definition OTA_SLOT_NONE :: u32 where "OTA_SLOT_NONE = 0xFFFFFFFF"

text \<open>\<open>OTA_SLOT_A\<close> and \<open>OTA_SLOT_B\<close> are the integer literals 0 and 1, compared with
  both 8-bit and 32-bit slot numbers, so they are kept polymorphic in the width.\<close>

definition OTA_SLOT_A :: "'a::len word" where "OTA_SLOT_A = 0"
definition OTA_SLOT_B :: "'a::len word" where "OTA_SLOT_B = 1"

lemmas image_state_defs =
  OTA_IMAGE_STATE_EMPTY_def OTA_IMAGE_STATE_DOWNLOADING_def OTA_IMAGE_STATE_VERIFIED_def
  OTA_IMAGE_STATE_PENDING_def OTA_IMAGE_STATE_CONFIRMED_def OTA_IMAGE_STATE_INVALID_def

lemmas slot_defs = OTA_SLOT_A_def OTA_SLOT_B_def

record ota_boot_metadata =
  magic :: u32
  active_slot :: u32
  candidate_slot :: u32
  state_a :: u32
  state_b :: u32
  version_a :: u32
  version_b :: u32
  size_a :: u32
  size_b :: u32
  crc_a :: u32
  crc_b :: u32
  boot_attempts :: u32
  metadata_crc32 :: u32

text \<open>The memory image of the struct: thirteen aligned 32-bit fields, no padding, little-endian.\<close>

definition metadata_words :: "ota_boot_metadata \<Rightarrow> u32 list" where
  "metadata_words m =
     [magic m, active_slot m, candidate_slot m, state_a m, state_b m, version_a m, version_b m,
      size_a m, size_b m, crc_a m, crc_b m, boot_attempts m, metadata_crc32 m]"

definition metadata_bytes :: "ota_boot_metadata \<Rightarrow> u8 list" where
  "metadata_bytes m = le32s (metadata_words m)"

fun metadata_of_words :: "u32 list \<Rightarrow> ota_boot_metadata" where
  "metadata_of_words [mg, act, cand, sa, sb, va, vb, za, zb, ca, cb, att, crc] =
     \<lparr>magic = mg, active_slot = act, candidate_slot = cand, state_a = sa, state_b = sb,
      version_a = va, version_b = vb, size_a = za, size_b = zb, crc_a = ca, crc_b = cb,
      boot_attempts = att, metadata_crc32 = crc\<rparr>"
| "metadata_of_words _ =
     \<lparr>magic = 0, active_slot = 0, candidate_slot = 0, state_a = 0, state_b = 0,
      version_a = 0, version_b = 0, size_a = 0, size_b = 0, crc_a = 0, crc_b = 0,
      boot_attempts = 0, metadata_crc32 = 0\<rparr>"

fun words_of_bytes :: "u8 list \<Rightarrow> u32 list" where
  "words_of_bytes (b0 # b1 # b2 # b3 # bs) = of_le32 [b0, b1, b2, b3] # words_of_bytes bs"
| "words_of_bytes _ = []"

definition metadata_of_bytes :: "u8 list \<Rightarrow> ota_boot_metadata" where
  "metadata_of_bytes bs = metadata_of_words (words_of_bytes bs)"

definition sizeof_metadata :: nat where "sizeof_metadata = 52"

section \<open>Operations\<close>

definition ota_metadata_refresh_crc :: "ota_boot_metadata \<Rightarrow> ota_boot_metadata" where
  "ota_metadata_refresh_crc m =
     (let m0 = m\<lparr>metadata_crc32 := 0\<rparr>
      in m0\<lparr>metadata_crc32 := ota_crc32_buffer (metadata_bytes m0)\<rparr>)"

definition ota_metadata_crc_is_valid :: "ota_boot_metadata \<Rightarrow> bool" where
  "ota_metadata_crc_is_valid m \<longleftrightarrow>
     (if magic m \<noteq> OTA_IMAGE_MAGIC then False
      else ota_crc32_buffer (metadata_bytes (m\<lparr>metadata_crc32 := 0\<rparr>)) = metadata_crc32 m)"

definition ota_metadata_mark_verified ::
    "ota_boot_metadata \<Rightarrow> u32 \<Rightarrow> u32 \<Rightarrow> u32 \<Rightarrow> u32 \<Rightarrow> bool \<times> ota_boot_metadata" where
  "ota_metadata_mark_verified m slot version image_size image_crc32 =
     (if magic m \<noteq> OTA_IMAGE_MAGIC then (False, m)
      else if slot = OTA_SLOT_A then
        (True, ota_metadata_refresh_crc (m\<lparr>version_a := version, size_a := image_size,
           crc_a := image_crc32, state_a := OTA_IMAGE_STATE_VERIFIED\<rparr>))
      else if slot = OTA_SLOT_B then
        (True, ota_metadata_refresh_crc (m\<lparr>version_b := version, size_b := image_size,
           crc_b := image_crc32, state_b := OTA_IMAGE_STATE_VERIFIED\<rparr>))
      else (False, m))"

definition ota_metadata_stage_verified_image ::
    "ota_boot_metadata \<Rightarrow> u32 \<Rightarrow> bool \<times> ota_boot_metadata" where
  "ota_metadata_stage_verified_image m slot =
     (if \<not> ota_metadata_crc_is_valid m then (False, m)
      else if slot = OTA_SLOT_A \<and> state_a m = OTA_IMAGE_STATE_VERIFIED then
        (True, ota_metadata_refresh_crc (m\<lparr>candidate_slot := OTA_SLOT_A,
           state_a := OTA_IMAGE_STATE_PENDING, boot_attempts := 0\<rparr>))
      else if slot = OTA_SLOT_B \<and> state_b m = OTA_IMAGE_STATE_VERIFIED then
        (True, ota_metadata_refresh_crc (m\<lparr>candidate_slot := OTA_SLOT_B,
           state_b := OTA_IMAGE_STATE_PENDING, boot_attempts := 0\<rparr>))
      else (False, m))"

definition ota_metadata_confirm_running_image ::
    "ota_boot_metadata \<Rightarrow> u32 \<Rightarrow> bool \<times> ota_boot_metadata" where
  "ota_metadata_confirm_running_image m slot =
     (if \<not> ota_metadata_crc_is_valid m then (False, m)
      else if slot = OTA_SLOT_A then
        (True, ota_metadata_refresh_crc (m\<lparr>active_slot := OTA_SLOT_A,
           candidate_slot := OTA_SLOT_NONE, state_a := OTA_IMAGE_STATE_CONFIRMED,
           boot_attempts := 0\<rparr>))
      else if slot = OTA_SLOT_B then
        (True, ota_metadata_refresh_crc (m\<lparr>active_slot := OTA_SLOT_B,
           candidate_slot := OTA_SLOT_NONE, state_b := OTA_IMAGE_STATE_CONFIRMED,
           boot_attempts := 0\<rparr>))
      else (False, m))"

definition ota_metadata_init_factory ::
    "ota_boot_metadata \<Rightarrow> u32 \<Rightarrow> u32 \<Rightarrow> u32 \<Rightarrow> u32 \<Rightarrow> ota_boot_metadata" where
  "ota_metadata_init_factory m active version image_size crc =
     (let m = m\<lparr>magic := OTA_IMAGE_MAGIC, active_slot := active,
                candidate_slot := OTA_SLOT_NONE, boot_attempts := 0\<rparr>
      in if active = OTA_SLOT_A then
           ota_metadata_refresh_crc (m\<lparr>state_a := OTA_IMAGE_STATE_PENDING,
             state_b := OTA_IMAGE_STATE_EMPTY, crc_a := crc, crc_b := 0,
             version_a := version, size_a := image_size, version_b := 0, size_b := 0\<rparr>)
         else
           ota_metadata_refresh_crc (m\<lparr>state_b := OTA_IMAGE_STATE_PENDING,
             state_a := OTA_IMAGE_STATE_EMPTY, crc_b := crc, crc_a := 0,
             version_b := version, size_b := image_size, version_a := 0, size_a := 0\<rparr>))"

definition ota_metadata_increment_boot_attempts :: "ota_boot_metadata \<Rightarrow> ota_boot_metadata" where
  "ota_metadata_increment_boot_attempts m =
     ota_metadata_refresh_crc (m\<lparr>boot_attempts := boot_attempts m + 1\<rparr>)"

definition ota_metadata_mark_slot_invalid :: "ota_boot_metadata \<Rightarrow> u32 \<Rightarrow> ota_boot_metadata" where
  "ota_metadata_mark_slot_invalid m slot =
     ota_metadata_refresh_crc
       (if slot = OTA_SLOT_A then m\<lparr>state_a := OTA_IMAGE_STATE_INVALID\<rparr>
        else if slot = OTA_SLOT_B then m\<lparr>state_b := OTA_IMAGE_STATE_INVALID\<rparr>
        else m)"

definition ota_metadata_set_candidate ::
    "ota_boot_metadata \<Rightarrow> u32 \<Rightarrow> u32 \<Rightarrow> u32 \<Rightarrow> u32 \<Rightarrow> ota_boot_metadata" where
  "ota_metadata_set_candidate m cand version image_size crc =
     (let m = m\<lparr>candidate_slot := cand, boot_attempts := 1\<rparr>
      in ota_metadata_refresh_crc
           (if cand = OTA_SLOT_A then
              m\<lparr>state_a := OTA_IMAGE_STATE_PENDING, crc_a := crc, version_a := version,
                size_a := image_size\<rparr>
            else
              m\<lparr>state_b := OTA_IMAGE_STATE_PENDING, crc_b := crc, version_b := version,
                size_b := image_size\<rparr>))"

definition ota_metadata_clear_candidate :: "ota_boot_metadata \<Rightarrow> ota_boot_metadata" where
  "ota_metadata_clear_candidate m =
     ota_metadata_refresh_crc (m\<lparr>candidate_slot := OTA_SLOT_NONE, boot_attempts := 0\<rparr>)"

definition ota_metadata_clear_slot :: "ota_boot_metadata \<Rightarrow> u32 \<Rightarrow> ota_boot_metadata" where
  "ota_metadata_clear_slot m slot =
     ota_metadata_refresh_crc
       (if slot = OTA_SLOT_A then
          m\<lparr>state_a := OTA_IMAGE_STATE_EMPTY, crc_a := 0, version_a := 0, size_a := 0\<rparr>
        else if slot = OTA_SLOT_B then
          m\<lparr>state_b := OTA_IMAGE_STATE_EMPTY, crc_b := 0, version_b := 0, size_b := 0\<rparr>
        else m)"

lemmas metadata_op_defs =
  ota_metadata_mark_verified_def ota_metadata_stage_verified_image_def
  ota_metadata_confirm_running_image_def ota_metadata_init_factory_def
  ota_metadata_increment_boot_attempts_def ota_metadata_mark_slot_invalid_def
  ota_metadata_set_candidate_def ota_metadata_clear_candidate_def ota_metadata_clear_slot_def

section \<open>Layout\<close>

lemma length_metadata_words [simp]: "length (metadata_words m) = 13"
  by (simp add: metadata_words_def)

lemma length_metadata_bytes [simp]: "length (metadata_bytes m) = sizeof_metadata"
  by (simp add: metadata_bytes_def sizeof_metadata_def)

lemma words_of_bytes_le32s [simp]: "words_of_bytes (le32s ws) = ws"
proof (induction ws)
  case Nil
  then show ?case by (simp add: le32s_def)
next
  case (Cons w ws)
  have "words_of_bytes (le32 w @ le32s ws) = of_le32 (le32 w) # words_of_bytes (le32s ws)"
    by (simp add: le32_def)
  with Cons show ?case by (simp add: le32s_def)
qed

lemma metadata_of_words_words [simp]: "metadata_of_words (metadata_words m) = m"
  by (simp add: metadata_words_def)

lemma metadata_of_bytes_bytes [simp]: "metadata_of_bytes (metadata_bytes m) = m"
  by (simp add: metadata_of_bytes_def metadata_bytes_def)

lemma metadata_bytes_inject [simp]: "metadata_bytes m = metadata_bytes m' \<longleftrightarrow> m = m'"
  by (metis metadata_of_bytes_bytes)

section \<open>The checksum\<close>

lemma refresh_crc_fields [simp]:
  "magic (ota_metadata_refresh_crc m) = magic m"
  "active_slot (ota_metadata_refresh_crc m) = active_slot m"
  "candidate_slot (ota_metadata_refresh_crc m) = candidate_slot m"
  "state_a (ota_metadata_refresh_crc m) = state_a m"
  "state_b (ota_metadata_refresh_crc m) = state_b m"
  "version_a (ota_metadata_refresh_crc m) = version_a m"
  "version_b (ota_metadata_refresh_crc m) = version_b m"
  "size_a (ota_metadata_refresh_crc m) = size_a m"
  "size_b (ota_metadata_refresh_crc m) = size_b m"
  "crc_a (ota_metadata_refresh_crc m) = crc_a m"
  "crc_b (ota_metadata_refresh_crc m) = crc_b m"
  "boot_attempts (ota_metadata_refresh_crc m) = boot_attempts m"
  by (simp_all add: ota_metadata_refresh_crc_def Let_def)

lemma crc_is_valid_refresh [simp]:
  "ota_metadata_crc_is_valid (ota_metadata_refresh_crc m) \<longleftrightarrow> magic m = OTA_IMAGE_MAGIC"
  by (simp add: ota_metadata_crc_is_valid_def ota_metadata_refresh_crc_def Let_def)

lemma crc_is_valid_magic: "ota_metadata_crc_is_valid m \<Longrightarrow> magic m = OTA_IMAGE_MAGIC"
  by (simp add: ota_metadata_crc_is_valid_def split: if_splits)

lemma crc_is_valid_unique:
  assumes "ota_metadata_crc_is_valid m" and "ota_metadata_crc_is_valid m'"
    and "m'\<lparr>metadata_crc32 := 0\<rparr> = m\<lparr>metadata_crc32 := 0\<rparr>"
  shows "metadata_crc32 m' = metadata_crc32 m"
  using assms by (simp add: ota_metadata_crc_is_valid_def split: if_splits)

lemma metadata_words_zero_crc:
  "metadata_words (m\<lparr>metadata_crc32 := 0\<rparr>) = (metadata_words m)[12 := 0]"
  by (simp add: metadata_words_def)

text \<open>C38. The metadata check detects every change of a single field: if a record validates, and
  another record's memory image differs from it in exactly one of the thirteen 32-bit fields (by
  any number of bits of that field, the checksum field included), the other record does not
  validate.\<close>

theorem metadata_one_field_change_detected:
  assumes valid: "ota_metadata_crc_is_valid m"
    and i: "i < 13" and w: "w \<noteq> metadata_words m ! i"
    and m': "metadata_words m' = (metadata_words m)[i := w]"
  shows "\<not> ota_metadata_crc_is_valid m'"
proof
  assume valid': "ota_metadata_crc_is_valid m'"
  let ?z = "\<lambda>m. metadata_words (m\<lparr>metadata_crc32 := 0\<rparr>)"
  have crc: "metadata_crc32 n = ota_crc32_buffer (le32s (?z n))" if "ota_metadata_crc_is_valid n" for n
    using that by (simp add: ota_metadata_crc_is_valid_def metadata_bytes_def split: if_splits)
  have last: "metadata_words n ! 12 = metadata_crc32 n" for n
    by (simp add: metadata_words_def)
  show False
  proof (cases "i = 12")
    case True
    then have "?z m' = ?z m" by (simp add: metadata_words_zero_crc m')
    then have "metadata_words m' ! 12 = metadata_words m ! 12"
      by (simp only: last crc [OF valid] crc [OF valid'])
    with True w m' show False by simp
  next
    case False
    then have "?z m' = (?z m)[i := w]" "?z m ! i = metadata_words m ! i"
      by (simp_all add: metadata_words_zero_crc m' list_update_swap)
    then have "ota_crc32_buffer (le32s (?z m')) \<noteq> ota_crc32_buffer (le32s (?z m))"
      using i w by (simp add: crc32_one_word)
    moreover have "metadata_words m' ! 12 = metadata_words m ! 12" using False m' by simp
    ultimately show False by (simp only: last crc [OF valid] crc [OF valid'])
  qed
qed

theorem metadata_one_field_change_detected_witness:
  "let m = ota_metadata_init_factory (metadata_of_words []) 0 1 100 7;
       m' = m\<lparr>boot_attempts := 9\<rparr>
   in ota_metadata_crc_is_valid m \<and> \<not> ota_metadata_crc_is_valid m'"
proof -
  let ?m = "ota_metadata_init_factory (metadata_of_words []) 0 1 100 7"
  have v: "ota_metadata_crc_is_valid ?m"
    by (simp add: ota_metadata_init_factory_def Let_def)
  have w: "(9::u32) \<noteq> metadata_words ?m ! 11"
    by (simp add: metadata_words_def ota_metadata_init_factory_def Let_def)
  have u: "metadata_words (?m\<lparr>boot_attempts := 9\<rparr>) = (metadata_words ?m)[11 := 9]"
    by (simp add: metadata_words_def)
  show ?thesis
    using v metadata_one_field_change_detected [OF v _ w u] by (simp add: Let_def)
qed

section \<open>The abstract boot record: two slots and three scalars\<close>

datatype slot = SlotA | SlotB

record image_info =
  img_state :: u32
  img_version :: u32
  img_size :: u32
  img_crc :: u32

record boot_view =
  bv_active :: u32
  bv_candidate :: u32
  bv_attempts :: u32
  bv_image :: "slot \<Rightarrow> image_info"

fun slot_no :: "slot \<Rightarrow> 'a::len word" where
  "slot_no SlotA = OTA_SLOT_A"
| "slot_no SlotB = OTA_SLOT_B"

fun other_slot :: "slot \<Rightarrow> slot" where
  "other_slot SlotA = SlotB"
| "other_slot SlotB = SlotA"

definition boot_view_of :: "ota_boot_metadata \<Rightarrow> boot_view" where
  "boot_view_of m =
     \<lparr>bv_active = active_slot m, bv_candidate = candidate_slot m, bv_attempts = boot_attempts m,
      bv_image = (\<lambda>s. case s of
         SlotA \<Rightarrow> \<lparr>img_state = state_a m, img_version = version_a m, img_size = size_a m, img_crc = crc_a m\<rparr>
       | SlotB \<Rightarrow> \<lparr>img_state = state_b m, img_version = version_b m, img_size = size_b m, img_crc = crc_b m\<rparr>)\<rparr>"

definition set_img_state :: "u32 \<Rightarrow> slot \<Rightarrow> boot_view \<Rightarrow> boot_view" where
  "set_img_state st s v = v\<lparr>bv_image := (bv_image v)(s := (bv_image v s)\<lparr>img_state := st\<rparr>)\<rparr>"

definition set_image :: "image_info \<Rightarrow> slot \<Rightarrow> boot_view \<Rightarrow> boot_view" where
  "set_image i s v = v\<lparr>bv_image := (bv_image v)(s := i)\<rparr>"

lemma slot_no_inject [simp]: "slot_no s = (slot_no t :: 'a::len word) \<longleftrightarrow> s = t"
  by (cases s; cases t) (simp_all add: slot_defs)

lemma ucast_slot_no [simp]: "(ucast (slot_no s :: u8) :: u32) = slot_no s"
  by (cases s) (simp_all add: slot_defs)

lemma ucast_slots [simp]:
  "(ucast (OTA_SLOT_A :: u8) :: u32) = OTA_SLOT_A" "(ucast (OTA_SLOT_B :: u8) :: u32) = OTA_SLOT_B"
  by (simp_all add: slot_defs)

lemma other_slot_neq [simp]: "other_slot s \<noteq> s" "s \<noteq> other_slot s"
  by (cases s; simp)+

lemma other_slot_other [simp]: "other_slot (other_slot s) = s"
  by (cases s) simp_all

lemma boot_view_refresh [simp]: "boot_view_of (ota_metadata_refresh_crc m) = boot_view_of m"
  by (simp add: boot_view_of_def cong: slot.case_cong)

text \<open>Each operation on the C struct, seen through \<open>boot_view_of\<close>, is the slot-indexed update.\<close>

lemmas view_defs = boot_view_of_def set_img_state_def set_image_def fun_eq_iff slot_defs

lemma mark_verified_view:
  assumes "magic m = OTA_IMAGE_MAGIC"
  shows "fst (ota_metadata_mark_verified m (slot_no s) v z c)"
    and "ota_metadata_crc_is_valid (snd (ota_metadata_mark_verified m (slot_no s) v z c))"
    and "boot_view_of (snd (ota_metadata_mark_verified m (slot_no s) v z c)) =
      set_image \<lparr>img_state = OTA_IMAGE_STATE_VERIFIED, img_version = v, img_size = z, img_crc = c\<rparr> s
        (boot_view_of m)"
  using assms by (cases s; simp add: ota_metadata_mark_verified_def view_defs split: slot.split)+

lemma stage_verified_view:
  assumes "ota_metadata_crc_is_valid m"
    and "img_state (bv_image (boot_view_of m) s) = OTA_IMAGE_STATE_VERIFIED"
  shows "fst (ota_metadata_stage_verified_image m (slot_no s))"
    and "ota_metadata_crc_is_valid (snd (ota_metadata_stage_verified_image m (slot_no s)))"
    and "boot_view_of (snd (ota_metadata_stage_verified_image m (slot_no s))) =
      (set_img_state OTA_IMAGE_STATE_PENDING s (boot_view_of m))
        \<lparr>bv_candidate := slot_no s, bv_attempts := 0\<rparr>"
  using assms crc_is_valid_magic [OF assms(1)]
  by (cases s; simp add: ota_metadata_stage_verified_image_def view_defs split: slot.split)+

lemma stage_unverified_rejected:
  assumes "img_state (bv_image (boot_view_of m) s) \<noteq> OTA_IMAGE_STATE_VERIFIED"
  shows "ota_metadata_stage_verified_image m (slot_no s) = (False, m)"
  using assms by (cases s) (simp_all add: ota_metadata_stage_verified_image_def view_defs)

lemma confirm_view:
  assumes "ota_metadata_crc_is_valid m"
  shows "fst (ota_metadata_confirm_running_image m (slot_no s))"
    and "ota_metadata_crc_is_valid (snd (ota_metadata_confirm_running_image m (slot_no s)))"
    and "boot_view_of (snd (ota_metadata_confirm_running_image m (slot_no s))) =
      (set_img_state OTA_IMAGE_STATE_CONFIRMED s (boot_view_of m))
        \<lparr>bv_active := slot_no s, bv_candidate := OTA_SLOT_NONE, bv_attempts := 0\<rparr>"
  using assms crc_is_valid_magic [OF assms(1)]
  by (cases s; simp add: ota_metadata_confirm_running_image_def view_defs split: slot.split)+

lemma mark_invalid_view:
  "boot_view_of (ota_metadata_mark_slot_invalid m (slot_no s)) =
     set_img_state OTA_IMAGE_STATE_INVALID s (boot_view_of m)"
  by (cases s) (simp_all add: ota_metadata_mark_slot_invalid_def view_defs split: slot.split)

lemma clear_slot_view:
  "boot_view_of (ota_metadata_clear_slot m (slot_no s)) =
     set_image \<lparr>img_state = OTA_IMAGE_STATE_EMPTY, img_version = 0, img_size = 0, img_crc = 0\<rparr> s
       (boot_view_of m)"
  by (cases s) (simp_all add: ota_metadata_clear_slot_def view_defs split: slot.split)

lemma set_candidate_view:
  "boot_view_of (ota_metadata_set_candidate m (slot_no s) v z c) =
     (set_image \<lparr>img_state = OTA_IMAGE_STATE_PENDING, img_version = v, img_size = z, img_crc = c\<rparr> s
       (boot_view_of m))\<lparr>bv_candidate := slot_no s, bv_attempts := 1\<rparr>"
  by (cases s) (simp_all add: ota_metadata_set_candidate_def view_defs Let_def split: slot.split)

lemma init_factory_view:
  "boot_view_of (ota_metadata_init_factory m (slot_no s) v z c) =
     \<lparr>bv_active = slot_no s, bv_candidate = OTA_SLOT_NONE, bv_attempts = 0,
      bv_image = (\<lambda>t. if t = s
        then \<lparr>img_state = OTA_IMAGE_STATE_PENDING, img_version = v, img_size = z, img_crc = c\<rparr>
        else \<lparr>img_state = OTA_IMAGE_STATE_EMPTY, img_version = 0, img_size = 0, img_crc = 0\<rparr>)\<rparr>"
  by (cases s) (simp_all add: ota_metadata_init_factory_def view_defs Let_def split: slot.split)

lemma increment_view:
  "boot_view_of (ota_metadata_increment_boot_attempts m) =
     (boot_view_of m)\<lparr>bv_attempts := bv_attempts (boot_view_of m) + 1\<rparr>"
  by (simp add: ota_metadata_increment_boot_attempts_def view_defs split: slot.split)

lemma op_magic [simp]:
  "magic (ota_metadata_init_factory m a v z c) = OTA_IMAGE_MAGIC"
  "magic (ota_metadata_set_candidate m a v z c) = magic m"
  "magic (ota_metadata_increment_boot_attempts m) = magic m"
  "magic (ota_metadata_mark_slot_invalid m a) = magic m"
  "magic (ota_metadata_clear_slot m a) = magic m"
  "magic (ota_metadata_clear_candidate m) = magic m"
  by (simp_all add: metadata_op_defs Let_def)

lemma op_valid [simp]:
  "ota_metadata_crc_is_valid (ota_metadata_init_factory m a v z c)"
  "ota_metadata_crc_is_valid (ota_metadata_set_candidate m a v z c) \<longleftrightarrow> magic m = OTA_IMAGE_MAGIC"
  "ota_metadata_crc_is_valid (ota_metadata_increment_boot_attempts m) \<longleftrightarrow> magic m = OTA_IMAGE_MAGIC"
  "ota_metadata_crc_is_valid (ota_metadata_mark_slot_invalid m a) \<longleftrightarrow> magic m = OTA_IMAGE_MAGIC"
  "ota_metadata_crc_is_valid (ota_metadata_clear_slot m a) \<longleftrightarrow> magic m = OTA_IMAGE_MAGIC"
  "ota_metadata_crc_is_valid (ota_metadata_clear_candidate m) \<longleftrightarrow> magic m = OTA_IMAGE_MAGIC"
  by (simp_all add: metadata_op_defs Let_def)

lemma mark_stage_seq:
  assumes "magic m = OTA_IMAGE_MAGIC"
  obtains m1 m2 where
    "ota_metadata_mark_verified m (slot_no s) v z c = (True, m1)"
    "ota_metadata_stage_verified_image m1 (slot_no s) = (True, m2)"
    "ota_metadata_crc_is_valid m2"
    "boot_view_of m2 =
       (set_image \<lparr>img_state = OTA_IMAGE_STATE_PENDING, img_version = v, img_size = z, img_crc = c\<rparr> s
          (boot_view_of m))\<lparr>bv_candidate := slot_no s, bv_attempts := 0\<rparr>"
proof -
  let ?m1 = "snd (ota_metadata_mark_verified m (slot_no s) v z c)"
  let ?m2 = "snd (ota_metadata_stage_verified_image ?m1 (slot_no s))"
  note mv = mark_verified_view [OF assms, of s v z c]
  have "img_state (bv_image (boot_view_of ?m1) s) = OTA_IMAGE_STATE_VERIFIED"
    by (simp add: mv(3) set_image_def)
  note sv = stage_verified_view [OF mv(2) this]
  have "boot_view_of ?m2 =
      (set_image \<lparr>img_state = OTA_IMAGE_STATE_PENDING, img_version = v, img_size = z, img_crc = c\<rparr> s
        (boot_view_of m))\<lparr>bv_candidate := slot_no s, bv_attempts := 0\<rparr>"
    by (simp add: sv(3) mv(3) set_image_def set_img_state_def)
  with mv(1) sv(1,2) show ?thesis by (intro that [of ?m1 ?m2]) (simp_all add: prod_eq_iff)
qed

text \<open>C17. Verifying and then staging an image, the pair of calls \<open>ota_sensor_backend_stage\<close>
  makes, always succeeds on a record with the right magic and a real slot: it records version,
  size and CRC of the image in that slot as PENDING, makes the slot the boot candidate with no
  boot attempts, leaves the other slot's record and the active slot alone, and the result
  validates.\<close>

theorem mark_and_stage:
  assumes "magic m = OTA_IMAGE_MAGIC"
  shows "\<exists>m1 m2. ota_metadata_mark_verified m (slot_no s) v z c = (True, m1) \<and>
     ota_metadata_stage_verified_image m1 (slot_no s) = (True, m2) \<and>
     ota_metadata_crc_is_valid m2 \<and>
     boot_view_of m2 =
       (set_image \<lparr>img_state = OTA_IMAGE_STATE_PENDING, img_version = v, img_size = z, img_crc = c\<rparr> s
          (boot_view_of m))\<lparr>bv_candidate := slot_no s, bv_attempts := 0\<rparr>"
  using assms by (rule mark_stage_seq) blast

theorem mark_and_stage_witness:
  "\<exists>m1 m2. ota_metadata_mark_verified (ota_metadata_init_factory (metadata_of_words []) 0 1 100 7)
       (slot_no SlotB) 2 200 9 = (True, m1) \<and>
     ota_metadata_stage_verified_image m1 (slot_no SlotB) = (True, m2) \<and> candidate_slot m2 = 1"
proof -
  have "magic (ota_metadata_init_factory (metadata_of_words []) 0 1 100 7) = OTA_IMAGE_MAGIC" by simp
  from mark_and_stage [OF this, of SlotB 2 200 9] obtain m1 m2 where
    m: "ota_metadata_mark_verified (ota_metadata_init_factory (metadata_of_words []) 0 1 100 7)
       (slot_no SlotB) 2 200 9 = (True, m1)"
      "ota_metadata_stage_verified_image m1 (slot_no SlotB) = (True, m2)"
    and "bv_candidate (boot_view_of m2) = slot_no SlotB" by auto
  then have "candidate_slot m2 = 1" by (simp add: boot_view_of_def slot_defs)
  with m show ?thesis by blast
qed

section \<open>The life of a record\<close>

text \<open>
  One step of a record is one call of an operation of \<open>ota-metadata.c\<close>, whatever it returns.
  Every operation takes any 32-bit slot number. \<open>init_factory\<close> and \<open>set_candidate\<close> store the number
  they are given; \<open>N\<close> is the set of those numbers (the boot check gives the running slot, A or B).
\<close>

inductive metadata_step :: "u32 set \<Rightarrow> ota_boot_metadata \<Rightarrow> ota_boot_metadata \<Rightarrow> bool" for N where
  verify: "metadata_step N m (snd (ota_metadata_mark_verified m n v z c))"
| stage: "metadata_step N m (snd (ota_metadata_stage_verified_image m n))"
| confirm: "metadata_step N m (snd (ota_metadata_confirm_running_image m n))"
| factory: "n \<in> N \<Longrightarrow> metadata_step N m (ota_metadata_init_factory m n v z c)"
| attempt: "metadata_step N m (ota_metadata_increment_boot_attempts m)"
| invalidate: "metadata_step N m (ota_metadata_mark_slot_invalid m n)"
| candidate: "n \<in> N \<Longrightarrow> metadata_step N m (ota_metadata_set_candidate m n v z c)"
| uncandidate: "metadata_step N m (ota_metadata_clear_candidate m)"
| clear: "metadata_step N m (ota_metadata_clear_slot m n)"

inductive metadata_reachable :: "u32 set \<Rightarrow> ota_boot_metadata \<Rightarrow> bool" for N where
  factory_start: "n \<in> N \<Longrightarrow> metadata_reachable N (ota_metadata_init_factory m n v z c)"
| later: "metadata_reachable N m \<Longrightarrow> metadata_step N m m' \<Longrightarrow> metadata_reachable N m'"

definition known_state :: "u32 \<Rightarrow> bool" where
  "known_state st \<longleftrightarrow> st \<le> OTA_IMAGE_STATE_INVALID"

definition metadata_ok :: "u32 set \<Rightarrow> ota_boot_metadata \<Rightarrow> bool" where
  "metadata_ok N m \<longleftrightarrow>
     ota_metadata_crc_is_valid m \<and> known_state (state_a m) \<and> known_state (state_b m) \<and>
     active_slot m \<in> {OTA_SLOT_A, OTA_SLOT_B} \<union> N \<and>
     candidate_slot m \<in> {OTA_SLOT_A, OTA_SLOT_B, OTA_SLOT_NONE} \<union> N"

lemma known_states [simp]:
  "known_state OTA_IMAGE_STATE_EMPTY" "known_state OTA_IMAGE_STATE_VERIFIED"
  "known_state OTA_IMAGE_STATE_PENDING" "known_state OTA_IMAGE_STATE_CONFIRMED"
  "known_state OTA_IMAGE_STATE_INVALID"
  by (simp_all add: known_state_def image_state_defs)

lemma slot_no_cases [simp]: "slot_no s \<in> {OTA_SLOT_A, OTA_SLOT_B}"
  by (cases s) simp_all

lemma metadata_ok_factory: "n \<in> N \<Longrightarrow> metadata_ok N (ota_metadata_init_factory m n v z c)"
  by (simp add: metadata_ok_def ota_metadata_init_factory_def Let_def)

lemma metadata_ok_candidate: "n \<in> N \<Longrightarrow> metadata_ok N m \<Longrightarrow> metadata_ok N (ota_metadata_set_candidate m n v z c)"
  by (auto simp: metadata_ok_def ota_metadata_set_candidate_def Let_def dest: crc_is_valid_magic)

lemma metadata_step_ok:
  assumes "metadata_step N m m'" and "metadata_ok N m"
  shows "metadata_ok N m'"
  using assms
proof cases
  case (factory n v z c)
  then show ?thesis by (simp add: metadata_ok_factory)
next
  case (candidate n v z c)
  with assms(2) show ?thesis by (simp add: metadata_ok_candidate)
qed (auto simp: metadata_ok_def metadata_op_defs dest: crc_is_valid_magic)

text \<open>C37. Whatever sequence of metadata operations runs after factory initialisation, with whatever 32-bit
  slot numbers, the record keeps a valid checksum and image states among the six the header
  defines; its active slot is A, B or a number \<open>init_factory\<close> or \<open>set_candidate\<close> was called with, and
  its candidate is A, B, none or such a number. \<open>N\<close> is the set of these numbers: as the code calls
  the two operations, with the running slot, they are A and B only.\<close>

theorem metadata_reachable_ok: "metadata_reachable N m \<Longrightarrow> metadata_ok N m"
  by (induction rule: metadata_reachable.induct) (auto intro: metadata_ok_factory metadata_step_ok)

theorem metadata_reachable_ok_witness:
  "metadata_ok {OTA_SLOT_A, OTA_SLOT_B} (snd (ota_metadata_confirm_running_image
     (ota_metadata_set_candidate (ota_metadata_init_factory (metadata_of_words []) OTA_SLOT_A 1 100 7)
        OTA_SLOT_B 2 200 9) 5))"
  by (rule metadata_reachable_ok)
    (rule metadata_reachable.later [OF metadata_reachable.later
       [OF metadata_reachable.factory_start metadata_step.candidate] metadata_step.confirm]; simp)

end
