(* ===== verification/Flash.thy ===== *)
theory Flash
  imports Metadata
begin

text \<open>
  The internal-flash helpers of the dual-onchip layout, \<open>ota-flash.h\<close> and \<open>ota-flash.c\<close>. The
  flash is memory mapped, so its contents are a byte-addressed memory (\<open>fmem\<close>) that the code
  reads with \<open>memcpy\<close>; \<open>erased_sector_addr\<close> is the static variable of the file.

  \<open>FlashProgram\<close>, \<open>FlashSectorErase\<close> and the status code \<open>FAPI_STATUS_SUCCESS\<close> belong to the
  vendor's driverlib, which is not part of the repository: they are the fields of a
  \<open>flash_driver\<close> argument. What the code relies on is the predicate \<open>flash_driver_ok\<close>, the
  documented behaviour of NOR flash: programming can only clear bits (the new contents are the
  AND of the old contents and the data), erasing a sector sets it to \<open>0xFF\<close>, and neither touches
  anything outside its range, even when it reports a failure. The instruction cache and the
  interrupt mask that \<open>program_flash\<close> and \<open>erase_flash_sector\<close> save and restore around the
  driver call do not hold flash contents and are not modelled.
\<close>

section \<open>Flash layout\<close>

definition OTA_SLOT_A_START :: u32 where "OTA_SLOT_A_START = 0x00000000"
definition OTA_SLOT_A_SIZE :: u32 where "OTA_SLOT_A_SIZE = 0x0002A000"
definition OTA_FLASH_METADATA_START :: u32 where "OTA_FLASH_METADATA_START = 0x0002A000"
definition OTA_SLOT_B_START :: u32 where "OTA_SLOT_B_START = 0x0002E000"
definition OTA_SLOT_B_SIZE :: u32 where "OTA_SLOT_B_SIZE = 0x00028000"
definition OTA_FLASH_ERASE_SECTOR_SIZE :: u32 where "OTA_FLASH_ERASE_SECTOR_SIZE = 0x2000"

text \<open>\<open>_metadata_flash_addr\<close>, provided by both linker scripts.\<close>

definition NV_METADATA_PAGE_ADDRESS :: u32 where "NV_METADATA_PAGE_ADDRESS = 0x2A000"

lemmas layout_defs =
  OTA_SLOT_A_START_def OTA_SLOT_A_SIZE_def OTA_FLASH_METADATA_START_def OTA_SLOT_B_START_def
  OTA_SLOT_B_SIZE_def OTA_FLASH_ERASE_SECTOR_SIZE_def NV_METADATA_PAGE_ADDRESS_def

section \<open>The driver\<close>

record flash_driver =
  FlashProgram :: "u8 list \<Rightarrow> u32 \<Rightarrow> mem \<Rightarrow> u32 \<times> mem"
  FlashSectorErase :: "u32 \<Rightarrow> mem \<Rightarrow> u32 \<times> mem"
  FAPI_STATUS_SUCCESS :: u32

text \<open>NOR programming and erasing of a region.\<close>

definition mem_program :: "u32 \<Rightarrow> u8 list \<Rightarrow> mem \<Rightarrow> mem" where
  "mem_program a bs m = (\<lambda>x. if in_region a (length bs) x then m x AND bs ! unat (x - a) else m x)"

definition mem_erase :: "u32 \<Rightarrow> nat \<Rightarrow> mem \<Rightarrow> mem" where
  "mem_erase a n m = (\<lambda>x. if in_region a n x then 0xFF else m x)"

definition flash_driver_ok :: "flash_driver \<Rightarrow> bool" where
  "flash_driver_ok drv \<longleftrightarrow>
     (\<forall>bs a m status m'. FlashProgram drv bs a m = (status, m') \<longrightarrow>
        (\<forall>x. \<not> in_region a (length bs) x \<longrightarrow> m' x = m x) \<and>
        (status = FAPI_STATUS_SUCCESS drv \<longrightarrow> m' = mem_program a bs m)) \<and>
     (\<forall>a m status m'. FlashSectorErase drv a m = (status, m') \<longrightarrow>
        (\<forall>x. \<not> in_region a (unat OTA_FLASH_ERASE_SECTOR_SIZE) x \<longrightarrow> m' x = m x) \<and>
        (status = FAPI_STATUS_SUCCESS drv \<longrightarrow>
           m' = mem_erase a (unat OTA_FLASH_ERASE_SECTOR_SIZE) m))"

text \<open>The driver that always succeeds, used by the witnesses.\<close>

definition nor_driver :: flash_driver where
  "nor_driver = \<lparr>FlashProgram = (\<lambda>bs a m. (0, mem_program a bs m)),
     FlashSectorErase = (\<lambda>a m. (0, mem_erase a (unat OTA_FLASH_ERASE_SECTOR_SIZE) m)),
     FAPI_STATUS_SUCCESS = 0\<rparr>"

section \<open>Operations\<close>

record flash_state =
  fmem :: mem
  erased_sector_addr :: u32

definition program_flash ::
    "flash_driver \<Rightarrow> u32 \<Rightarrow> u8 list \<Rightarrow> 'a flash_state_scheme \<Rightarrow> bool \<times> 'a flash_state_scheme" where
  "program_flash drv address data st =
     (case FlashProgram drv data address (fmem st) of
        (status, m') \<Rightarrow> (status = FAPI_STATUS_SUCCESS drv, st\<lparr>fmem := m'\<rparr>))"

definition erase_flash_sector ::
    "flash_driver \<Rightarrow> u32 \<Rightarrow> 'a flash_state_scheme \<Rightarrow> bool \<times> 'a flash_state_scheme" where
  "erase_flash_sector drv address st =
     (case FlashSectorErase drv address (fmem st) of
        (status, m') \<Rightarrow> (status = FAPI_STATUS_SUCCESS drv, st\<lparr>fmem := m'\<rparr>))"

text \<open>The metadata is copied out whether or not it validates.\<close>

definition ota_flash_read_metadata :: "'a flash_state_scheme \<Rightarrow> bool \<times> ota_boot_metadata" where
  "ota_flash_read_metadata st =
     (let metadata = metadata_of_bytes (mem_read (fmem st) NV_METADATA_PAGE_ADDRESS sizeof_metadata)
      in (ota_metadata_crc_is_valid metadata, metadata))"

definition ota_flash_write_metadata ::
    "flash_driver \<Rightarrow> ota_boot_metadata \<Rightarrow> 'a flash_state_scheme \<Rightarrow> bool \<times> 'a flash_state_scheme" where
  "ota_flash_write_metadata drv metadata st =
     (case ota_flash_read_metadata st of (ok, current_flash_meta) \<Rightarrow>
        if ok \<and> metadata_bytes metadata = metadata_bytes current_flash_meta then (True, st)
        else case erase_flash_sector drv NV_METADATA_PAGE_ADDRESS st of
          (False, st') \<Rightarrow> (False, st')
        | (True, st') \<Rightarrow> program_flash drv NV_METADATA_PAGE_ADDRESS (metadata_bytes metadata) st')"

definition ota_flash_invalidate_image_header ::
    "flash_driver \<Rightarrow> u32 \<Rightarrow> 'a flash_state_scheme \<Rightarrow> bool \<times> 'a flash_state_scheme" where
  "ota_flash_invalidate_image_header drv header_physical_address st =
     program_flash drv (header_physical_address + 13) [0xFC] st"

text \<open>The address of \<open>ota_image_header\<close> is fixed by the linker script; it is an argument.\<close>

definition ota_flash_current_slot :: "u32 \<Rightarrow> u8" where
  "ota_flash_current_slot header_addr =
     (if header_addr < OTA_SLOT_B_START then OTA_SLOT_A else OTA_SLOT_B)"

definition ota_flash_slot_start :: "u8 \<Rightarrow> u32" where
  "ota_flash_slot_start slot = (if slot = OTA_SLOT_A then OTA_SLOT_A_START else OTA_SLOT_B_START)"

definition ota_flash_slot_size :: "u8 \<Rightarrow> u32" where
  "ota_flash_slot_size slot = (if slot = OTA_SLOT_A then OTA_SLOT_A_SIZE else OTA_SLOT_B_SIZE)"

definition ota_flash_reset_erase_tracking :: "'a flash_state_scheme \<Rightarrow> 'a flash_state_scheme" where
  "ota_flash_reset_erase_tracking st = st\<lparr>erased_sector_addr := 0xFFFFFFFF\<rparr>"

definition ota_flash_target_bounds_ok :: "u8 \<Rightarrow> u32 \<Rightarrow> u32 \<Rightarrow> bool" where
  "ota_flash_target_bounds_ok slot offset len =
     (if slot > OTA_SLOT_B \<or> offset > 0xFFFFFFFF - len then False
      else offset + len \<le> ota_flash_slot_size slot)"

definition ota_flash_erase_target_sector ::
    "flash_driver \<Rightarrow> u8 \<Rightarrow> u32 \<Rightarrow> 'a flash_state_scheme \<Rightarrow> bool \<times> 'a flash_state_scheme" where
  "ota_flash_erase_target_sector drv slot sector_offset st =
     (if sector_offset mod OTA_FLASH_ERASE_SECTOR_SIZE \<noteq> 0 \<or>
         \<not> ota_flash_target_bounds_ok slot sector_offset OTA_FLASH_ERASE_SECTOR_SIZE
      then (False, st)
      else let abs_addr = ota_flash_slot_start slot + sector_offset in
        if abs_addr = erased_sector_addr st then (True, st)
        else case erase_flash_sector drv abs_addr st of
          (False, st') \<Rightarrow> (False, st')
        | (True, st') \<Rightarrow> (True, st'\<lparr>erased_sector_addr := abs_addr\<rparr>))"

text \<open>\<open>data\<close> are the \<open>len\<close> bytes at the data pointer; they are copied into the 68-byte
  \<open>words\<close> buffer, which was filled with \<open>0xFF\<close>.\<close>

definition ota_flash_write_target ::
    "flash_driver \<Rightarrow> u8 \<Rightarrow> u32 \<Rightarrow> u8 list \<Rightarrow> u16 \<Rightarrow> 'a flash_state_scheme
      \<Rightarrow> bool \<times> 'a flash_state_scheme" where
  "ota_flash_write_target drv slot offset data len st =
     (if len = 0 then (True, st)
      else if offset AND 3 \<noteq> 0 \<or> len > 64 \<or> \<not> ota_flash_target_bounds_ok slot offset (ucast len)
      then (False, st)
      else
        let padded_len = (len + 3) AND NOT 3;
            words = take (unat len) data @ replicate (68 - unat len) 0xFF
        in program_flash drv (ota_flash_slot_start slot + offset) (take (unat padded_len) words) st)"

definition ota_flash_read_target ::
    "u8 \<Rightarrow> u32 \<Rightarrow> u16 \<Rightarrow> 'a flash_state_scheme \<Rightarrow> u8 list option" where
  "ota_flash_read_target slot offset len st =
     (if \<not> ota_flash_target_bounds_ok slot offset (ucast len) then None
      else Some (mem_read (fmem st) (ota_flash_slot_start slot + offset) (unat len)))"

section \<open>Regions and bounds\<close>

lemma nor_driver_ok: "flash_driver_ok nor_driver"
  by (simp add: flash_driver_ok_def nor_driver_def mem_program_def mem_erase_def)

lemma target_bounds_iff:
  "ota_flash_target_bounds_ok slot offset len \<longleftrightarrow>
     unat slot \<le> 1 \<and> unat offset + unat len \<le> unat (ota_flash_slot_size slot)"
proof -
  have size: "unat (ota_flash_slot_size slot) < 2 ^ 32 - 1"
    by (simp add: ota_flash_slot_size_def layout_defs)
  have over: "offset > 0xFFFFFFFF - len \<longleftrightarrow> 2 ^ 32 \<le> unat offset + unat len"
    using unat_u32_less [of offset] unat_u32_less [of len]
    by (simp add: word_less_nat_alt unat_sub_if_size word_size) linarith
  have sum: "unat (offset + len) = unat offset + unat len" if "unat offset + unat len < 2 ^ 32"
    using that by (rule unat_plus_u32)
  show ?thesis
    using size over sum
    by (auto simp: ota_flash_target_bounds_ok_def word_nat OTA_SLOT_B_def)
qed

text \<open>C34. The bounds check is exact: it accepts a range if and only if the slot exists and the range
  lies inside it as mathematical integers, so no offset and length can slip through by
  wrapping around 32 bits.\<close>

theorem target_bounds_exact:
  "ota_flash_target_bounds_ok slot offset len \<longleftrightarrow>
     unat slot \<le> 1 \<and> unat offset + unat len \<le> unat (ota_flash_slot_size slot)"
  by (rule target_bounds_iff)

lemma slot_end: "unat (ota_flash_slot_start slot) + unat (ota_flash_slot_size slot) \<le> 0x56000"
  by (simp add: ota_flash_slot_start_def ota_flash_slot_size_def layout_defs)

lemma target_addr:
  assumes "unat offset + n \<le> unat (ota_flash_slot_size slot)"
  shows "unat (ota_flash_slot_start slot + offset) = unat (ota_flash_slot_start slot) + unat offset"
  using assms slot_end [of slot] by (intro unat_plus_u32) simp

text \<open>The addresses of a slot, and of a range of offsets in it.\<close>

definition slot_region :: "u8 \<Rightarrow> u32 \<Rightarrow> bool" where
  "slot_region slot x \<longleftrightarrow> in_region (ota_flash_slot_start slot) (unat (ota_flash_slot_size slot)) x"

lemma target_in_slot:
  assumes "unat offset + n \<le> unat (ota_flash_slot_size slot)"
    and "in_region (ota_flash_slot_start slot + offset) n x"
  shows "slot_region slot x"
proof -
  have *: "unat (ota_flash_slot_start slot + offset) + n \<le> 2 ^ 32"
    "unat (ota_flash_slot_start slot) + unat (ota_flash_slot_size slot) \<le> 2 ^ 32"
    using assms(1) slot_end [of slot] by (simp_all add: target_addr [OF assms(1)])
  show ?thesis
    using assms target_addr [OF assms(1)]
    by (auto simp: slot_region_def in_region_nat [OF *(1)] in_region_nat [OF *(2)])
qed

lemma slot_regions_disjoint:
  "slot_region OTA_SLOT_A x \<Longrightarrow> slot_region OTA_SLOT_B x \<Longrightarrow> False"
  "slot_region slot x \<Longrightarrow> in_region NV_METADATA_PAGE_ADDRESS (unat OTA_FLASH_ERASE_SECTOR_SIZE) x \<Longrightarrow> False"
  by (simp_all add: slot_region_def in_region_nat ota_flash_slot_start_def ota_flash_slot_size_def
      layout_defs slot_defs split: if_splits)

section \<open>The driver calls\<close>

lemma driver_program:
  assumes "flash_driver_ok drv" and "FlashProgram drv bs a m = (status, m')"
  shows "\<not> in_region a (length bs) x \<Longrightarrow> m' x = m x"
    and "status = FAPI_STATUS_SUCCESS drv \<Longrightarrow> m' = mem_program a bs m"
  using assms(1) [unfolded flash_driver_ok_def, THEN conjunct1, rule_format, OF assms(2)] by simp_all

lemma driver_erase:
  assumes "flash_driver_ok drv" and "FlashSectorErase drv a m = (status, m')"
  shows "\<not> in_region a (unat OTA_FLASH_ERASE_SECTOR_SIZE) x \<Longrightarrow> m' x = m x"
    and "status = FAPI_STATUS_SUCCESS drv \<Longrightarrow> m' = mem_erase a (unat OTA_FLASH_ERASE_SECTOR_SIZE) m"
  using assms(1) [unfolded flash_driver_ok_def, THEN conjunct2, rule_format, OF assms(2)] by simp_all

lemma program_flash_frame:
  assumes "flash_driver_ok drv" and "program_flash drv a bs st = (r, st')"
  shows "st' = st\<lparr>fmem := fmem st'\<rparr>"
    and "\<not> in_region a (length bs) x \<Longrightarrow> fmem st' x = fmem st x"
    and "r \<Longrightarrow> fmem st' = mem_program a bs (fmem st)"
  using assms driver_program [OF assms(1), of bs a "fmem st"]
  by (auto simp: program_flash_def split: prod.splits)

lemma erase_flash_sector_frame:
  assumes "flash_driver_ok drv" and "erase_flash_sector drv a st = (r, st')"
  shows "st' = st\<lparr>fmem := fmem st'\<rparr>"
    and "\<not> in_region a (unat OTA_FLASH_ERASE_SECTOR_SIZE) x \<Longrightarrow> fmem st' x = fmem st x"
    and "r \<Longrightarrow> fmem st' = mem_erase a (unat OTA_FLASH_ERASE_SECTOR_SIZE) (fmem st)"
  using assms driver_erase [OF assms(1), of a "fmem st"]
  by (auto simp: erase_flash_sector_def split: prod.splits)

lemma mem_program_erased [mem_simps]:
  "in_region a (length bs) x \<Longrightarrow> m x = 0xFF \<Longrightarrow> mem_program a bs m x = bs ! unat (x - a)"
  by (simp add: mem_program_def)

section \<open>Slot operations\<close>

lemma erase_target_cases:
  assumes "flash_driver_ok drv"
    and "ota_flash_erase_target_sector drv slot so st = (r, st')"
  obtains (rejected) "\<not> r" "st' = st"
  | (tracked) "r" "st' = st" "ota_flash_slot_start slot + so = erased_sector_addr st"
      "unat slot \<le> 1" "unat so + unat OTA_FLASH_ERASE_SECTOR_SIZE \<le> unat (ota_flash_slot_size slot)"
  | (failed) "\<not> r" "st' = st\<lparr>fmem := fmem st'\<rparr>"
      "unat slot \<le> 1" "unat so + unat OTA_FLASH_ERASE_SECTOR_SIZE \<le> unat (ota_flash_slot_size slot)"
      "\<And>x. \<not> in_region (ota_flash_slot_start slot + so) (unat OTA_FLASH_ERASE_SECTOR_SIZE) x
            \<Longrightarrow> fmem st' x = fmem st x"
  | (erased) "r" "ota_flash_slot_start slot + so \<noteq> erased_sector_addr st"
      "unat slot \<le> 1" "unat so + unat OTA_FLASH_ERASE_SECTOR_SIZE \<le> unat (ota_flash_slot_size slot)"
      "st' = st\<lparr>fmem := mem_erase (ota_flash_slot_start slot + so)
                  (unat OTA_FLASH_ERASE_SECTOR_SIZE) (fmem st),
                erased_sector_addr := ota_flash_slot_start slot + so\<rparr>"
proof -
  let ?a = "ota_flash_slot_start slot + so"
  obtain ok st1 where e: "erase_flash_sector drv ?a st = (ok, st1)" by (cases "erase_flash_sector drv ?a st")
  note frame = erase_flash_sector_frame [OF assms(1) e]
  show ?thesis
  proof (cases "so mod OTA_FLASH_ERASE_SECTOR_SIZE \<noteq> 0 \<or>
      \<not> ota_flash_target_bounds_ok slot so OTA_FLASH_ERASE_SECTOR_SIZE")
    case True
    with assms(2) show ?thesis by (intro rejected) (auto simp: ota_flash_erase_target_sector_def)
  next
    case False
    then have b: "unat slot \<le> 1"
      "unat so + unat OTA_FLASH_ERASE_SECTOR_SIZE \<le> unat (ota_flash_slot_size slot)"
      by (simp_all add: target_bounds_iff)
    show ?thesis
    proof (cases "?a = erased_sector_addr st")
      case True
      with False b assms(2) show ?thesis
        by (intro tracked) (auto simp: ota_flash_erase_target_sector_def Let_def)
    next
      case ne: False
      show ?thesis
      proof (cases ok)
        case True
        with frame(3) have m: "fmem st1 = mem_erase ?a (unat OTA_FLASH_ERASE_SECTOR_SIZE) (fmem st)" by simp
        have st1: "st1 = st\<lparr>fmem := mem_erase ?a (unat OTA_FLASH_ERASE_SECTOR_SIZE) (fmem st)\<rparr>"
          by (subst frame(1)) (simp only: m)
        from True False ne assms(2) e have "r" "st' = st1\<lparr>erased_sector_addr := ?a\<rparr>"
          by (auto simp: ota_flash_erase_target_sector_def Let_def)
        with st1 ne b show ?thesis by (intro erased) simp_all
      next
        case not_ok: False
        with False ne assms(2) e have "\<not> r" "st' = st1"
          by (auto simp: ota_flash_erase_target_sector_def Let_def)
        with frame b show ?thesis by (intro failed) simp_all
      qed
    qed
  qed
qed

text \<open>Rounding the length up to whole words.\<close>

lemma unat_and_not_3: "unat (w AND NOT 3 :: u16) = unat w div 4 * 4"
proof -
  have "w AND NOT (mask 2) = push_bit 2 (drop_bit 2 w)"
  proof (rule bit_word_eqI)
    fix n assume "n < LENGTH(16)"
    then show "bit (w AND NOT (mask 2)) n \<longleftrightarrow> bit (push_bit 2 (drop_bit 2 w)) n"
      by (cases "2 \<le> n") (auto simp: bit_simps dest!: le_Suc_ex)
  qed
  then have "w AND NOT 3 = push_bit 2 (drop_bit 2 w)"
    by (simp add: mask_eq_exp_minus_1)
  also have "unat \<dots> = unat w div 4 * 4"
    using unat_u16_less [of w]
    by (simp add: push_bit_eq_mult drop_bit_eq_div unat_word_ariths unat_div)
  finally show ?thesis .
qed

lemma and_3_zero: "(w :: u32) AND 3 = 0 \<longleftrightarrow> unat w mod 4 = 0"
proof -
  have "w AND mask 2 = w mod 4" by (simp add: take_bit_eq_mod flip: take_bit_eq_mask)
  then have "unat (w AND 3) = unat w mod 4" by (simp add: mask_eq_exp_minus_1 unat_mod)
  then show ?thesis by (metis unat_eq_zero)
qed

lemma mem_program_pad: "mem_program a (bs @ replicate k 0xFF) m = mem_program a bs m"
  by (auto simp: mem_program_def in_region_def nth_append)

lemma mem_program_Nil [simp]: "mem_program a [] m = m"
  by (simp add: mem_program_def in_region_def)

lemma slot_size_mod4: "unat (ota_flash_slot_size slot) mod 4 = 0"
  by (simp add: ota_flash_slot_size_def layout_defs)

lemma write_target_cases:
  assumes data: "length data = unat len"
    and w: "ota_flash_write_target drv slot offset data len st = (r, st')"
  obtains (rejected) "\<not> r" "st' = st"
  | (empty) "r" "st' = st" "data = []"
  | (programmed) k where
      "program_flash drv (ota_flash_slot_start slot + offset) (data @ replicate k 0xFF) st = (r, st')"
      "unat slot \<le> 1" "unat offset mod 4 = 0" "0 < unat len" "unat len \<le> 64" "k \<le> 3"
      "unat offset + (unat len + k) \<le> unat (ota_flash_slot_size slot)"
proof (cases "len = 0")
  case True
  with assms show ?thesis by (intro empty) (auto simp: ota_flash_write_target_def)
next
  case nz: False
  show ?thesis
  proof (cases "offset AND 3 \<noteq> 0 \<or> len > 64 \<or> \<not> ota_flash_target_bounds_ok slot offset (ucast len)")
    case True
    with nz w show ?thesis by (intro rejected) (auto simp: ota_flash_write_target_def)
  next
    case False
    define k where "k = (unat len + 3) div 4 * 4 - unat len"
    from False have len: "unat len \<le> 64" and off: "unat offset mod 4 = 0" and "unat slot \<le> 1"
      and fits: "unat offset + unat len \<le> unat (ota_flash_slot_size slot)"
      by (simp_all add: word_nat and_3_zero target_bounds_iff)
    have "unat (len + 3) = unat len + 3" using len by (simp add: unat_word_ariths)
    then have pad: "unat ((len + 3) AND NOT 3) = unat len + k"
      unfolding unat_and_not_3 by (simp add: k_def)
    have "k \<le> 3" "(unat len + k) mod 4 = 0" by (simp_all add: k_def)
    with len have "take (unat len + k) (take (unat len) data @ replicate (68 - unat len) 0xFF) =
        data @ replicate k 0xFF"
      using data by (simp add: min_def)
    with nz False w have prog:
      "program_flash drv (ota_flash_slot_start slot + offset) (data @ replicate k 0xFF) st = (r, st')"
      by (simp add: ota_flash_write_target_def Let_def pad [simplified])
    have "unat offset + (unat len + k) \<le> unat (ota_flash_slot_size slot)"
      using fits off slot_size_mod4 [of slot] \<open>k \<le> 3\<close> \<open>(unat len + k) mod 4 = 0\<close> by presburger
    moreover have "0 < unat len" using nz by (simp add: unat_gt_0)
    ultimately show ?thesis using prog \<open>unat slot \<le> 1\<close> \<open>k \<le> 3\<close> off len by (intro programmed) simp_all
  qed
qed

lemma write_target_frame:
  assumes drv: "flash_driver_ok drv" and data: "length data = unat len"
    and w: "ota_flash_write_target drv slot offset data len st = (r, st')"
  shows "st' = st\<lparr>fmem := fmem st'\<rparr>"
    and "\<not> slot_region slot x \<Longrightarrow> fmem st' x = fmem st x"
    and "r \<Longrightarrow> fmem st' = mem_program (ota_flash_slot_start slot + offset) data (fmem st)"
  using data w
proof (atomize (full), cases rule: write_target_cases)
  case (programmed k)
  note frame = program_flash_frame [OF drv programmed(1)]
  have "in_region (ota_flash_slot_start slot + offset) (length (data @ replicate k 0xFF)) x
      \<Longrightarrow> slot_region slot x"
    using programmed(7) by (intro target_in_slot) (simp_all add: data)
  with frame show "st' = st\<lparr>fmem := fmem st'\<rparr> \<and> (\<not> slot_region slot x \<longrightarrow> fmem st' x = fmem st x) \<and>
      (r \<longrightarrow> fmem st' = mem_program (ota_flash_slot_start slot + offset) data (fmem st))"
    by (auto simp: mem_program_pad)
qed auto

lemma erase_target_frame:
  assumes drv: "flash_driver_ok drv"
    and e: "ota_flash_erase_target_sector drv slot so st = (r, st')"
  shows "st' = st\<lparr>fmem := fmem st', erased_sector_addr := erased_sector_addr st'\<rparr>"
    and "\<not> slot_region slot x \<Longrightarrow> fmem st' x = fmem st x"
proof -
  show "st' = st\<lparr>fmem := fmem st', erased_sector_addr := erased_sector_addr st'\<rparr>"
    using drv e
  proof (cases rule: erase_target_cases)
    case failed
    then show ?thesis by (metis flash_state.surjective flash_state.select_convs flash_state.update_convs)
  qed simp_all
  show "\<not> slot_region slot x \<Longrightarrow> fmem st' x = fmem st x"
    using drv e
  proof (cases rule: erase_target_cases)
    case failed
    assume "\<not> slot_region slot x"
    with target_in_slot [OF failed(4), of x] failed(5) [of x] show ?thesis by auto
  next
    case erased
    assume "\<not> slot_region slot x"
    with target_in_slot [OF erased(4), of x] erased(5) show ?thesis by (auto simp: mem_erase_def)
  qed simp_all
qed

text \<open>C35. Writing and erasing stay inside the target slot: whatever the driver reports, success or
  failure, \<open>ota_flash_write_target\<close> and \<open>ota_flash_erase_target_sector\<close> leave every byte outside
  the addressed slot unchanged. In particular the other slot, where the running image may be, and
  the metadata page keep their contents.\<close>

theorem flash_target_ops_confined:
  assumes drv: "flash_driver_ok drv" and data: "length data = unat len" and x: "\<not> slot_region slot x"
  shows "fmem (snd (ota_flash_write_target drv slot offset data len st)) x = fmem st x \<and>
    fmem (snd (ota_flash_erase_target_sector drv slot so st)) x = fmem st x"
proof
  obtain r st' where "ota_flash_write_target drv slot offset data len st = (r, st')"
    by (cases "ota_flash_write_target drv slot offset data len st")
  with write_target_frame(2) [OF drv data this x]
  show "fmem (snd (ota_flash_write_target drv slot offset data len st)) x = fmem st x" by simp
next
  obtain r st' where "ota_flash_erase_target_sector drv slot so st = (r, st')"
    by (cases "ota_flash_erase_target_sector drv slot so st")
  with erase_target_frame(2) [OF drv this x]
  show "fmem (snd (ota_flash_erase_target_sector drv slot so st)) x = fmem st x" by simp
qed

theorem flash_target_ops_confined_witness:
  "let st = \<lparr>fmem = (\<lambda>_. 0x55), erased_sector_addr = 0xFFFFFFFF\<rparr>;
       st' = snd (ota_flash_erase_target_sector nor_driver OTA_SLOT_B 0 st)
   in fmem st' 0x2DFFF = 0x55 \<and> fmem st' 0x2E000 = 0xFF"
proof -
  have x: "\<not> slot_region OTA_SLOT_B 0x2DFFF"
    by (simp add: slot_region_def in_region_def ota_flash_slot_start_def ota_flash_slot_size_def
        slot_defs layout_defs unsigned_minus_1_eq_mask mask_eq_exp_minus_1)
  show ?thesis
    using flash_target_ops_confined [OF nor_driver_ok _ x, of "[]" 0 0 "\<lparr>fmem = (\<lambda>_. 0x55), erased_sector_addr = 0xFFFFFFFF\<rparr>" 0]
    by (simp add: Let_def ota_flash_erase_target_sector_def erase_flash_sector_def nor_driver_def
        target_bounds_iff ota_flash_slot_start_def ota_flash_slot_size_def slot_defs layout_defs
        mem_erase_def in_region_def unsigned_minus_1_eq_mask mask_eq_exp_minus_1)
qed

section \<open>Reading back\<close>

lemma mem_read_program_erased [mem_simps]:
  assumes "length bs = n" and "n \<le> 2 ^ 32" and "\<And>i. i < n \<Longrightarrow> m (a + of_nat i) = 0xFF"
  shows "mem_read (mem_program a bs m) a n = bs"
proof (rule nth_equalityI)
  fix i assume "i < length (mem_read (mem_program a bs m) a n)"
  then have "i < n" by simp
  moreover from this assms(2) have "unat (of_nat i :: u32) = i"
    by (intro unat_of_nat_u32) simp
  ultimately show "mem_read (mem_program a bs m) a n ! i = bs ! i"
    using assms by (simp add: mem_program_def in_region_def)
qed (simp add: assms)

lemma write_metadata_cases:
  assumes "flash_driver_ok drv" and "ota_flash_write_metadata drv metadata st = (r, st')"
  obtains (same) "r" "st' = st" "ota_flash_read_metadata st = (True, metadata)"
  | (failed) "\<not> r" "st' = st\<lparr>fmem := fmem st'\<rparr>"
      "\<And>x. \<not> in_region NV_METADATA_PAGE_ADDRESS (unat OTA_FLASH_ERASE_SECTOR_SIZE) x \<Longrightarrow> fmem st' x = fmem st x"
  | (written) "r" "st' = st\<lparr>fmem := mem_program NV_METADATA_PAGE_ADDRESS (metadata_bytes metadata)
        (mem_erase NV_METADATA_PAGE_ADDRESS (unat OTA_FLASH_ERASE_SECTOR_SIZE) (fmem st))\<rparr>"
proof -
  obtain ok cur where rd: "ota_flash_read_metadata st = (ok, cur)" by (cases "ota_flash_read_metadata st")
  show ?thesis
  proof (cases "ok \<and> metadata = cur")
    case True
    with assms(2) rd show ?thesis by (intro same) (auto simp: ota_flash_write_metadata_def)
  next
    case False
    obtain ok1 st1 where e: "erase_flash_sector drv NV_METADATA_PAGE_ADDRESS st = (ok1, st1)"
      by (cases "erase_flash_sector drv NV_METADATA_PAGE_ADDRESS st")
    note ef = erase_flash_sector_frame [OF assms(1) e]
    show ?thesis
    proof (cases ok1)
      case no: False
      with False assms(2) rd e have "\<not> r" "st' = st1" by (auto simp: ota_flash_write_metadata_def)
      with ef show ?thesis by (intro failed) simp_all
    next
      case yes: True
      with False assms(2) rd e
      have p: "program_flash drv NV_METADATA_PAGE_ADDRESS (metadata_bytes metadata) st1 = (r, st')"
        by (auto simp: ota_flash_write_metadata_def)
      note pf = program_flash_frame [OF assms(1) p]
      have st1: "st1 = st\<lparr>fmem := fmem st1\<rparr>" by (rule ef(1))
      have st': "st' = st\<lparr>fmem := fmem st'\<rparr>"
        by (subst pf(1), subst st1) simp
      show ?thesis
      proof (cases r)
        case True
        with yes ef(3) pf(3) st' show ?thesis by (intro written) simp_all
      next
        case False
        have "fmem st' x = fmem st x"
          if "\<not> in_region NV_METADATA_PAGE_ADDRESS (unat OTA_FLASH_ERASE_SECTOR_SIZE) x" for x
        proof -
          have "\<not> in_region NV_METADATA_PAGE_ADDRESS (length (metadata_bytes metadata)) x"
            using that by (auto simp: in_region_def sizeof_metadata_def layout_defs)
          with that pf(2) ef(2) show ?thesis by simp
        qed
        with False st' show ?thesis by (intro failed) simp_all
      qed
    qed
  qed
qed

lemma write_metadata_persists:
  assumes drv: "flash_driver_ok drv" and w: "ota_flash_write_metadata drv metadata st = (True, st')"
  shows "ota_flash_read_metadata st' = (ota_metadata_crc_is_valid metadata, metadata) \<and>
    (\<forall>x. \<not> in_region NV_METADATA_PAGE_ADDRESS (unat OTA_FLASH_ERASE_SECTOR_SIZE) x \<longrightarrow> fmem st' x = fmem st x)"
  using drv w
proof (cases rule: write_metadata_cases)
  case same
  then show ?thesis by (auto simp: ota_flash_read_metadata_def Let_def)
next
  case written
  let ?m = "mem_erase NV_METADATA_PAGE_ADDRESS (unat OTA_FLASH_ERASE_SECTOR_SIZE) (fmem st)"
  have "mem_read (mem_program NV_METADATA_PAGE_ADDRESS (metadata_bytes metadata) ?m)
      NV_METADATA_PAGE_ADDRESS sizeof_metadata = metadata_bytes metadata"
    by (rule mem_read_program_erased)
      (simp_all add: mem_erase_def in_region_of_nat sizeof_metadata_def layout_defs)
  then show ?thesis
    using written by (auto simp: ota_flash_read_metadata_def Let_def mem_program_def mem_erase_def
        in_region_def sizeof_metadata_def layout_defs)
qed simp

text \<open>C36. Persisting the metadata works: after a successful \<open>ota_flash_write_metadata\<close>, reading it
  back yields the very record that was written, valid exactly when its checksum is, and nothing
  outside the 8 KB metadata sector has changed.\<close>

theorem metadata_persisted:
  assumes drv: "flash_driver_ok drv" and w: "ota_flash_write_metadata drv metadata st = (True, st')"
  shows "ota_flash_read_metadata st' = (ota_metadata_crc_is_valid metadata, metadata) \<and>
    (\<forall>x. \<not> in_region NV_METADATA_PAGE_ADDRESS (unat OTA_FLASH_ERASE_SECTOR_SIZE) x \<longrightarrow> fmem st' x = fmem st x)"
  using drv w by (rule write_metadata_persists)

theorem metadata_persisted_witness:
  "let m = ota_metadata_init_factory (metadata_of_words []) 0 1 100 7;
       st = \<lparr>fmem = (\<lambda>_. 0), erased_sector_addr = 0xFFFFFFFF\<rparr>;
       st' = snd (ota_flash_write_metadata nor_driver m st)
   in ota_flash_read_metadata st' = (True, m)"
proof -
  let ?m = "ota_metadata_init_factory (metadata_of_words []) 0 1 100 7"
  let ?st = "\<lparr>fmem = (\<lambda>_. 0), erased_sector_addr = 0xFFFFFFFF\<rparr> :: flash_state"
  let ?w = "ota_flash_write_metadata nor_driver ?m ?st"
  have "fst ?w"
    by (simp add: ota_flash_write_metadata_def erase_flash_sector_def program_flash_def nor_driver_def
        split: prod.splits bool.splits)
  then have "?w = (True, snd ?w)" by (simp add: prod_eq_iff)
  from metadata_persisted [OF nor_driver_ok this] show ?thesis by (simp add: Let_def)
qed

end
