(* ===== verification/Oad_Image.thy ===== *)
theory Oad_Image
  imports Flash
begin

text \<open>
  The OAD image header: \<open>oad_image_header_app.c/.h\<close>. The header type \<open>imgHdr_t\<close>, its layout in
  memory and the constants of its fields come from the vendor's SDK, which is not part of the
  repository. The record \<open>imgHdr\<close> has the fields the repository names; the code only compares,
  copies and narrows them, so scalar fields are kept at 32 bits and every narrowing of the code
  is written out. Layout and constants are the fields of an \<open>oad_sdk\<close> argument, on which no
  theorem of the development assumes anything beyond what it states.
\<close>

record imgFixedHdr =
  imgID :: "u8 list"
  crc32 :: u32
  bimVer :: u32
  metaVer :: u32
  techType :: u32
  imgCpStat :: u32
  crcStat :: u32
  imgType :: u32
  imgNo :: u32
  imgVld :: u32
  hdr_len :: u32
  prgEntry :: u32
  softVer :: "u8 list"
  imgEndAddr :: u32
  hdrLen :: u32

record imgPayloadSeg =
  segTypeImg :: u32
  wirelessTech :: u32
  startAddr :: u32

record imgHdr =
  fixedHdr :: imgFixedHdr
  secVer :: u32
  imgPayload :: imgPayloadSeg

text \<open>The metadata record \<open>ExtImageInfo_t\<close> the offchip boot manager reads.\<close>

record ExtImageInfo =
  ext_fixedHdr :: imgFixedHdr
  extFlAddr :: u32
  counter :: u32

record oad_sdk =
  sizeof_imgHdr :: nat
  imgHdr_of_bytes :: "u8 list \<Rightarrow> imgHdr"
  bytes_of_ExtImageInfo :: "ExtImageInfo \<Rightarrow> u8 list"
  ExtImageInfo_of_bytes :: "u8 list \<Rightarrow> ExtImageInfo"
  sizeof_ExtImageInfo :: nat
  OAD_IMG_ID_VAL :: "u8 list"
  OAD_EXTFL_ID_VAL :: "u8 list"
  OAD_WIRELESS_TECH_TIMAC_2_4G :: u32
  OAD_IMG_TYPE_APPSTACKLIB :: u32
  BIM_VER :: u32
  META_VER :: u32
  CRC_INVALID :: u32
  CRC_VALID :: u32
  NEED_COPY :: u32
  DEFAULT_CRC :: u32
  DEFAULT_STATE :: u32
  INVALID_LEN :: u32
  IMG_PAYLOAD_SEG_ID :: u32
  RSTSRC_PWR_ON :: u32
  RSTSRC_PIN_RESET :: u32
  RSTSRC_WAKEUP_FROM_SHUTDOWN :: u32

text \<open>\<open>{'C', 'C', '1', '3', 'x', '2', 'R', '1'}\<close>\<close>

definition oad_id :: "u8 list" where
  "oad_id = [0x43, 0x43, 0x31, 0x33, 0x78, 0x32, 0x52, 0x31]"

definition oad_image_header_read :: "oad_sdk \<Rightarrow> mem \<Rightarrow> u32 \<Rightarrow> bool \<times> imgHdr" where
  "oad_image_header_read sdk m flash_address =
     (let header = imgHdr_of_bytes sdk (mem_read m flash_address (sizeof_imgHdr sdk))
      in (imgID (fixedHdr header) = oad_id, header))"

text \<open>
  The header every image is linked with. \<open>oad_build\<close> holds the build settings
  (\<open>OAD_IMG_TYPE\<close>, \<open>APP_SEC_VER\<close>, \<open>APP_IMG_NO\<close>, the version numbers and
  \<open>OTA_WITH_BIM_DUAL_ONCHIP\<close>) and the addresses the linker resolves. The image tool fills in
  \<open>len\<close>, \<open>crc32\<close> and \<open>imgVld\<close> after linking.
\<close>

record oad_build =
  OAD_IMG_TYPE :: u32
  APP_SEC_VER :: u32
  APP_IMG_NO :: u32
  APP_V_MAJOR :: u8
  APP_V_MINOR :: u8
  APP_V_PATCH :: u8
  APP_V_BUILD :: u8
  OTA_WITH_BIM_DUAL_ONCHIP :: bool
  addr_vectors :: u32
  addr_flash_end :: u32
  addr_header :: u32

definition OAD_APP_START_ADDR :: u32 where "OAD_APP_START_ADDR = 0"

definition linked_image_header :: "oad_sdk \<Rightarrow> oad_build \<Rightarrow> imgHdr" where
  "linked_image_header sdk b =
     \<lparr>fixedHdr =
        \<lparr>imgID = OAD_IMG_ID_VAL sdk, crc32 = DEFAULT_CRC sdk, bimVer = BIM_VER sdk,
         metaVer = META_VER sdk, techType = OAD_WIRELESS_TECH_TIMAC_2_4G sdk,
         imgCpStat = DEFAULT_STATE sdk, crcStat = DEFAULT_STATE sdk, imgType = OAD_IMG_TYPE b,
         imgNo = APP_IMG_NO b, imgVld = 0xFFFFFFFF, hdr_len = INVALID_LEN sdk,
         prgEntry = addr_vectors b,
         softVer = [APP_V_BUILD b, APP_V_PATCH b, APP_V_MINOR b, APP_V_MAJOR b],
         imgEndAddr = addr_flash_end b - 1,
         hdrLen = of_nat (sizeof_imgHdr sdk)\<rparr>,
      secVer = APP_SEC_VER b,
      imgPayload =
        \<lparr>segTypeImg = IMG_PAYLOAD_SEG_ID sdk,
         wirelessTech = OAD_WIRELESS_TECH_TIMAC_2_4G sdk,
         startAddr = (if OTA_WITH_BIM_DUAL_ONCHIP b then addr_header b else OAD_APP_START_ADDR)\<rparr>\<rparr>"

end
