(* ===== verification/Backend.thy ===== *)
theory Backend
  imports Oad_Image
begin

text \<open>
  The sensor backend interface, \<open>ota-sensor-backend.h\<close>: the functions through which the common
  sensor-node flow reaches the storage of its build. A backend is a record of operations over a
  backend state; \<open>dual_backend\<close> and \<open>offchip_backend\<close> are its two values. The global
  \<open>current_file_size\<close>, which some backends read, is an argument of those operations, and an
  output parameter is part of the result.

  The locale \<open>sensor_backend_laws\<close> is the contract the flow relies on: how the image area seen
  through \<open>contents\<close> changes when a write or an erase reports success, what stays when it does
  not, and that reading shows the contents. \<open>tracked\<close> says that the backend considers a sector
  already erased, in which case erasing it is a no-op.
\<close>

definition PAGE_SIZE :: nat where "PAGE_SIZE = 4096"

definition OTA_START_STATUS_ACCEPTED :: u8 where "OTA_START_STATUS_ACCEPTED = 0"
definition OTA_START_STATUS_REJECTED_VERSION :: u8 where "OTA_START_STATUS_REJECTED_VERSION = 1"
definition OTA_START_STATUS_REJECTED_TARGET :: u8 where "OTA_START_STATUS_REJECTED_TARGET = 2"
definition OTA_START_STATUS_REJECTED_SAME_SLOT :: u8 where "OTA_START_STATUS_REJECTED_SAME_SLOT = 3"
definition OTA_START_SEC_VER_UNKNOWN :: u16 where "OTA_START_SEC_VER_UNKNOWN = 0"
definition OTA_TARGET_OFFCHIP :: u8 where "OTA_TARGET_OFFCHIP = 0x80"

lemmas start_status_defs =
  OTA_START_STATUS_ACCEPTED_def OTA_START_STATUS_REJECTED_VERSION_def
  OTA_START_STATUS_REJECTED_TARGET_def OTA_START_STATUS_REJECTED_SAME_SLOT_def

record 's sensor_backend =
  be_running_sec_ver :: u16
  be_erase_sector_size :: u32
  be_start :: "u8 \<Rightarrow> u32 \<Rightarrow> u16 \<Rightarrow> u8 \<Rightarrow> 's \<Rightarrow> (bool \<times> u8) \<times> 's"
  be_bounds_ok :: "u32 \<Rightarrow> u8 \<Rightarrow> u32 \<Rightarrow> u16 \<Rightarrow> bool"
  be_erase_sector :: "u8 \<Rightarrow> u32 \<Rightarrow> 's \<Rightarrow> bool \<times> 's"
  be_write :: "u8 \<Rightarrow> u32 \<Rightarrow> u8 list \<Rightarrow> u16 \<Rightarrow> 's \<Rightarrow> bool \<times> 's"
  be_read :: "u8 \<Rightarrow> u32 \<Rightarrow> u16 \<Rightarrow> 's \<Rightarrow> u8 list option \<times> 's"
  be_stage :: "u32 \<Rightarrow> u8 \<Rightarrow> 's \<Rightarrow> bool \<times> 's"

definition sector_aligned :: "'s sensor_backend \<Rightarrow> u32 \<Rightarrow> bool" where
  "sector_aligned B so \<longleftrightarrow> unat so mod unat (be_erase_sector_size B) = 0"

locale sensor_backend_laws =
  fixes B :: "'s sensor_backend"
    and contents :: "'s \<Rightarrow> u8 \<Rightarrow> mem"
    and tracked :: "'s \<Rightarrow> u8 \<Rightarrow> u32 \<Rightarrow> bool"
  assumes write_ok:
      "\<lbrakk>be_write B t off data len s = (True, s'); length data = unat len\<rbrakk>
        \<Longrightarrow> contents s' t = mem_program off data (contents s t)"
    and write_frame:
      "\<lbrakk>be_write B t off data len s = (r, s'); length data = unat len; \<not> in_region off (unat len + 3) x\<rbrakk>
        \<Longrightarrow> contents s' t x = contents s t x"
    and write_tracked:
      "\<lbrakk>be_write B t off data len s = (r, s'); length data = unat len\<rbrakk> \<Longrightarrow> tracked s' t = tracked s t"
    and erase_tracked:
      "\<lbrakk>be_erase_sector B t so s = (True, s'); tracked s t so\<rbrakk> \<Longrightarrow> s' = s"
    and erase_untracked:
      "\<lbrakk>be_erase_sector B t so s = (True, s'); \<not> tracked s t so; sector_aligned B so\<rbrakk>
        \<Longrightarrow> contents s' t = mem_erase so (unat (be_erase_sector_size B)) (contents s t)"
    and erase_frame:
      "\<lbrakk>be_erase_sector B t so s = (r, s'); sector_aligned B so;
         \<not> in_region so (unat (be_erase_sector_size B)) x\<rbrakk>
        \<Longrightarrow> contents s' t x = contents s t x"
    and erase_tracks:
      "\<lbrakk>be_erase_sector B t so s = (True, s'); PAGE_SIZE < unat (be_erase_sector_size B)\<rbrakk>
        \<Longrightarrow> tracked s' t so"
    and tracked_unique: "\<lbrakk>tracked s t so; tracked s t so'\<rbrakk> \<Longrightarrow> so = so'"
    and small_untracked: "unat (be_erase_sector_size B) \<le> PAGE_SIZE \<Longrightarrow> \<not> tracked s t so"
    and sector_size: "be_erase_sector_size B = 0x1000 \<or> be_erase_sector_size B = 0x2000"
    and start_erases:
      "be_start B t fsz sec rej s = ((True, q), s')
        \<Longrightarrow> contents s' t = mem_erase 0 (unat (be_erase_sector_size B)) (contents s t)"
    and start_tracks:
      "\<lbrakk>be_start B t fsz sec rej s = ((True, q), s'); PAGE_SIZE < unat (be_erase_sector_size B)\<rbrakk>
        \<Longrightarrow> tracked s' t 0"
    and start_bounds:
      "\<lbrakk>be_start B t fsz sec rej s = ((True, q), s'); 0 < unat len; unat off + unat len \<le> unat fsz\<rbrakk>
        \<Longrightarrow> be_bounds_ok B fsz t off len"
    and read_ok:
      "be_read B t off len s = (Some bs, s') \<Longrightarrow> bs = mem_read (contents s t) off (unat len)"
    and read_frame:
      "be_read B t off len s = (rd, s') \<Longrightarrow> contents s' = contents s \<and> tracked s' = tracked s"

text \<open>A backend on storage without faults: operations inside the bounds succeed.\<close>

locale reliable_backend = sensor_backend_laws +
  assumes write_succeeds:
      "\<lbrakk>be_bounds_ok B fsz t off len; unat off mod 64 = 0; unat len \<le> 64; length data = unat len\<rbrakk>
        \<Longrightarrow> fst (be_write B t off data len s)"
    and erase_succeeds:
      "\<lbrakk>be_bounds_ok B fsz t off len; 0 < unat len; sector_aligned B so; unat so \<le> unat off\<rbrakk>
        \<Longrightarrow> fst (be_erase_sector B t so s)"
    and read_succeeds:
      "be_bounds_ok B fsz t off len \<Longrightarrow> fst (be_read B t off len s) \<noteq> None"

end
