(* ===== verification/Wire.thy ===== *)
theory Wire
  imports Prelude
begin

text \<open>
  The wire protocol of \<open>ota.h\<close>: packet types, status codes and the four packed structs, each as a
  record with the bytes of its C layout and the fields the code reads through a cast pointer. A
  received datagram is the memory at the data pointer, an \<open>rx_buf\<close>, together with the datagram
  length: the code casts the pointer to a struct, so it can read beyond the datagram, and the
  model lets it.
\<close>

type_synonym rx_buf = "nat \<Rightarrow> u8"

definition buf_bytes :: "rx_buf \<Rightarrow> nat \<Rightarrow> nat \<Rightarrow> u8 list" where
  "buf_bytes b i n = map (\<lambda>k. b (i + k)) [0..<n]"

section \<open>Constants\<close>

definition PKT_TYPE_START :: u8 where "PKT_TYPE_START = 0"
definition PKT_TYPE_DATA :: u8 where "PKT_TYPE_DATA = 1"
definition PKT_TYPE_VERIFY :: u8 where "PKT_TYPE_VERIFY = 2"
definition PKT_TYPE_BITMAP_REPORT :: u8 where "PKT_TYPE_BITMAP_REPORT = 3"
definition PKT_TYPE_PAGE_END :: u8 where "PKT_TYPE_PAGE_END = 4"
definition PKT_TYPE_START_REPORT :: u8 where "PKT_TYPE_START_REPORT = 5"
definition PKT_TYPE_STAGE_REPORT :: u8 where "PKT_TYPE_STAGE_REPORT = 6"

lemmas pkt_type_defs =
  PKT_TYPE_START_def PKT_TYPE_DATA_def PKT_TYPE_VERIFY_def PKT_TYPE_BITMAP_REPORT_def
  PKT_TYPE_PAGE_END_def PKT_TYPE_START_REPORT_def PKT_TYPE_STAGE_REPORT_def

definition OTA_REPORT_STATUS_OK :: u8 where "OTA_REPORT_STATUS_OK = 0"
definition OTA_STAGE_STATUS_REBOOTING_SOON :: u8 where "OTA_STAGE_STATUS_REBOOTING_SOON = 1"
definition OTA_SLOT_INVALID :: u8 where "OTA_SLOT_INVALID = 0xff"
definition OTA_TARGET_INVALID :: u8 where "OTA_TARGET_INVALID = 0xff"

section \<open>Packets\<close>

record fw_packet =
  pk_type :: u8
  pk_offset :: u32
  pk_length :: u16
  pk_target_slot :: u8
  pk_data :: rx_buf

definition FW_PACKET_HEADER_LEN :: nat where "FW_PACKET_HEADER_LEN = 8"
definition sizeof_fw_packet :: nat where "sizeof_fw_packet = 72"

definition fw_packet_at :: "rx_buf \<Rightarrow> fw_packet" where
  "fw_packet_at b =
     \<lparr>pk_type = b 0, pk_offset = of_le32 (buf_bytes b 1 4), pk_length = of_le16 (buf_bytes b 5 2),
      pk_target_slot = b 7, pk_data = (\<lambda>i. b (8 + i))\<rparr>"

definition fw_packet_bytes :: "fw_packet \<Rightarrow> u8 list" where
  "fw_packet_bytes p =
     pk_type p # le32 (pk_offset p) @ le16 (pk_length p) @ pk_target_slot p # buf_bytes (pk_data p) 0 64"

record bitmap_report =
  br_type :: u8
  br_status :: u8
  br_page_offset :: u32
  br_bitmap :: "u8 list"

definition sizeof_bitmap_report :: nat where "sizeof_bitmap_report = 14"

definition bitmap_report_at :: "rx_buf \<Rightarrow> bitmap_report" where
  "bitmap_report_at b =
     \<lparr>br_type = b 0, br_status = b 1, br_page_offset = of_le32 (buf_bytes b 2 4),
      br_bitmap = buf_bytes b 6 8\<rparr>"

definition bitmap_report_bytes :: "bitmap_report \<Rightarrow> u8 list" where
  "bitmap_report_bytes r = br_type r # br_status r # le32 (br_page_offset r) @ br_bitmap r"

record start_report =
  sr_type :: u8
  sr_status :: u8
  sr_image_sec_ver :: u16
  sr_running_sec_ver :: u16
  sr_target_slot :: u8

definition sizeof_start_report :: nat where "sizeof_start_report = 7"

definition start_report_at :: "rx_buf \<Rightarrow> start_report" where
  "start_report_at b =
     \<lparr>sr_type = b 0, sr_status = b 1, sr_image_sec_ver = of_le16 (buf_bytes b 2 2),
      sr_running_sec_ver = of_le16 (buf_bytes b 4 2), sr_target_slot = b 6\<rparr>"

definition start_report_bytes :: "start_report \<Rightarrow> u8 list" where
  "start_report_bytes r =
     sr_type r # sr_status r # le16 (sr_image_sec_ver r) @ le16 (sr_running_sec_ver r) @ [sr_target_slot r]"

record stage_report =
  st_type :: u8
  st_status :: u8
  st_target_slot :: u8
  st_image_sec_ver :: u16
  st_running_sec_ver :: u16
  st_is_leaf :: u8

definition sizeof_stage_report :: nat where "sizeof_stage_report = 8"

definition stage_report_at :: "rx_buf \<Rightarrow> stage_report" where
  "stage_report_at b =
     \<lparr>st_type = b 0, st_status = b 1, st_target_slot = b 2, st_image_sec_ver = of_le16 (buf_bytes b 3 2),
      st_running_sec_ver = of_le16 (buf_bytes b 5 2), st_is_leaf = b 7\<rparr>"

definition stage_report_bytes :: "stage_report \<Rightarrow> u8 list" where
  "stage_report_bytes r =
     st_type r # st_status r # st_target_slot r # le16 (st_image_sec_ver r) @ le16 (st_running_sec_ver r) @
       [st_is_leaf r]"

section \<open>Layout\<close>

lemma length_buf_bytes [simp]: "length (buf_bytes b i n) = n"
  by (simp add: buf_bytes_def)

lemma nth_buf_bytes [simp]: "k < n \<Longrightarrow> buf_bytes b i n ! k = b (i + k)"
  by (simp add: buf_bytes_def)

lemma buf_bytes_eq:
  "length ys = n \<Longrightarrow> i = length xs \<Longrightarrow> (\<And>k. k < n \<Longrightarrow> b (i + k) = (xs @ ys @ zs) ! (i + k)) \<Longrightarrow> buf_bytes b i n = ys"
  by (intro nth_equalityI) (auto simp: nth_append)

text \<open>A struct placed in the buffer is read back.\<close>

definition holds_bytes :: "rx_buf \<Rightarrow> u8 list \<Rightarrow> bool" where
  "holds_bytes b bs \<longleftrightarrow> (\<forall>i < length bs. b i = bs ! i)"

lemma holds_bytes_buf: "holds_bytes b bs \<longleftrightarrow> buf_bytes b 0 (length bs) = bs"
  by (auto simp: holds_bytes_def list_eq_iff_nth_eq)

lemma holds_bytes_self: "holds_bytes (\<lambda>i. bs ! i) bs"
  by (simp add: holds_bytes_def)

lemma holds_Cons: "holds_bytes b (x # xs) \<longleftrightarrow> b 0 = x \<and> holds_bytes (\<lambda>i. b (Suc i)) xs"
  by (force simp: holds_bytes_def nth_Cons split: nat.splits)

lemma holds_append: "holds_bytes b (xs @ ys) \<longleftrightarrow> holds_bytes b xs \<and> holds_bytes (\<lambda>i. b (length xs + i)) ys"
proof (induction xs arbitrary: b)
  case Nil
  then show ?case by (simp add: holds_bytes_def)
next
  case (Cons x xs)
  then show ?case by (simp add: holds_Cons)
qed

lemma buf_bytes_Suc: "buf_bytes b (Suc j) n = buf_bytes (\<lambda>i. b (Suc i)) j n"
  by (simp add: buf_bytes_def)

lemmas holds_simps = holds_Cons holds_append buf_bytes_Suc

lemma holds_le16: "holds_bytes b (le16 w) \<Longrightarrow> of_le16 (buf_bytes b 0 2) = w"
  by (metis holds_bytes_buf length_le16 of_le16_le16)

lemma holds_le32: "holds_bytes b (le32 w) \<Longrightarrow> of_le32 (buf_bytes b 0 4) = w"
  by (metis holds_bytes_buf length_le32 of_le32_le32)

lemma start_report_read:
  assumes "holds_bytes b (start_report_bytes r)"
  shows "start_report_at b = r"
  using assms unfolding start_report_bytes_def
  by (auto simp: holds_simps start_report_at_def numeral_eq_Suc
      dest!: holds_le16 intro!: start_report.equality)

lemma stage_report_read:
  assumes "holds_bytes b (stage_report_bytes r)"
  shows "stage_report_at b = r"
  using assms unfolding stage_report_bytes_def
  by (auto simp: holds_simps stage_report_at_def numeral_eq_Suc
      dest!: holds_le16 intro!: stage_report.equality)

lemma bitmap_report_read:
  assumes "holds_bytes b (bitmap_report_bytes r)" and "length (br_bitmap r) = 8"
  shows "bitmap_report_at b = r"
  using assms unfolding bitmap_report_bytes_def
  by (auto simp: holds_simps bitmap_report_at_def numeral_eq_Suc holds_bytes_buf [of _ "br_bitmap r"]
      dest!: holds_le32 intro!: bitmap_report.equality)

lemma fw_packet_read:
  assumes "holds_bytes b (fw_packet_bytes p)"
  shows "fw_packet_at b = p\<lparr>pk_data := pk_data (fw_packet_at b)\<rparr>"
    and "i < 64 \<Longrightarrow> pk_data (fw_packet_at b) i = pk_data p i"
proof -
  show "fw_packet_at b = p\<lparr>pk_data := pk_data (fw_packet_at b)\<rparr>"
    using assms unfolding fw_packet_bytes_def
    by (auto simp: holds_simps fw_packet_at_def numeral_eq_Suc
        dest!: holds_le32 holds_le16 intro!: fw_packet.equality)
  assume "i < 64"
  then show "pk_data (fw_packet_at b) i = pk_data p i"
    using assms unfolding fw_packet_bytes_def
    by (simp add: holds_simps fw_packet_at_def) (simp add: holds_bytes_def)
qed

end
