(* ===== verification/Common.thy ===== *)
theory Common
  imports Wire
begin

text \<open>
  The helpers both roles share, \<open>ota-common.c\<close>, and the world around a node. What the code asks
  the network stack (its node id, the RPL root, its preferred parent, its downward routes, the
  queue lengths) is a \<open>net_env\<close>. What it does to the outside world (sending a datagram, arming a
  timer, posting an event, resetting the chip, printing a protocol line on the UART) is a value of
  \<open>effect\<close>, appended to a log in the order of the calls. The diagnostic logs of the \<open>LOG_\<close> macros
  are not modelled.
\<close>

section \<open>Addresses and the network stack\<close>

text \<open>An IPv6 address is its sixteen bytes.\<close>

type_synonym ipaddr = "u8 list"

text \<open>\<open>root_ipaddr\<close>: what \<open>NETSTACK_ROUTING.get_root_ipaddr\<close> yields, \<open>None\<close> when the function
  is missing or reports failure. \<open>defrt_choose\<close>: the preferred parent. \<open>routes\<close>: the
  routing table in the order \<open>uip_ds6_route_head\<close> and \<open>uip_ds6_route_next\<close> walk it, each entry
  with its destination and its next hop, which the stack may not know.\<close>

record net_env =
  node_id :: u16
  root_ipaddr :: "ipaddr option"
  defrt_choose :: "ipaddr option"
  routes :: "(ipaddr \<times> ipaddr option) list"
  tsch_is_associated :: bool
  nbr_lladdr :: "ipaddr \<Rightarrow> u8 list option"
  queue_get_nbr :: "u8 list \<Rightarrow> nat option"
  queue_global_count :: nat
  random_rand :: u16
  CLOCK_SECOND :: nat

definition uip_is_addr_unspecified :: "ipaddr \<Rightarrow> bool" where
  "uip_is_addr_unspecified ip \<longleftrightarrow> list_all (\<lambda>b. b = 0) ip"

text \<open>The link-local address derived from the root's: the first eight bytes become
  \<open>fe80::\<close>.\<close>

definition link_local_of :: "ipaddr \<Rightarrow> ipaddr" where
  "link_local_of ip = 0xfe # 0x80 # replicate 6 0 @ drop 8 ip"

section \<open>Effects\<close>

datatype timer =
    ReportTimer | LeafStabilityTimer | StagedRebootTimer | StartAdmissionTimer | DistTimer | RouteTimer | StabilityTimer

datatype effect =
    SendTo ipaddr "u8 list"
  | SetTimer timer nat
  | StopTimer timer
  | PostBitmapReceived
  | Uart string
  | SystemReset

section \<open>Operations\<close>

definition OTA_QUEUE_MAX_NEXT_HOP_PENDING :: nat where "OTA_QUEUE_MAX_NEXT_HOP_PENDING = 1"
definition OTA_QUEUE_MAX_GLOBAL_PENDING :: nat where "OTA_QUEUE_MAX_GLOBAL_PENDING = 8"

definition line_next_hop :: "net_env \<Rightarrow> ipaddr option" where
  "line_next_hop net = (case routes net of (_, nexthop) # _ \<Rightarrow> nexthop | [] \<Rightarrow> None)"

text \<open>Characters are their codes, as in C.\<close>

definition hex2val :: "char \<Rightarrow> u8" where
  "hex2val c =
     (let n = (of_char c :: nat)
      in if 0x30 \<le> n \<and> n \<le> 0x39 then of_nat (n - 0x30)
         else if 0x41 \<le> n \<and> n \<le> 0x46 then of_nat (n - 0x41 + 10)
         else if 0x61 \<le> n \<and> n \<le> 0x66 then of_nat (n - 0x61 + 10)
         else 0)"

definition send_to_all :: "net_env \<Rightarrow> u8 list \<Rightarrow> effect list" where
  "send_to_all net pkt = (case line_next_hop net of Some nexthop \<Rightarrow> [SendTo nexthop pkt] | None \<Rightarrow> [])"

definition ota_downstream_queue_ready :: "net_env \<Rightarrow> bool" where
  "ota_downstream_queue_ready net =
     (let global_pending = queue_global_count net
      in case line_next_hop net of
        None \<Rightarrow> global_pending \<le> OTA_QUEUE_MAX_GLOBAL_PENDING
      | Some nexthop \<Rightarrow>
         (case nbr_lladdr net nexthop of
            None \<Rightarrow> global_pending \<le> OTA_QUEUE_MAX_GLOBAL_PENDING
          | Some lladdr \<Rightarrow>
              (let neighbor_pending = (case queue_get_nbr net lladdr of Some n \<Rightarrow> n | None \<Rightarrow> 0)
               in neighbor_pending \<le> OTA_QUEUE_MAX_NEXT_HOP_PENDING \<and>
                  global_pending \<le> OTA_QUEUE_MAX_GLOBAL_PENDING)))"

text \<open>The bit operations on a received-chunks bitmap, on both sides of the protocol.\<close>

definition bitmap_bit :: "u8 list \<Rightarrow> nat \<Rightarrow> bool" where
  "bitmap_bit bm i \<longleftrightarrow> bm ! (i div 8) AND push_bit (i mod 8) 1 \<noteq> 0"

definition bitmap_set :: "nat \<Rightarrow> u8 list \<Rightarrow> u8 list" where
  "bitmap_set i bm = bm[i div 8 := bm ! (i div 8) OR push_bit (i mod 8) 1]"

definition bitmap_clear :: "nat \<Rightarrow> u8 list \<Rightarrow> u8 list" where
  "bitmap_clear i bm = bm[i div 8 := bm ! (i div 8) AND NOT (push_bit (i mod 8) 1)]"

text \<open>\<open>is_leaf_node\<close> of \<open>ota-sensor.c\<close>: no downward route.\<close>

definition is_leaf_node :: "net_env \<Rightarrow> bool" where
  "is_leaf_node net \<longleftrightarrow> routes net = []"

lemma leaf_sends_nothing: "is_leaf_node net \<Longrightarrow> send_to_all net pkt = []"
  by (simp add: is_leaf_node_def send_to_all_def line_next_hop_def)

lemma send_to_all_sends: "e \<in> set (send_to_all net pkt) \<Longrightarrow> \<exists>hop. e = SendTo hop pkt \<and> line_next_hop net = Some hop"
  by (auto simp: send_to_all_def split: option.splits)

end
