(* ===== verification/Sensor.thy ===== *)
theory Sensor
  imports Backend Common
begin

text \<open>
  The common sensor-node flow, \<open>ota-sensor.c\<close>: the receiver's state machine over START, DATA,
  PAGE_END and VERIFY packets, hop-by-hop forwarding, the reports to the coordinator and the timer
  callbacks of the staged reboot. The state is one record of the file's static variables and the
  shared globals it uses, with the backend's state and the log of effects. Storage goes through a
  \<open>sensor_backend\<close>; the checksum \<open>crc16_data\<close> is the operating system's and a parameter, as is
  the build switch \<open>OTA_STAGE_RESET_AFTER_VERIFY\<close>.
\<close>

section \<open>State\<close>

record 's sensor_env =
  se_backend :: "'s sensor_backend"
  crc16_data :: "u8 list \<Rightarrow> u16 \<Rightarrow> u16"
  OTA_STAGE_RESET_AFTER_VERIFY :: bool

record 's sensor_state =
  current_file_size :: u32
  ota_target_slot :: u8
  current_rx_page_offset :: u32
  page_bitmap :: "u8 list"
  page_0_erased :: bool
  ota_session_active :: bool
  running_fw_crc :: u16
  current_image_sec_ver :: u16
  last_crc_committed_page_offset :: u32
  report_to_send :: bitmap_report
  staged_image_sec_ver :: u16
  staged_target :: u8
  backend :: 's
  effects :: "effect list"

definition NO_PAGE :: u32 where "NO_PAGE = 0xFFFFFFFF"

definition sensor_initial :: "'s \<Rightarrow> 's sensor_state" where
  "sensor_initial s =
     \<lparr>current_file_size = 0, ota_target_slot = OTA_SLOT_INVALID, current_rx_page_offset = NO_PAGE,
      page_bitmap = replicate 8 0, page_0_erased = False, ota_session_active = False,
      running_fw_crc = 0, current_image_sec_ver = OTA_START_SEC_VER_UNKNOWN,
      last_crc_committed_page_offset = NO_PAGE,
      report_to_send = \<lparr>br_type = 0, br_status = 0, br_page_offset = 0, br_bitmap = replicate 8 0\<rparr>,
      staged_image_sec_ver = 0, staged_target = OTA_TARGET_INVALID, backend = s, effects = []\<rparr>"

definition emit :: "effect list \<Rightarrow> 's sensor_state \<Rightarrow> 's sensor_state" where
  "emit es st = st\<lparr>effects := effects st @ es\<rparr>"

section \<open>Sending\<close>

definition get_coordinator_ll_ip :: "net_env \<Rightarrow> ipaddr option" where
  "get_coordinator_ll_ip net =
     (case root_ipaddr net of
        Some root_ip \<Rightarrow> if uip_is_addr_unspecified root_ip then None else Some (link_local_of root_ip)
      | None \<Rightarrow> None)"

definition send_to_coordinator :: "net_env \<Rightarrow> u8 list \<Rightarrow> effect list" where
  "send_to_coordinator net payload =
     (case root_ipaddr net of
        None \<Rightarrow> []
      | Some root_ip \<Rightarrow>
          if node_id net = 1 \<or> uip_is_addr_unspecified root_ip then []
          else
            let coordinator_ll_ip = link_local_of root_ip
            in if defrt_choose net = Some coordinator_ll_ip then [SendTo coordinator_ll_ip payload]
               else [SendTo root_ip payload])"

definition parent_is_coordinator :: "net_env \<Rightarrow> ipaddr option \<Rightarrow> bool" where
  "parent_is_coordinator net parent_ip \<longleftrightarrow>
     parent_ip \<noteq> None \<and> get_coordinator_ll_ip net \<noteq> None \<and> parent_ip = get_coordinator_ll_ip net"

definition send_rebooting_soon_to_parent :: "'s sensor_env \<Rightarrow> net_env \<Rightarrow> 's sensor_state \<Rightarrow> 's sensor_state" where
  "send_rebooting_soon_to_parent E net st =
     (case defrt_choose net of
        None \<Rightarrow> st
      | Some parent_ip \<Rightarrow>
          if parent_is_coordinator net (Some parent_ip) then st
          else emit [SendTo parent_ip (stage_report_bytes
                 \<lparr>st_type = PKT_TYPE_STAGE_REPORT, st_status = OTA_STAGE_STATUS_REBOOTING_SOON,
                  st_target_slot = staged_target st, st_image_sec_ver = staged_image_sec_ver st,
                  st_running_sec_ver = be_running_sec_ver (se_backend E),
                  st_is_leaf = (if is_leaf_node net then 1 else 0)\<rparr>)] st)"

definition OTA_STAGE_LEAF_STABILITY_SECONDS :: nat where "OTA_STAGE_LEAF_STABILITY_SECONDS = 5"
definition OTA_STAGE_REBOOT_DELAY_SECONDS :: nat where "OTA_STAGE_REBOOT_DELAY_SECONDS = 2"

text \<open>The callbacks of the three timers.\<close>

definition staged_reboot_callback :: "'s sensor_state \<Rightarrow> 's sensor_state" where
  "staged_reboot_callback st = emit [SystemReset] st"

definition leaf_stability_callback :: "'s sensor_env \<Rightarrow> net_env \<Rightarrow> 's sensor_state \<Rightarrow> 's sensor_state" where
  "leaf_stability_callback E net st =
     (if \<not> is_leaf_node net then st
      else if OTA_STAGE_RESET_AFTER_VERIFY E then
        emit [SetTimer StagedRebootTimer (OTA_STAGE_REBOOT_DELAY_SECONDS * CLOCK_SECOND net)]
          (send_rebooting_soon_to_parent E net st)
      else st)"

definition send_report_callback :: "net_env \<Rightarrow> 's sensor_state \<Rightarrow> 's sensor_state" where
  "send_report_callback net st =
     emit (send_to_coordinator net (bitmap_report_bytes (report_to_send st))) st"

definition schedule_leaf_reboot_if_safe ::
    "net_env \<Rightarrow> u16 \<Rightarrow> u8 \<Rightarrow> 's sensor_state \<Rightarrow> 's sensor_state" where
  "schedule_leaf_reboot_if_safe net image_sec_ver target st =
     (let st = st\<lparr>staged_image_sec_ver := image_sec_ver, staged_target := target\<rparr>
      in if \<not> is_leaf_node net then st
         else emit [SetTimer LeafStabilityTimer (OTA_STAGE_LEAF_STABILITY_SECONDS * CLOCK_SECOND net)] st)"

definition send_start_report ::
    "'s sensor_env \<Rightarrow> net_env \<Rightarrow> u8 \<Rightarrow> u16 \<Rightarrow> u8 \<Rightarrow> 's sensor_state \<Rightarrow> 's sensor_state" where
  "send_start_report E net status image_sec_ver target st =
     emit (send_to_coordinator net (start_report_bytes
       \<lparr>sr_type = PKT_TYPE_START_REPORT, sr_status = status, sr_image_sec_ver = image_sec_ver,
        sr_running_sec_ver = be_running_sec_ver (se_backend E), sr_target_slot = target\<rparr>)) st"

definition schedule_bitmap_send :: "net_env \<Rightarrow> 's sensor_state \<Rightarrow> 's sensor_state" where
  "schedule_bitmap_send net st =
     emit [SetTimer ReportTimer (unat (random_rand net) mod 500 * CLOCK_SECOND net div 1000)] st"

definition send_page_report :: "net_env \<Rightarrow> 's sensor_state \<Rightarrow> 's sensor_state" where
  "send_page_report net st =
     (if current_rx_page_offset st = NO_PAGE then st
      else if node_id net \<noteq> 1 then
        schedule_bitmap_send net
          (st\<lparr>report_to_send :=
             \<lparr>br_type = PKT_TYPE_BITMAP_REPORT, br_status = OTA_REPORT_STATUS_OK,
              br_page_offset = current_rx_page_offset st, br_bitmap = page_bitmap st\<rparr>\<rparr>)
      else st)"

section \<open>Receiving\<close>

definition packet_should_forward :: "net_env \<Rightarrow> ipaddr \<Rightarrow> bool" where
  "packet_should_forward net sender_addr \<longleftrightarrow>
     (let is_from_parent = (case defrt_choose net of Some parent_ip \<Rightarrow> sender_addr = parent_ip | None \<Rightarrow> False);
          is_from_coordinator = (case get_coordinator_ll_ip net of Some ip \<Rightarrow> sender_addr = ip | None \<Rightarrow> False);
          is_leaf = is_leaf_node net
      in (is_from_parent \<or> is_from_coordinator) \<and> \<not> is_leaf)"

definition reset_rx_state :: "'s sensor_state \<Rightarrow> 's sensor_state" where
  "reset_rx_state st =
     st\<lparr>current_rx_page_offset := NO_PAGE, page_bitmap := replicate 8 0, page_0_erased := False,
       running_fw_crc := 0, last_crc_committed_page_offset := NO_PAGE\<rparr>"

definition forward :: "net_env \<Rightarrow> bool \<Rightarrow> u8 list \<Rightarrow> 's sensor_state \<Rightarrow> 's sensor_state" where
  "forward net should_forward raw st = (if should_forward then emit (send_to_all net raw) st else st)"

definition handle_start ::
    "'s sensor_env \<Rightarrow> net_env \<Rightarrow> fw_packet \<Rightarrow> u8 list \<Rightarrow> bool \<Rightarrow> 's sensor_state \<Rightarrow> 's sensor_state" where
  "handle_start E net pkt raw should_forward st =
     (let image_sec_ver = pk_length pkt;
          st = forward net should_forward raw st;
          st = reset_rx_state
            (st\<lparr>current_file_size := pk_offset pkt, ota_target_slot := pk_target_slot pkt,
               current_image_sec_ver := image_sec_ver, ota_session_active := False\<rparr>)
      in case be_start (se_backend E) (pk_target_slot pkt) (current_file_size st) image_sec_ver
                OTA_START_STATUS_REJECTED_TARGET (backend st) of
           ((False, reject_status), s) \<Rightarrow>
             send_start_report E net reject_status image_sec_ver (pk_target_slot pkt) (st\<lparr>backend := s\<rparr>)
         | ((True, _), s) \<Rightarrow>
             send_start_report E net OTA_START_STATUS_ACCEPTED image_sec_ver (pk_target_slot pkt)
               (st\<lparr>backend := s, page_0_erased := True, ota_session_active := True\<rparr>))"

text \<open>Selecting the page of a DATA packet, with the sector erase at a page change; the boolean says
  whether handling goes on.\<close>

definition rx_select_page :: "'s sensor_env \<Rightarrow> fw_packet \<Rightarrow> 's sensor_state \<Rightarrow> bool \<times> 's sensor_state" where
  "rx_select_page E pkt st =
     (let page_offset = pk_offset pkt - pk_offset pkt mod of_nat PAGE_SIZE;
          erase_sector_size = be_erase_sector_size (se_backend E);
          sector_offset = pk_offset pkt - pk_offset pkt mod erase_sector_size
      in if current_rx_page_offset st = NO_PAGE then
           let st = st\<lparr>current_rx_page_offset := page_offset, page_bitmap := replicate 8 0\<rparr>
           in if page_offset = 0 then
                if \<not> page_0_erased st then
                  case be_erase_sector (se_backend E) (ota_target_slot st) 0 (backend st) of
                    (ok, s) \<Rightarrow> (ok, st\<lparr>page_0_erased := ok, backend := s\<rparr>)
                else (True, st)
              else
                case be_erase_sector (se_backend E) (ota_target_slot st) sector_offset (backend st) of
                  (ok, s) \<Rightarrow> (ok, st\<lparr>backend := s\<rparr>)
         else if page_offset > current_rx_page_offset st then
           let st = st\<lparr>current_rx_page_offset := page_offset, page_bitmap := replicate 8 0\<rparr>
           in case be_erase_sector (se_backend E) (ota_target_slot st) sector_offset (backend st) of
                (ok, s) \<Rightarrow> (ok, st\<lparr>backend := s\<rparr>)
         else (\<not> page_offset < current_rx_page_offset st, st))"

definition rx_store_chunk :: "'s sensor_env \<Rightarrow> fw_packet \<Rightarrow> 's sensor_state \<Rightarrow> 's sensor_state" where
  "rx_store_chunk E pkt st =
     (let chunk_idx = unat (pk_offset pkt mod of_nat PAGE_SIZE) div 64;
          chunk_already_received = (chunk_idx < 64 \<and> bitmap_bit (page_bitmap st) chunk_idx)
      in if chunk_already_received then st
         else
           let st = (if pk_length pkt > 0 \<and> chunk_idx < 64
                     then st\<lparr>page_bitmap := bitmap_set chunk_idx (page_bitmap st)\<rparr> else st)
           in case be_write (se_backend E) (ota_target_slot st) (pk_offset pkt)
                     (buf_bytes (pk_data pkt) 0 (unat (pk_length pkt))) (pk_length pkt) (backend st) of
                (True, s) \<Rightarrow> st\<lparr>backend := s\<rparr>
              | (False, s) \<Rightarrow>
                  st\<lparr>backend := s,
                     page_bitmap := (if chunk_idx < 64 then bitmap_clear chunk_idx (page_bitmap st)
                                     else page_bitmap st)\<rparr>)"

definition handle_data ::
    "'s sensor_env \<Rightarrow> net_env \<Rightarrow> fw_packet \<Rightarrow> u8 list \<Rightarrow> bool \<Rightarrow> 's sensor_state \<Rightarrow> 's sensor_state" where
  "handle_data E net pkt raw should_forward st =
     (let st = forward net should_forward raw st
      in if \<not> ota_session_active st \<or> pk_target_slot pkt \<noteq> ota_target_slot st \<or>
            \<not> be_bounds_ok (se_backend E) (current_file_size st) (ota_target_slot st)
                (pk_offset pkt) (pk_length pkt)
         then st
         else case rx_select_page E pkt st of
           (False, st) \<Rightarrow> st
         | (True, st) \<Rightarrow> rx_store_chunk E pkt st)"

text \<open>The loop of \<open>handle_page_end\<close> from index \<open>i\<close>: the flag, the page checksum and the cumulative
  checksum over the chunks read back.\<close>

function page_crc_loop ::
    "'s sensor_env \<Rightarrow> u8 \<Rightarrow> u32 \<Rightarrow> nat \<Rightarrow> nat \<Rightarrow> u16 \<Rightarrow> u16 \<Rightarrow> 's \<Rightarrow> bool \<times> u16 \<times> u16 \<times> 's" where
  "page_crc_loop E t page_offset page_len i page_crc fw_crc s =
     (if i < page_len then
        let chunk = (if page_len - i > 64 then 64 else page_len - i)
        in case be_read (se_backend E) t (page_offset + of_nat i) (of_nat chunk) s of
             (None, s) \<Rightarrow> (False, page_crc, fw_crc, s)
           | (Some buf, s) \<Rightarrow>
               page_crc_loop E t page_offset page_len (i + 64)
                 (crc16_data E buf page_crc) (crc16_data E buf fw_crc) s
      else (True, page_crc, fw_crc, s))"
  by auto
termination by (relation "measure (\<lambda>(E, t, page_offset, page_len, i, _). page_len - i)") auto

declare page_crc_loop.simps [simp del]

definition rx_page_len :: "'s sensor_state \<Rightarrow> u16" where
  "rx_page_len st =
     (if current_rx_page_offset st + of_nat PAGE_SIZE > current_file_size st
      then ucast (current_file_size st - current_rx_page_offset st)
      else of_nat PAGE_SIZE)"

definition handle_page_end ::
    "'s sensor_env \<Rightarrow> net_env \<Rightarrow> fw_packet \<Rightarrow> u8 list \<Rightarrow> bool \<Rightarrow> 's sensor_state \<Rightarrow> 's sensor_state" where
  "handle_page_end E net pkt raw should_forward st =
     (let temp_fw_crc = running_fw_crc st;
          st = forward net should_forward raw st
      in if \<not> ota_session_active st \<or> pk_target_slot pkt \<noteq> ota_target_slot st then st
         else if pk_offset pkt \<noteq> current_rx_page_offset st then st
         else
           let page_len = rx_page_len st;
               flash_ok = be_bounds_ok (se_backend E) (current_file_size st) (ota_target_slot st)
                            (current_rx_page_offset st) page_len;
               (flash_ok, page_crc, temp_fw_crc, s) =
                 (if flash_ok
                  then page_crc_loop E (ota_target_slot st) (current_rx_page_offset st) (unat page_len) 0
                         0 temp_fw_crc (backend st)
                  else (False, 0, temp_fw_crc, backend st));
               st = st\<lparr>backend := s\<rparr>;
               st = (if flash_ok \<and> page_crc = pk_length pkt then
                       if last_crc_committed_page_offset st \<noteq> current_rx_page_offset st
                       then st\<lparr>running_fw_crc := temp_fw_crc,
                               last_crc_committed_page_offset := current_rx_page_offset st\<rparr>
                       else st
                     else st\<lparr>page_bitmap := replicate 8 0\<rparr>)
           in send_page_report net st)"

definition handle_verify ::
    "'s sensor_env \<Rightarrow> net_env \<Rightarrow> fw_packet \<Rightarrow> u8 list \<Rightarrow> bool \<Rightarrow> 's sensor_state \<Rightarrow> 's sensor_state" where
  "handle_verify E net pkt raw should_forward st =
     (let st = forward net should_forward raw st
      in if \<not> ota_session_active st \<or> pk_target_slot pkt \<noteq> ota_target_slot st then st
         else
           let st = (send_page_report net st)\<lparr>current_rx_page_offset := NO_PAGE\<rparr>
           in if running_fw_crc st = ucast (pk_offset pkt) then
                (case be_stage (se_backend E) (current_file_size st) (ota_target_slot st) (backend st) of
                   (False, s) \<Rightarrow> st\<lparr>backend := s\<rparr>
                 | (True, s) \<Rightarrow>
                     schedule_leaf_reboot_if_safe net (current_image_sec_ver st) (ota_target_slot st)
                       (st\<lparr>backend := s\<rparr>))
                \<lparr>ota_session_active := False\<rparr>
              else st)"

text \<open>\<open>udp_rx_callback\<close> on a sensor node; the report of a rebooting child is only logged.\<close>

definition sensor_udp_rx ::
    "'s sensor_env \<Rightarrow> net_env \<Rightarrow> ipaddr \<Rightarrow> rx_buf \<Rightarrow> u16 \<Rightarrow> 's sensor_state \<Rightarrow> 's sensor_state" where
  "sensor_udp_rx E net sender_addr data datalen st =
     (if unat datalen \<ge> sizeof_stage_report \<and> data 0 = PKT_TYPE_STAGE_REPORT then st
      else if unat datalen < FW_PACKET_HEADER_LEN then st
      else
        let pkt = fw_packet_at data;
            raw = buf_bytes data 0 (unat datalen);
            should_forward = packet_should_forward net sender_addr
        in if pk_type pkt = PKT_TYPE_START then handle_start E net pkt raw should_forward st
           else if pk_type pkt = PKT_TYPE_DATA then handle_data E net pkt raw should_forward st
           else if pk_type pkt = PKT_TYPE_PAGE_END then handle_page_end E net pkt raw should_forward st
           else if pk_type pkt = PKT_TYPE_VERIFY then handle_verify E net pkt raw should_forward st
           else st)"

end
