(* ===== verification/Crc16.thy ===== *)
theory Crc16
  imports Prelude
begin

text \<open>
  The 16-bit checksum of pages and of whole images. The firmware calls the operating system's
  \<open>crc16_data\<close>, which is a parameter of the model; all it relies on is that the checksum of a
  concatenation can be computed piecewise, the locale \<open>crc16_laws\<close>. The sender on the host,
  \<open>uart_sender.py\<close>, has its own implementation of the same checksum, \<open>crc16_add\<close> and
  \<open>crc16_data\<close>; it is modelled here and provides the locale's laws. Being a bijection in the
  accumulator and in the byte, one step of it loses no information, so a change of one byte of the
  data always changes the checksum.
\<close>

locale crc16_laws =
  fixes crc :: "u8 list \<Rightarrow> u16 \<Rightarrow> u16"
  assumes crc_nil: "crc [] acc = acc"
    and crc_append: "crc (xs @ ys) acc = crc ys (crc xs acc)"

text \<open>The checksum is also linear, so whether two strings of the same length agree does not depend on
  the accumulator they start from.\<close>

locale crc16_linear = crc16_laws +
  assumes crc_acc: "length xs = length ys \<Longrightarrow> crc xs 0 = crc ys 0 \<Longrightarrow> crc xs acc = crc ys acc"

definition crc16_step :: "u16 \<Rightarrow> u16" where
  "crc16_step acc =
     (let acc = drop_bit 8 acc OR push_bit 8 acc;
          acc = acc XOR push_bit 4 (acc AND 0xFF00);
          acc = acc XOR drop_bit 4 (drop_bit 8 acc);
          acc = acc XOR drop_bit 5 (acc AND 0xFF00)
      in acc)"

definition crc16_add :: "u8 \<Rightarrow> u16 \<Rightarrow> u16" where
  "crc16_add b acc = crc16_step (acc XOR ucast b)"

definition py_crc16_data :: "u8 list \<Rightarrow> u16 \<Rightarrow> u16" where
  "py_crc16_data data acc = fold crc16_add data acc"

text \<open>Equality of 16-bit words bit by bit, so that each step can be inverted by evaluation.\<close>

lemma u16_bits_eqI:
  fixes v w :: u16
  assumes "list_all (\<lambda>n. bit v n = bit w n) [0, 1, 2, 3, 4, 5, 6, 7, 8, 9, 10, 11, 12, 13, 14, 15]"
  shows "v = w"
proof (rule bit_word_eqI)
  fix n assume "n < LENGTH(16)"
  then have "n \<in> set [0, 1, 2, 3, 4, 5, 6, 7, 8, 9, 10, 11, 12, 13, 14, 15]"
    by (simp, arith)
  with assms show "bit v n = bit w n" unfolding list_all_iff by blast
qed

lemma crc16_rotate: "drop_bit 8 (drop_bit 8 x OR push_bit 8 x) OR push_bit 8 (drop_bit 8 x OR push_bit 8 x) = x"
  for x :: u16
  by (rule u16_bits_eqI) (auto simp: bit_simps dest: bit_imp_le_length)

lemma crc16_up4: "(x XOR push_bit 4 (x AND 0xFF00)) XOR push_bit 4 ((x XOR push_bit 4 (x AND 0xFF00)) AND 0xFF00) = x"
  for x :: u16
  by (rule u16_bits_eqI) (auto simp: bit_simps)

lemma crc16_down12:
  "(x XOR drop_bit 4 (drop_bit 8 x)) XOR drop_bit 4 (drop_bit 8 (x XOR drop_bit 4 (drop_bit 8 x))) = x"
  for x :: u16
  by (rule u16_bits_eqI) (auto simp: bit_simps dest: bit_imp_le_length)

definition crc16_down5 :: "u16 \<Rightarrow> u16" where
  "crc16_down5 x = x XOR drop_bit 5 (x AND 0xFF00)"

lemma crc16_down5_bits: "list_all (\<lambda>n. bit (crc16_down5 x) n \<longleftrightarrow> (bit x n \<noteq> (bit x (n + 5) \<and> 8 \<le> n + 5)))
    [0, 1, 2, 3, 4, 5, 6, 7, 8, 9, 10, 11, 12, 13, 14, 15]"
  by (auto simp: crc16_down5_def bit_simps dest: bit_imp_le_length)

lemma bit_crc16_down5: "bit (crc16_down5 x) n \<longleftrightarrow> (bit x n \<noteq> (bit x (n + 5) \<and> 8 \<le> n + 5 \<and> n + 5 < 16)) \<and> n < 16"
proof (cases "n < 16")
  case True
  then have n: "n \<in> set [0, 1, 2, 3, 4, 5, 6, 7, 8, 9, 10, 11, 12, 13, 14, 15]" by (simp, arith)
  have "bit (crc16_down5 x) n \<longleftrightarrow> (bit x n \<noteq> (bit x (n + 5) \<and> 8 \<le> n + 5))"
    using crc16_down5_bits [of x] n unfolding list_all_iff by blast
  moreover have "bit x (n + 5) \<Longrightarrow> n + 5 < 16" using bit_imp_le_length [of x "n + 5"] by simp
  ultimately show ?thesis using True by blast
qed (auto dest: bit_imp_le_length)

lemma crc16_down5: "crc16_down5 (crc16_down5 (crc16_down5 (crc16_down5 x))) = x"
  by (rule u16_bits_eqI) (auto simp: bit_crc16_down5)

lemma crc16_step_inject: "crc16_step x = crc16_step y \<longleftrightarrow> x = y"
proof
  assume "crc16_step x = crc16_step y"
  then have "crc16_down5 u = crc16_down5 v" 
    if "u = (let a = drop_bit 8 x OR push_bit 8 x; a = a XOR push_bit 4 (a AND 0xFF00) in a XOR drop_bit 4 (drop_bit 8 a))"
      "v = (let a = drop_bit 8 y OR push_bit 8 y; a = a XOR push_bit 4 (a AND 0xFF00) in a XOR drop_bit 4 (drop_bit 8 a))" for u v
    using that by (simp only: crc16_step_def crc16_down5_def Let_def)
  from this [OF refl refl]
  show "x = y"
    unfolding Let_def by (metis crc16_down5 crc16_down12 crc16_up4 crc16_rotate)
qed simp

lemma crc16_add_inject:
  "crc16_add b acc = crc16_add b acc' \<longleftrightarrow> acc = acc'"
  "crc16_add b acc = crc16_add b' acc \<longleftrightarrow> b = b'"
proof -
  have "(ucast (ucast c :: u16) :: u8) = c" for c :: u8
    by (rule bit_word_eqI) (simp add: bit_simps)
  then have "ucast b = (ucast b' :: u16) \<longleftrightarrow> b = b'" by metis
  then show "crc16_add b acc = crc16_add b acc' \<longleftrightarrow> acc = acc'"
    "crc16_add b acc = crc16_add b' acc \<longleftrightarrow> b = b'"
    by (simp_all add: crc16_add_def crc16_step_inject xor_left_cancel xor_right_cancel)
qed

lemma py_crc16_inject: "py_crc16_data ys acc = py_crc16_data ys acc' \<longleftrightarrow> acc = acc'"
  by (induction ys arbitrary: acc acc') (simp_all add: py_crc16_data_def crc16_add_inject)

lemma crc16_rotate_xor:
  "drop_bit 8 (x XOR y) OR push_bit 8 (x XOR y) = (drop_bit 8 x OR push_bit 8 x) XOR (drop_bit 8 y OR push_bit 8 y)"
  for x y :: u16
  by (rule u16_bits_eqI) (auto simp: bit_simps dest: bit_imp_le_length)

lemma crc16_stages_xor:
  "(x XOR y) XOR push_bit 4 ((x XOR y) AND 0xFF00) = (x XOR push_bit 4 (x AND 0xFF00)) XOR (y XOR push_bit 4 (y AND 0xFF00))"
  "(x XOR y) XOR drop_bit 4 (drop_bit 8 (x XOR y)) = (x XOR drop_bit 4 (drop_bit 8 x)) XOR (y XOR drop_bit 4 (drop_bit 8 y))"
  "(x XOR y) XOR drop_bit 5 ((x XOR y) AND 0xFF00) = (x XOR drop_bit 5 (x AND 0xFF00)) XOR (y XOR drop_bit 5 (y AND 0xFF00))"
  for x y :: u16
  by (rule u16_bits_eqI, auto simp: bit_simps dest: bit_imp_le_length)+

lemma crc16_step_xor: "crc16_step (x XOR y) = crc16_step x XOR crc16_step y"
proof -
  define r f g h where "r = (\<lambda>x :: u16. drop_bit 8 x OR push_bit 8 x)" and "f = (\<lambda>x :: u16. x XOR push_bit 4 (x AND 0xFF00))"
    and "g = (\<lambda>x :: u16. x XOR drop_bit 4 (drop_bit 8 x))" and "h = (\<lambda>x :: u16. x XOR drop_bit 5 (x AND 0xFF00))"
  have "r (x XOR y) = r x XOR r y" "f (x XOR y) = f x XOR f y" "g (x XOR y) = g x XOR g y" "h (x XOR y) = h x XOR h y" for x y
    unfolding r_def f_def g_def h_def by (rule crc16_rotate_xor crc16_stages_xor)+
  moreover have "crc16_step z = h (g (f (r z)))" for z by (simp only: crc16_step_def Let_def r_def f_def g_def h_def)
  ultimately show ?thesis by simp
qed

lemma py_crc16_xor:
  "py_crc16_data xs (a XOR b) = py_crc16_data xs a XOR py_crc16_data (replicate (length xs) 0) b"
proof (induction xs arbitrary: a b)
  case (Cons x xs)
  have "crc16_add x (a XOR b) = crc16_add x a XOR crc16_add 0 b"
    by (simp add: crc16_add_def crc16_step_xor flip: crc16_step_xor) (simp add: ac_simps)
  with Cons show ?case by (simp add: py_crc16_data_def)
qed (simp add: py_crc16_data_def)

interpretation py: crc16_linear py_crc16_data
proof unfold_locales
  show "py_crc16_data [] acc = acc" "py_crc16_data (xs @ ys) acc = py_crc16_data ys (py_crc16_data xs acc)" for xs ys acc
    by (simp_all add: py_crc16_data_def)
  fix xs ys :: "u8 list" and acc :: u16
  assume "length xs = length ys" "py_crc16_data xs 0 = py_crc16_data ys 0"
  then show "py_crc16_data xs acc = py_crc16_data ys acc"
    using py_crc16_xor [of xs 0 acc] py_crc16_xor [of ys 0 acc] by simp
qed

text \<open>C40. The page checksum the sender computes detects every corruption confined to one byte: two byte
  strings that differ in exactly one position have different checksums, from any starting
  accumulator, so also when the checksum is accumulated over several pages.\<close>

theorem crc16_one_byte_change_detected:
  assumes "i < length data" and "b \<noteq> data ! i"
  shows "py_crc16_data (data[i := b]) acc \<noteq> py_crc16_data data acc"
proof -
  define xs ys where "xs = take i data" and "ys = drop (Suc i) data"
  have d: "data = xs @ [data ! i] @ ys" "data[i := b] = xs @ [b] @ ys"
    using assms(1) by (simp_all add: xs_def ys_def id_take_nth_drop upd_conv_take_nth_drop)
  have step: "py_crc16_data (xs @ [c] @ ys) acc = py_crc16_data ys (crc16_add c (py_crc16_data xs acc))" for c
    by (simp add: py_crc16_data_def)
  show ?thesis
    using assms(2) by (subst (2) d(1), subst d(2)) (simp only: step py_crc16_inject crc16_add_inject)
qed

theorem crc16_one_byte_change_detected_witness:
  "py_crc16_data [1, 2, 0x83, 4] 0 \<noteq> py_crc16_data [1, 2, 3, 4] 0"
  using crc16_one_byte_change_detected [where i = 2 and data = "[1, 2, 3, 4]" and b = "0x83" and acc = 0] by simp

end
