(* ===== verification/Sensor_Flow.thy ===== *)
theory Sensor_Flow
  imports Sensor Crc16
begin

text \<open>
  What the receiving flow achieves, for every backend that keeps the contract: pages whose chunks
  arrive in any order, any number of times, end up in storage exactly as sent, and a whole session
  of such pages leaves the image, its cumulative checksum and a staged record. The lemmas are
  proved once in the locale \<open>sensor_flow\<close>; the two backends and the sender's checksum are its
  instances.
\<close>

section \<open>The bitmap\<close>

lemma bitmap_bit_iff: "bitmap_bit bm i \<longleftrightarrow> bit (bm ! (i div 8)) (i mod 8)"
  by (simp add: bitmap_bit_def bit_iff_and_push_bit_not_eq_0)

lemma length_bitmap [simp]: "length (bitmap_set i bm) = length bm" "length (bitmap_clear i bm) = length bm"
  by (simp_all add: bitmap_set_def bitmap_clear_def)

lemma bitmap_bit_set [simp]:
  assumes "length bm = 8" "i < 64" "j < 64"
  shows "bitmap_bit (bitmap_set i bm) j \<longleftrightarrow> j = i \<or> bitmap_bit bm j"
proof -
  have "i div 8 < 8" "i mod 8 < 8" using assms by simp_all
  moreover have "j = i \<longleftrightarrow> j div 8 = i div 8 \<and> j mod 8 = i mod 8" by (metis mult_div_mod_eq)
  ultimately show ?thesis using assms(1)
    by (cases "j div 8 = i div 8") (auto simp: bitmap_bit_iff bitmap_set_def bit_simps)
qed

lemma bitmap_bit_replicate [simp]: "i < 64 \<Longrightarrow> \<not> bitmap_bit (replicate 8 0) i"
  by (simp add: bitmap_bit_iff)

section \<open>Reading back a page\<close>

lemma length_le_64_u16: "n \<le> 64 \<Longrightarrow> unat (of_nat n :: u16) = n"
  by (simp add: unat_of_nat take_bit_nat_eq_self)

lemma page_not_no_page: "(of_nat (4096 * k) :: u32) \<noteq> NO_PAGE"
proof
  assume "(of_nat (4096 * k) :: u32) = NO_PAGE"
  then have "bit (of_nat (4096 * k) :: u32) 0 = bit NO_PAGE 0" by simp
  then show False by (simp add: NO_PAGE_def bit_0)
qed

lemma mem_read_split: "k \<le> n \<Longrightarrow> mem_read m a n = mem_read m a k @ mem_read m (a + of_nat k) (n - k)"
proof (intro nth_equalityI)
  fix i assume "k \<le> n" and "i < length (mem_read m a n)"
  then show "mem_read m a n ! i = (mem_read m a k @ mem_read m (a + of_nat k) (n - k)) ! i"
    by (cases "i < k") (simp_all add: nth_append add.assoc of_nat_diff)
qed simp

section \<open>Offsets as natural numbers\<close>

lemma of_nat_mod_u32: "m < 2 ^ 32 \<Longrightarrow> n < 2 ^ 32 \<Longrightarrow> (of_nat m :: u32) mod of_nat n = of_nat (m mod n)"
  by (simp add: word_arith_nat_mod unat_of_nat_u32)

lemma of_nat_round_u32:
  assumes "m < 2 ^ 32" "n < 2 ^ 32"
  shows "(of_nat m :: u32) - of_nat m mod of_nat n = of_nat (m - m mod n)"
  using assms by (simp add: of_nat_mod_u32 of_nat_diff)

lemma of_nat_less_u32: "m < 2 ^ 32 \<Longrightarrow> n < 2 ^ 32 \<Longrightarrow> (of_nat m :: u32) < of_nat n \<longleftrightarrow> m < n"
  by (simp add: word_less_nat_alt unat_of_nat_u32)

lemma of_nat_eq_u32: "m < 2 ^ 32 \<Longrightarrow> n < 2 ^ 32 \<Longrightarrow> (of_nat m :: u32) = of_nat n \<longleftrightarrow> m = n"
  by (metis unat_of_nat_u32)

lemma in_region_of_nats:
  "m < 2 ^ 32 \<Longrightarrow> m + n \<le> 2 ^ 32 \<Longrightarrow> j < 2 ^ 32 \<Longrightarrow>
   in_region (of_nat m) n (of_nat j) \<longleftrightarrow> m \<le> j \<and> j < m + n"
  by (subst in_region_nat) (simp_all only: unat_of_nat_u32)

section \<open>Images, chunks and what storage holds\<close>

text \<open>The image being sent: its bytes and its size, below the 32-bit limit of the size field.\<close>

record image =
  im_byte :: "nat \<Rightarrow> u8"
  im_size :: nat

definition im_bytes :: "image \<Rightarrow> nat \<Rightarrow> nat \<Rightarrow> u8 list" where
  "im_bytes im m n = map (im_byte im) [m..<n]"

text \<open>A DATA packet that carries chunk \<open>q\<close> of the image: 64 bytes from offset \<open>64 q\<close>, or the
  rest of the image.\<close>

definition is_data_chunk :: "image \<Rightarrow> u8 \<Rightarrow> nat \<Rightarrow> fw_packet \<Rightarrow> bool" where
  "is_data_chunk im t q pkt \<longleftrightarrow>
     64 * q < im_size im \<and> pk_type pkt = PKT_TYPE_DATA \<and> pk_offset pkt = of_nat (64 * q) \<and>
     pk_target_slot pkt = t \<and> unat (pk_length pkt) = min 64 (im_size im - 64 * q) \<and>
     (\<forall>i < unat (pk_length pkt). pk_data pkt i = im_byte im (64 * q + i))"

definition page_end_offset :: "image \<Rightarrow> nat \<Rightarrow> nat" where
  "page_end_offset im k = min (4096 * k) (im_size im)"

text \<open>The start of the erase sector that holds page \<open>k\<close>.\<close>

definition sector_start :: "'s sensor_env \<Rightarrow> nat \<Rightarrow> nat" where
  "sector_start E k = 4096 * k - 4096 * k mod unat (be_erase_sector_size (se_backend E))"

definition holds_image :: "('s \<Rightarrow> u8 \<Rightarrow> mem) \<Rightarrow> image \<Rightarrow> u8 \<Rightarrow> nat \<Rightarrow> 's sensor_state \<Rightarrow> bool" where
  "holds_image contents im t n st \<longleftrightarrow>
     (\<forall>j < page_end_offset im n. contents (backend st) t (of_nat j) = im_byte im j)"

text \<open>The part of the sector of page \<open>k\<close> that follows the page is erased, and the backend knows.\<close>

definition rest_erased ::
    "'s sensor_env \<Rightarrow> ('s \<Rightarrow> u8 \<Rightarrow> mem) \<Rightarrow> ('s \<Rightarrow> u8 \<Rightarrow> u32 \<Rightarrow> bool) \<Rightarrow> u8 \<Rightarrow> nat \<Rightarrow> nat \<Rightarrow> 's sensor_state \<Rightarrow> bool" where
  "rest_erased E contents tracked t k from st \<longleftrightarrow>
     (let size = unat (be_erase_sector_size (se_backend E))
      in (\<forall>j. from \<le> j \<longrightarrow> j < sector_start E k + size \<longrightarrow> contents (backend st) t (of_nat j) = 0xFF) \<and>
         (4096 < size \<longrightarrow> tracked (backend st) t (of_nat (sector_start E k))))"

text \<open>The session facts that receiving pages never changes.\<close>

definition session_base :: "'s sensor_env \<Rightarrow> image \<Rightarrow> u8 \<Rightarrow> 's sensor_state \<Rightarrow> bool" where
  "session_base E im t st \<longleftrightarrow>
     ota_session_active st \<and> ota_target_slot st = t \<and> unat (current_file_size st) = im_size im \<and>
     length (page_bitmap st) = 8 \<and> page_0_erased st \<and>
     (\<forall>off len. 0 < unat len \<longrightarrow> unat off + unat len \<le> im_size im \<longrightarrow>
        be_bounds_ok (se_backend E) (current_file_size st) t off len)"

text \<open>Pages below \<open>k\<close> are stored and committed and page \<open>k\<close> is being received: each of its bytes
  is the image's, or still erased in a chunk not marked as received.\<close>

definition page_open ::
    "'s sensor_env \<Rightarrow> ('s \<Rightarrow> u8 \<Rightarrow> mem) \<Rightarrow> ('s \<Rightarrow> u8 \<Rightarrow> u32 \<Rightarrow> bool) \<Rightarrow> image \<Rightarrow> u8 \<Rightarrow> nat \<Rightarrow>
      's sensor_state \<Rightarrow> bool" where
  "page_open E contents tracked im t k st \<longleftrightarrow>
     session_base E im t st \<and> 4096 * k < im_size im \<and>
     current_rx_page_offset st = of_nat (4096 * k) \<and>
     last_crc_committed_page_offset st \<noteq> of_nat (4096 * k) \<and>
     running_fw_crc st = crc16_data E (im_bytes im 0 (4096 * k)) 0 \<and>
     holds_image contents im t k st \<and> rest_erased E contents tracked t k (4096 * Suc k) st \<and>
     (\<forall>j. 4096 * k \<le> j \<longrightarrow> j < page_end_offset im (Suc k) \<longrightarrow>
        contents (backend st) t (of_nat j) = im_byte im j \<or>
        (\<not> bitmap_bit (page_bitmap st) (j div 64 mod 64) \<and> contents (backend st) t (of_nat j) = 0xFF))"

text \<open>Pages below \<open>k\<close> are stored and committed, and no DATA of page \<open>k\<close> has arrived.\<close>

definition pages_done ::
    "'s sensor_env \<Rightarrow> ('s \<Rightarrow> u8 \<Rightarrow> mem) \<Rightarrow> ('s \<Rightarrow> u8 \<Rightarrow> u32 \<Rightarrow> bool) \<Rightarrow> image \<Rightarrow> u8 \<Rightarrow> nat \<Rightarrow>
      's sensor_state \<Rightarrow> bool" where
  "pages_done E contents tracked im t k st \<longleftrightarrow>
     session_base E im t st \<and>
     running_fw_crc st = crc16_data E (im_bytes im 0 (page_end_offset im k)) 0 \<and>
     holds_image contents im t k st \<and>
     (case k of
        0 \<Rightarrow> current_rx_page_offset st = NO_PAGE \<and> last_crc_committed_page_offset st = NO_PAGE \<and>
            rest_erased E contents tracked t 0 0 st
      | Suc p \<Rightarrow>
          4096 * p < im_size im \<and> current_rx_page_offset st = of_nat (4096 * p) \<and>
          last_crc_committed_page_offset st = of_nat (4096 * p) \<and>
          rest_erased E contents tracked t p (4096 * k) st \<and>
          (\<forall>q. q div 64 = p \<longrightarrow> 64 * q < im_size im \<longrightarrow> bitmap_bit (page_bitmap st) (q mod 64)))"

text \<open>The PAGE_END packet of page \<open>k\<close>, with the checksum of the page.\<close>

definition is_page_end :: "'s sensor_env \<Rightarrow> image \<Rightarrow> u8 \<Rightarrow> nat \<Rightarrow> fw_packet \<Rightarrow> bool" where
  "is_page_end E im t k pkt \<longleftrightarrow>
     4096 * k < im_size im \<and> pk_type pkt = PKT_TYPE_PAGE_END \<and> pk_offset pkt = of_nat (4096 * k) \<and>
     pk_target_slot pkt = t \<and>
     pk_length pkt = crc16_data E (im_bytes im (4096 * k) (page_end_offset im (Suc k))) 0"

text \<open>Datagrams: the network as the node sees it at that moment, the sender, the bytes at the data
  pointer and the length.\<close>

type_synonym datagram = "net_env \<times> ipaddr \<times> rx_buf \<times> u16"

definition sensor_step :: "'s sensor_env \<Rightarrow> datagram \<Rightarrow> 's sensor_state \<Rightarrow> 's sensor_state" where
  "sensor_step E d st = (case d of (net, sender, data, datalen) \<Rightarrow> sensor_udp_rx E net sender data datalen st)"

definition dgram_packet :: "datagram \<Rightarrow> fw_packet" where
  "dgram_packet d = (case d of (net, sender, data, datalen) \<Rightarrow> fw_packet_at data)"

definition dgram_complete :: "datagram \<Rightarrow> bool" where
  "dgram_complete d \<longleftrightarrow> (case d of (net, sender, data, datalen) \<Rightarrow> FW_PACKET_HEADER_LEN \<le> unat datalen)"

datatype rx_event = Chunk nat | PageEnd nat

fun is_event :: "'s sensor_env \<Rightarrow> image \<Rightarrow> u8 \<Rightarrow> rx_event \<Rightarrow> datagram \<Rightarrow> bool" where
  "is_event E im t (Chunk q) d \<longleftrightarrow> dgram_complete d \<and> is_data_chunk im t q (dgram_packet d)"
| "is_event E im t (PageEnd k) d \<longleftrightarrow> dgram_complete d \<and> is_page_end E im t k (dgram_packet d)"

text \<open>What may arrive while page \<open>k\<close> is due: its chunks, and anything of earlier pages.\<close>

fun event_due :: "nat \<Rightarrow> rx_event \<Rightarrow> bool" where
  "event_due k (Chunk q) \<longleftrightarrow> q div 64 \<le> k"
| "event_due k (PageEnd p) \<longleftrightarrow> p < k"

definition page_chunks :: "image \<Rightarrow> nat \<Rightarrow> nat set" where
  "page_chunks im k = {q. q div 64 = k \<and> 64 * q < im_size im}"

text \<open>The datagrams of the transfer of page \<open>k\<close>: due events that cover the page's chunks, in any
  order and with any repetition, then the page's PAGE_END.\<close>

definition page_transfer :: "'s sensor_env \<Rightarrow> image \<Rightarrow> u8 \<Rightarrow> nat \<Rightarrow> datagram list \<times> datagram \<Rightarrow> bool" where
  "page_transfer E im t k tr \<longleftrightarrow>
     (\<exists>evs. list_all2 (is_event E im t) evs (fst tr) \<and> list_all (event_due k) evs \<and>
        page_chunks im k \<subseteq> {q. Chunk q \<in> set evs}) \<and>
     is_event E im t (PageEnd k) (snd tr)"

lemma session_size: "session_base E im t st \<Longrightarrow> im_size im < 2 ^ 32"
  by (metis session_base_def unat_u32_less)

lemma chunk_in_page: "64 * q = 4096 * (q div 64) + 64 * (q mod 64)" for q :: nat
proof -
  have "64 * (64 * (q div 64) + q mod 64) = 4096 * (q div 64) + 64 * (q mod 64)" by (simp only: distrib_left)
  then show ?thesis by (simp only: mult_div_mod_eq)
qed

lemma packet_page:
  assumes "is_data_chunk im t q pkt" "im_size im < 2 ^ 32"
  shows "pk_offset pkt - pk_offset pkt mod of_nat PAGE_SIZE = of_nat (4096 * (q div 64))"
    and "unat (pk_offset pkt mod of_nat PAGE_SIZE) div 64 = q mod 64"
proof -
  have o: "pk_offset pkt = of_nat (64 * q)" "64 * q < 2 ^ 32"
    using assms by (auto simp: is_data_chunk_def)
  have m: "64 * q mod 4096 = 64 * (q mod 64)" using mult_mod_right [of 64 q 64] by simp
  have "64 * q - 64 * q mod 4096 = 4096 * (q div 64)"
    unfolding m by (subst chunk_in_page) (rule add_diff_cancel_right')
  then show "pk_offset pkt - pk_offset pkt mod of_nat PAGE_SIZE = of_nat (4096 * (q div 64))"
    unfolding o(1) by (subst of_nat_round_u32) (use o(2) in \<open>simp_all add: PAGE_SIZE_def\<close>)
  have "pk_offset pkt mod of_nat PAGE_SIZE = of_nat (64 * (q mod 64))"
    unfolding o(1) PAGE_SIZE_def by (subst of_nat_mod_u32) (use o(2) m in simp_all)
  moreover have "64 * (q mod 64) < 2 ^ 32" using mod_less_divisor [of 64 q] by simp
  ultimately have "unat (pk_offset pkt mod of_nat PAGE_SIZE) = 64 * (q mod 64)"
    by (simp only: unat_of_nat_u32)
  then show "unat (pk_offset pkt mod of_nat PAGE_SIZE) div 64 = q mod 64" by simp
qed

lemma sector_start_round:
  assumes "unat (be_erase_sector_size (se_backend E)) = 4096 \<or> unat (be_erase_sector_size (se_backend E)) = 8192"
  shows "64 * q - 64 * q mod unat (be_erase_sector_size (se_backend E)) = sector_start E (q div 64)"
  using assms
proof
  assume s: "unat (be_erase_sector_size (se_backend E)) = 4096"
  have "64 * q mod 4096 = 64 * (q mod 64)" using mult_mod_right [of 64 q 64] by simp
  then have "64 * q - 64 * q mod 4096 = 4096 * (q div 64)"
    by (simp only:) (subst chunk_in_page, rule add_diff_cancel_right')
  then show ?thesis by (simp add: sector_start_def s)
next
  assume s: "unat (be_erase_sector_size (se_backend E)) = 8192"
  have "64 * q mod 8192 = 64 * (q mod 128)" using mult_mod_right [of 64 q 128] by simp
  moreover have "q mod 128 = 64 * (q div 64 mod 2) + q mod 64" using mod_mult2_eq [of q 64 2] by simp
  moreover have "4096 * (q div 64) mod 8192 = 4096 * (q div 64 mod 2)"
    using mult_mod_right [of 4096 "q div 64" 2] by simp
  ultimately show ?thesis
    unfolding sector_start_def s by (subst chunk_in_page) simp
qed

text \<open>START and VERIFY.\<close>

definition is_start :: "image \<Rightarrow> u8 \<Rightarrow> u16 \<Rightarrow> datagram \<Rightarrow> bool" where
  "is_start im t sec d \<longleftrightarrow>
     dgram_complete d \<and> pk_type (dgram_packet d) = PKT_TYPE_START \<and>
     unat (pk_offset (dgram_packet d)) = im_size im \<and> pk_length (dgram_packet d) = sec \<and>
     pk_target_slot (dgram_packet d) = t"

definition is_verify :: "'s sensor_env \<Rightarrow> image \<Rightarrow> u8 \<Rightarrow> datagram \<Rightarrow> bool" where
  "is_verify E im t d \<longleftrightarrow>
     dgram_complete d \<and> pk_type (dgram_packet d) = PKT_TYPE_VERIFY \<and> pk_target_slot (dgram_packet d) = t \<and>
     ucast (pk_offset (dgram_packet d)) = crc16_data E (im_bytes im 0 (im_size im)) 0"

text \<open>The datagrams of a whole download: START, then the transfer of every page.\<close>

definition session_datagrams :: "datagram \<Rightarrow> (datagram list \<times> datagram) list \<Rightarrow> datagram list" where
  "session_datagrams d0 trs = d0 # concat (map (\<lambda>(ds, pe). ds @ [pe]) trs)"

definition valid_session ::
    "'s sensor_env \<Rightarrow> image \<Rightarrow> u8 \<Rightarrow> u16 \<Rightarrow> datagram \<Rightarrow> (datagram list \<times> datagram) list \<Rightarrow> bool" where
  "valid_session E im t sec d0 trs \<longleftrightarrow>
     is_start im t sec d0 \<and> im_size im + 4096 \<le> 2 ^ 32 \<and> im_size im \<le> 4096 * length trs \<and>
     (\<forall>i < length trs. page_transfer E im t i (trs ! i))"

lemma sensor_step_start:
  assumes "is_start im t sec d"
  shows "\<exists>net raw fwd. sensor_step E d st = handle_start E net (dgram_packet d) raw fwd st"
  using assms
  by (auto simp: sensor_step_def dgram_packet_def dgram_complete_def sensor_udp_rx_def Let_def is_start_def
      fw_packet_at_def pkt_type_defs split: prod.splits)

lemma sensor_step_verify:
  assumes "is_verify E im t d"
  shows "\<exists>net raw fwd. sensor_step E d st = handle_verify E net (dgram_packet d) raw fwd st"
  using assms
  by (auto simp: sensor_step_def dgram_packet_def dgram_complete_def sensor_udp_rx_def Let_def is_verify_def
      fw_packet_at_def pkt_type_defs split: prod.splits)

lemma effects_irrelevant [simp]:
  "session_base E im t (emit es st) = session_base E im t st"
  "page_open E contents tracked im t k (emit es st) = page_open E contents tracked im t k st"
  "pages_done E contents tracked im t k (emit es st) = pages_done E contents tracked im t k st"
  "page_bitmap (emit es st) = page_bitmap st"
  by (simp_all add: page_open_def pages_done_def session_base_def holds_image_def rest_erased_def emit_def
      cong: nat.case_cong)

lemma forward_irrelevant [simp]:
  "session_base E im t (forward net f raw st) = session_base E im t st"
  "page_open E contents tracked im t k (forward net f raw st) = page_open E contents tracked im t k st"
  "pages_done E contents tracked im t k (forward net f raw st) = pages_done E contents tracked im t k st"
  "page_bitmap (forward net f raw st) = page_bitmap st"
  by (simp_all add: forward_def)

lemma sensor_step_data:
  assumes "is_event E im t (Chunk q) d"
  shows "\<exists>net raw fwd. sensor_step E d st = handle_data E net (dgram_packet d) raw fwd st"
  using assms
  by (auto simp: sensor_step_def dgram_packet_def dgram_complete_def sensor_udp_rx_def Let_def is_data_chunk_def
      fw_packet_at_def pkt_type_defs split: prod.splits)

lemma sensor_step_page_end:
  assumes "is_event E im t (PageEnd k) d"
  shows "\<exists>net raw fwd. sensor_step E d st = handle_page_end E net (dgram_packet d) raw fwd st"
  using assms
  by (auto simp: sensor_step_def dgram_packet_def dgram_complete_def sensor_udp_rx_def Let_def is_page_end_def
      fw_packet_at_def pkt_type_defs split: prod.splits)

lemma send_page_report_fields [simp]:
  "last_crc_committed_page_offset (send_page_report net st) = last_crc_committed_page_offset st"
  "running_fw_crc (send_page_report net st) = running_fw_crc st"
  "page_bitmap (send_page_report net st) = page_bitmap st"
  "ota_session_active (send_page_report net st) = ota_session_active st"
  "ota_target_slot (send_page_report net st) = ota_target_slot st"
  "current_file_size (send_page_report net st) = current_file_size st"
  "current_image_sec_ver (send_page_report net st) = current_image_sec_ver st"
  "current_rx_page_offset (send_page_report net st) = current_rx_page_offset st"
  "backend (send_page_report net st) = backend st"
  "page_0_erased (send_page_report net st) = page_0_erased st"
  by (simp_all add: send_page_report_def schedule_bitmap_send_def emit_def)

lemma im_bytes_append: "m \<le> n \<Longrightarrow> n \<le> l \<Longrightarrow> im_bytes im m n @ im_bytes im n l = im_bytes im m l"
  by (metis im_bytes_def le_add_diff_inverse map_append upt_add_eq_append)

locale sensor_flow = reliable_backend "se_backend E" contents tracked + crc16_laws "crc16_data E"
  for E :: "'s sensor_env" and contents :: "'s \<Rightarrow> u8 \<Rightarrow> mem" and tracked :: "'s \<Rightarrow> u8 \<Rightarrow> u32 \<Rightarrow> bool"
begin

lemma page_crc_loop_reads:
  assumes "\<And>j l. i \<le> j \<Longrightarrow> 0 < l \<Longrightarrow> l \<le> 64 \<Longrightarrow> j + l \<le> n \<Longrightarrow>
      be_bounds_ok (se_backend E) fsz t (p + of_nat j) (of_nat l)"
  shows "\<exists>s'. page_crc_loop E t p n i acc fw s =
      (True, crc16_data E (mem_read (contents s t) (p + of_nat i) (n - i)) acc,
       crc16_data E (mem_read (contents s t) (p + of_nat i) (n - i)) fw, s') \<and>
      contents s' = contents s \<and> tracked s' = tracked s"
  using assms
proof (induction "n - i" arbitrary: i acc fw s rule: less_induct)
  case less
  show ?case
  proof (cases "i < n")
    case False
    then show ?thesis by (simp add: page_crc_loop.simps mem_read_def crc_nil)
  next
    case True
    define chunk where "chunk = (if n - i > 64 then 64 else n - i)"
    have chunk: "0 < chunk" "chunk \<le> 64" "i + chunk \<le> n" using True by (auto simp: chunk_def)
    have b: "be_bounds_ok (se_backend E) fsz t (p + of_nat i) (of_nat chunk)"
      using less.prems chunk by simp
    obtain bs s1 where r: "be_read (se_backend E) t (p + of_nat i) (of_nat chunk) s = (Some bs, s1)"
      using read_succeeds [OF b, of s] by (metis not_None_eq prod.collapse)
    have bs: "bs = mem_read (contents s t) (p + of_nat i) chunk"
      using read_ok [OF r] chunk by (simp add: length_le_64_u16)
    have same: "contents s1 = contents s" "tracked s1 = tracked s" using read_frame [OF r] by auto
    have rd: "mem_read (contents s t) (p + of_nat i) (n - i) =
        bs @ mem_read (contents s t) (p + of_nat (i + 64)) (n - (i + 64))"
    proof (cases "n - i > 64")
      case True
      then show ?thesis
        using mem_read_split [of 64 "n - i" "contents s t" "p + of_nat i"]
        by (simp add: bs chunk_def add.assoc)
    next
      case False
      then show ?thesis by (simp add: bs chunk_def mem_read_def)
    qed
    have "\<exists>s'. page_crc_loop E t p n (i + 64) (crc16_data E bs acc) (crc16_data E bs fw) s1 =
        (True, crc16_data E (mem_read (contents s1 t) (p + of_nat (i + 64)) (n - (i + 64))) (crc16_data E bs acc),
         crc16_data E (mem_read (contents s1 t) (p + of_nat (i + 64)) (n - (i + 64))) (crc16_data E bs fw), s') \<and>
        contents s' = contents s1 \<and> tracked s' = tracked s1"
      using True less.prems by (intro less.hyps) auto
    moreover have "page_crc_loop E t p n i acc fw s =
        page_crc_loop E t p n (i + 64) (crc16_data E bs acc) (crc16_data E bs fw) s1"
      using True r by (subst page_crc_loop.simps) (simp add: chunk_def [symmetric])
    ultimately show ?thesis by (simp add: rd crc_append same)
  qed
qed

abbreviation (input) "B \<equiv> se_backend E"
abbreviation (input) "esz \<equiv> unat (be_erase_sector_size B)"

lemma sector_sizes: "esz = 4096 \<or> esz = 8192"
  using sector_size by auto

lemma packet_sector:
  assumes "is_data_chunk im t q pkt" "im_size im < 2 ^ 32"
  shows "pk_offset pkt - pk_offset pkt mod be_erase_sector_size B = of_nat (sector_start E (q div 64))"
proof -
  have o: "pk_offset pkt = of_nat (64 * q)" "64 * q < 2 ^ 32"
    using assms by (auto simp: is_data_chunk_def)
  have "be_erase_sector_size B = of_nat esz" by simp
  then have "pk_offset pkt - pk_offset pkt mod be_erase_sector_size B = of_nat (64 * q) - of_nat (64 * q) mod of_nat esz"
    by (simp only: o(1))
  also have "\<dots> = of_nat (64 * q - 64 * q mod esz)"
    using o(2) sector_sizes by (intro of_nat_round_u32) auto
  finally show ?thesis by (simp only: sector_start_round [OF sector_sizes])
qed

lemma sector_start_facts:
  assumes "4096 * k < 2 ^ 32"
  shows "sector_start E k \<le> 4096 * k" "4096 * Suc k \<le> sector_start E k + esz"
    "sector_start E k + esz \<le> 2 ^ 32" "sector_aligned B (of_nat (sector_start E k))"
    "sector_start E k < 2 ^ 32" "sector_start E k mod esz = 0"
proof -
  show le: "sector_start E k \<le> 4096 * k" by (simp add: sector_start_def)
  have m: "4096 * k mod esz \<le> 4096 * k" by simp
  have "4096 * k mod esz + 4096 \<le> esz"
    using sector_sizes mult_mod_right [of 4096 k 2] by auto
  then show "4096 * Suc k \<le> sector_start E k + esz" using m by (simp add: sector_start_def)
  show al: "sector_start E k mod esz = 0"
    unfolding sector_start_def by (metis minus_mod_eq_mult_div mod_mult_self1_is_0)
  then obtain n where n: "sector_start E k = esz * n" by auto
  show lt: "sector_start E k < 2 ^ 32" using le assms by simp
  show "sector_start E k + esz \<le> 2 ^ 32"
    using lt sector_sizes unfolding n by auto
  show "sector_aligned B (of_nat (sector_start E k))"
    using lt al by (simp add: sector_aligned_def unat_of_nat_u32)
qed

lemma chunk_bounds:
  assumes "session_base E im t st" "is_data_chunk im t q pkt"
  shows "be_bounds_ok B (current_file_size st) t (pk_offset pkt) (pk_length pkt)" "0 < unat (pk_length pkt)"
    "unat (pk_length pkt) \<le> 64" "unat (pk_offset pkt) = 64 * q" "64 * q + unat (pk_length pkt) \<le> im_size im"
proof -
  have q: "64 * q < im_size im" "im_size im < 2 ^ 32" "unat (pk_length pkt) = min 64 (im_size im - 64 * q)"
      "pk_offset pkt = of_nat (64 * q)"
    using assms session_size by (auto simp: is_data_chunk_def)
  then show len: "0 < unat (pk_length pkt)" "unat (pk_length pkt) \<le> 64"
    and fits: "64 * q + unat (pk_length pkt) \<le> im_size im" by simp_all
  have "64 * q < 2 ^ 32" using q(1,2) by simp
  then show off: "unat (pk_offset pkt) = 64 * q" by (simp only: q(4) unat_of_nat_u32)
  from assms(1) len(1) fits off show "be_bounds_ok B (current_file_size st) t (pk_offset pkt) (pk_length pkt)"
    by (simp add: session_base_def)
qed

text \<open>Programming chunk \<open>q\<close> over a page whose bytes are the image's or erased.\<close>

lemma chunk_programmed:
  assumes pkt: "is_data_chunk im t q pkt" and base: "session_base E im t st" and j: "j < 2 ^ 32"
  shows "mem_program (pk_offset pkt) (buf_bytes (pk_data pkt) 0 (unat (pk_length pkt))) m (of_nat j) =
    (if j div 64 = q \<and> j < im_size im then m (of_nat j) AND im_byte im j else m (of_nat j))"
proof -
  note b = chunk_bounds [OF base pkt]
  have o: "pk_offset pkt = of_nat (64 * q)" using pkt by (simp add: is_data_chunk_def)
  have lt: "64 * q < 2 ^ 32" "64 * q + unat (pk_length pkt) \<le> 2 ^ 32"
    using b(5) b(2) session_size [OF base] by simp_all
  have "64 * q \<le> j \<and> j < 64 * q + unat (pk_length pkt) \<longleftrightarrow> j div 64 = q \<and> j < im_size im"
  proof -
    have "unat (pk_length pkt) = min 64 (im_size im - 64 * q)" "64 * q < im_size im"
      using pkt by (simp_all add: is_data_chunk_def)
    moreover have "j div 64 = q \<longleftrightarrow> 64 * q \<le> j \<and> j < 64 * q + 64" by auto
    moreover have "64 * q \<le> j \<and> j < 64 * q + min 64 (n - 64 * q) \<longleftrightarrow> (64 * q \<le> j \<and> j < 64 * q + 64) \<and> j < n"
      if "64 * q < n" for q n using that by (auto simp: min_def)
    ultimately show ?thesis by simp
  qed
  then have reg: "in_region (pk_offset pkt) (unat (pk_length pkt)) (of_nat j) \<longleftrightarrow> j div 64 = q \<and> j < im_size im"
    unfolding o by (simp only: in_region_of_nats [OF lt j])
  show ?thesis
  proof (cases "j div 64 = q \<and> j < im_size im")
    case True
    then have i: "64 * q \<le> j" by auto
    have "unat (of_nat j - pk_offset pkt) = j - 64 * q"
      unfolding o using i j by (simp only: of_nat_diff [symmetric]) (simp only: unat_of_nat_u32 less_imp_diff_less)
    moreover have "j - 64 * q < unat (pk_length pkt)"
      using reg True calculation by (simp add: in_region_def)
    moreover have "pk_data pkt (j - 64 * q) = im_byte im j"
      using pkt calculation(2) i by (simp add: is_data_chunk_def)
    ultimately show ?thesis using reg True by (simp add: mem_program_def)
  next
    case False
    then show ?thesis using reg by (auto simp: mem_program_def)
  qed
qed

lemma page_of_byte: "4096 * k \<le> j \<Longrightarrow> j < 4096 * Suc k \<Longrightarrow> j div 64 div 64 = k" for j :: nat
  by (simp add: div_mult2_eq [symmetric])

lemma same_chunk: "q div 64 = k \<Longrightarrow> q' div 64 = k \<Longrightarrow> q mod 64 = q' mod 64 \<longleftrightarrow> q = q'" for q :: nat
  by (metis mult_div_mod_eq)

lemma store_chunk:
  assumes pkt: "is_data_chunk im t q pkt" and qk: "q div 64 = k"
    and opn: "page_open E contents tracked im t k st"
  shows "page_open E contents tracked im t k (rx_store_chunk E pkt st)"
    and "\<And>q'. q' div 64 = k \<Longrightarrow> bitmap_bit (page_bitmap (rx_store_chunk E pkt st)) (q' mod 64) \<longleftrightarrow>
      q' = q \<or> bitmap_bit (page_bitmap st) (q' mod 64)"
proof -
  have base: "session_base E im t st" using opn by (simp add: page_open_def)
  note sz = session_size [OF base] and b = chunk_bounds [OF base pkt]
  have idx: "unat (pk_offset pkt mod of_nat PAGE_SIZE) div 64 = q mod 64" by (rule packet_page [OF pkt sz])
  let ?data = "buf_bytes (pk_data pkt) 0 (unat (pk_length pkt))"
  have "page_open E contents tracked im t k (rx_store_chunk E pkt st) \<and>
    (\<forall>q'. q' div 64 = k \<longrightarrow> bitmap_bit (page_bitmap (rx_store_chunk E pkt st)) (q' mod 64) \<longleftrightarrow>
      q' = q \<or> bitmap_bit (page_bitmap st) (q' mod 64))"
  proof (cases "bitmap_bit (page_bitmap st) (q mod 64)")
    case True
    then have "rx_store_chunk E pkt st = st" by (simp add: rx_store_chunk_def idx)
    then show ?thesis using opn True by auto
  next
    case False
    have t: "ota_target_slot st = t" and bm: "length (page_bitmap st) = 8" using base by (simp_all add: session_base_def)
    have "64 * q mod 64 = 0" by simp
    then have "fst (be_write B t (pk_offset pkt) ?data (pk_length pkt) (backend st))"
      using b by (intro write_succeeds [OF b(1)]) simp_all
    then obtain s' where w: "be_write B t (pk_offset pkt) ?data (pk_length pkt) (backend st) = (True, s')"
      by (metis prod.collapse)
    let ?st = "st\<lparr>page_bitmap := bitmap_set (q mod 64) (page_bitmap st), backend := s'\<rparr>"
    have st': "rx_store_chunk E pkt st = ?st"
      using False w b(2) by (simp add: rx_store_chunk_def idx t Let_def word_nat)
    have c: "contents s' t (of_nat j) =
        (if j div 64 = q \<and> j < im_size im then contents (backend st) t (of_nat j) AND im_byte im j
         else contents (backend st) t (of_nat j))" if "j < 2 ^ 32" for j
      using write_ok [OF w] chunk_programmed [OF pkt base that] by simp
    have tr: "tracked s' t = tracked (backend st) t" using write_tracked [OF w] by simp
    have bits: "bitmap_bit (page_bitmap ?st) (q' mod 64) \<longleftrightarrow> q' = q \<or> bitmap_bit (page_bitmap st) (q' mod 64)"
      if "q' div 64 = k" for q'
      using same_chunk [OF that qk] by (simp add: bm)
    have page: "contents s' t (of_nat j) = im_byte im j \<or>
        (\<not> bitmap_bit (page_bitmap ?st) (j div 64 mod 64) \<and> contents s' t (of_nat j) = 0xFF)"
      if j: "4096 * k \<le> j" "j < page_end_offset im (Suc k)" for j
    proof -
      have jj: "j < 2 ^ 32" "j < im_size im" "j div 64 div 64 = k"
        using j sz by (simp_all add: page_end_offset_def page_of_byte)
      have "contents (backend st) t (of_nat j) = im_byte im j \<or>
          (\<not> bitmap_bit (page_bitmap st) (j div 64 mod 64) \<and> contents (backend st) t (of_nat j) = 0xFF)"
        using opn j by (simp add: page_open_def)
      then show ?thesis
        using jj(2) bits [OF jj(3)] by (auto simp: c [OF jj(1)])
    qed
    have low: "contents s' t (of_nat j) = contents (backend st) t (of_nat j)" if "j < 4096 * k" for j
    proof -
      have "j div 64 \<noteq> q" using that qk by auto
      moreover have "j < 2 ^ 32" using that opn sz by (simp add: page_open_def)
      ultimately show ?thesis by (simp add: c)
    qed
    have high: "contents s' t (of_nat j) = contents (backend st) t (of_nat j)"
      if "4096 * Suc k \<le> j" "j < 2 ^ 32" for j
    proof -
      have "j div 64 \<noteq> q" using that qk by auto
      with that show ?thesis by (simp add: c)
    qed
    have k: "4096 * k < 2 ^ 32" using opn sz by (simp add: page_open_def)
    have "page_open E contents tracked im t k ?st"
      using opn page low high tr sector_start_facts(3) [OF k] bm
      by (auto simp: page_open_def session_base_def holds_image_def rest_erased_def Let_def page_end_offset_def)
    then show ?thesis using bits st' by auto
  qed
  then show "page_open E contents tracked im t k (rx_store_chunk E pkt st)"
    and "\<And>q'. q' div 64 = k \<Longrightarrow> bitmap_bit (page_bitmap (rx_store_chunk E pkt st)) (q' mod 64) \<longleftrightarrow>
      q' = q \<or> bitmap_bit (page_bitmap st) (q' mod 64)"
    by blast+
qed

lemma page_lt_u32: "is_data_chunk im t q pkt \<Longrightarrow> im_size im < 2 ^ 32 \<Longrightarrow> 4096 * (q div 64) < 2 ^ 32"
  using chunk_in_page [of q] by (simp add: is_data_chunk_def)

lemma select_current:
  assumes pkt: "is_data_chunk im t q pkt" and sz: "im_size im < 2 ^ 32"
    and cur: "current_rx_page_offset st = of_nat (4096 * p)" "4096 * p < 2 ^ 32"
  shows "q div 64 = p \<Longrightarrow> rx_select_page E pkt st = (True, st)"
    and "q div 64 < p \<Longrightarrow> rx_select_page E pkt st = (False, st)"
  using packet_page(1) [OF pkt sz] page_lt_u32 [OF pkt sz] cur page_not_no_page [of p]
  by (simp_all add: rx_select_page_def Let_def of_nat_less_u32 del: of_nat_mult of_nat_numeral)

lemma handle_data_eq:
  assumes base: "session_base E im t st" and pkt: "is_data_chunk im t q pkt"
  shows "handle_data E net pkt raw fwd st =
    (case rx_select_page E pkt (forward net fwd raw st) of (False, st) \<Rightarrow> st | (True, st) \<Rightarrow> rx_store_chunk E pkt st)"
  using base pkt chunk_bounds(1) [OF base pkt]
  by (auto simp: handle_data_def Let_def session_base_def is_data_chunk_def forward_def emit_def)

lemma sector_start_Suc:
  "sector_start E (Suc p) = 4096 * Suc p \<or> sector_start E (Suc p) = sector_start E p \<and> 4096 < esz"
  using sector_sizes
proof
  assume s: "esz = 8192"
  have m: "4096 * n mod 8192 = 4096 * (n mod 2)" for n :: nat using mult_mod_right [of 4096 n 2] by simp
  have "sector_start E n = 4096 * n - 4096 * (n mod 2)" for n by (simp only: sector_start_def s m)
  then show ?thesis using s by (cases "p mod 2 = 0") (simp_all add: mod_Suc)
qed (simp add: sector_start_def)

text \<open>Erasing the sector of the next page: the page and what follows it in the sector are erased,
  what precedes the page stays.\<close>

lemma erase_next_page:
  assumes base: "session_base E im t st" and more: "4096 * Suc p < im_size im"
    and rest: "rest_erased E contents tracked t p (4096 * Suc p) st"
    and pkt: "is_data_chunk im t q pkt" "q div 64 = Suc p"
  obtains s' where "be_erase_sector B t (of_nat (sector_start E (Suc p))) (backend st) = (True, s')"
    "\<And>j. j < 4096 * Suc p \<Longrightarrow> contents s' t (of_nat j) = contents (backend st) t (of_nat j)"
    "\<And>j. 4096 * Suc p \<le> j \<Longrightarrow> j < sector_start E (Suc p) + esz \<Longrightarrow> contents s' t (of_nat j) = 0xFF"
    "4096 < esz \<Longrightarrow> tracked s' t (of_nat (sector_start E (Suc p)))"
proof -
  let ?s = "sector_start E (Suc p)"
  note b = chunk_bounds [OF base pkt(1)]
  have k: "4096 * Suc p < 2 ^ 32" using more session_size [OF base] by simp
  then have "4096 * p < 2 ^ 32" by simp
  note kp = sector_start_facts [OF k] and pp = sector_start_facts [OF this]
  have "unat (of_nat ?s :: u32) \<le> unat (pk_offset pkt)"
    using kp(1,5) b(4) chunk_in_page [of q] pkt(2) by (simp add: unat_of_nat_u32)
  then have "fst (be_erase_sector B t (of_nat ?s) (backend st))"
    by (rule erase_succeeds [OF b(1,2) kp(4)])
  then obtain s' where e: "be_erase_sector B t (of_nat ?s) (backend st) = (True, s')" by (metis prod.collapse)
  have tr: "tracked s' t (of_nat ?s)" if "4096 < esz"
    using erase_tracks [OF e] that by (simp add: PAGE_SIZE_def)
  show ?thesis
  proof (cases "tracked (backend st) t (of_nat ?s)")
    case True
    then have "4096 < esz" using small_untracked [of "backend st" t] by (fastforce simp: PAGE_SIZE_def)
    then have "tracked (backend st) t (of_nat (sector_start E p))"
      using rest by (simp add: rest_erased_def Let_def)
    then have "?s = sector_start E p"
      using tracked_unique [OF True] kp(5) pp(5) of_nat_eq_u32 by blast
    with rest erase_tracked [OF e True] e tr show ?thesis
      by (intro that [of s']) (auto simp: rest_erased_def Let_def)
  next
    case False
    then have s: "?s = 4096 * Suc p"
      using sector_start_Suc [of p] rest by (auto simp: rest_erased_def Let_def)
    have c: "contents s' t (of_nat j) = (if ?s \<le> j \<and> j < ?s + esz then 0xFF else contents (backend st) t (of_nat j))"
      if "j < 2 ^ 32" for j
      using erase_untracked [OF e False kp(4)] in_region_of_nats [OF kp(5,3) that] by (simp add: mem_erase_def)
    show ?thesis
    proof (rule that [OF e _ _ tr])
      show "contents s' t (of_nat j) = contents (backend st) t (of_nat j)" if "j < 4096 * Suc p" for j
        using that k s by (subst c) simp_all
      show "contents s' t (of_nat j) = 0xFF" if "4096 * Suc p \<le> j" "j < ?s + esz" for j
        using that kp(3) s by (subst c) simp_all
    qed
  qed
qed

lemma select_first:
  assumes dn: "pages_done E contents tracked im t k st" and pkt: "is_data_chunk im t q pkt" and qk: "q div 64 = k"
  obtains st' where "rx_select_page E pkt st = (True, st')" "page_open E contents tracked im t k st'"
    "page_bitmap st' = replicate 8 0"
proof -
  have base: "session_base E im t st" using dn by (simp add: pages_done_def)
  note sz = session_size [OF base]
  have more: "4096 * k < im_size im" using pkt chunk_in_page [of q] qk by (simp add: is_data_chunk_def)
  note po = packet_page(1) [OF pkt sz, unfolded qk] and so = packet_sector [OF pkt sz, unfolded qk]
  show ?thesis
  proof (cases k)
    case 0
    let ?st = "st\<lparr>current_rx_page_offset := 0, page_bitmap := replicate 8 0\<rparr>"
    have "rx_select_page E pkt st = (True, ?st)"
      using dn po base by (simp add: 0 pages_done_def rx_select_page_def Let_def session_base_def)
    moreover have "page_open E contents tracked im t k ?st"
      using dn base more sector_start_facts(2) [of 0]
      by (auto simp: 0 pages_done_def page_open_def session_base_def page_end_offset_def NO_PAGE_def
          holds_image_def rest_erased_def Let_def)
    ultimately show ?thesis by (intro that [of ?st]) simp_all
  next
    case (Suc p)
    have rest: "rest_erased E contents tracked t p (4096 * Suc p) st"
      and cur: "current_rx_page_offset st = of_nat (4096 * p)" "last_crc_committed_page_offset st = of_nat (4096 * p)"
      using dn by (simp_all add: Suc pages_done_def)
    obtain s' where e: "be_erase_sector B t (of_nat (sector_start E (Suc p))) (backend st) = (True, s')"
      "\<And>j. j < 4096 * Suc p \<Longrightarrow> contents s' t (of_nat j) = contents (backend st) t (of_nat j)"
      "\<And>j. 4096 * Suc p \<le> j \<Longrightarrow> j < sector_start E (Suc p) + esz \<Longrightarrow> contents s' t (of_nat j) = 0xFF"
      "4096 < esz \<Longrightarrow> tracked s' t (of_nat (sector_start E (Suc p)))"
      using erase_next_page [OF base more [unfolded Suc] rest pkt qk [unfolded Suc]] by metis
    let ?st = "st\<lparr>current_rx_page_offset := of_nat (4096 * Suc p), page_bitmap := replicate 8 0, backend := s'\<rparr>"
    have lt: "4096 * Suc p < 2 ^ 32" "4096 * p < 2 ^ 32" using more sz Suc by simp_all
    then have next_page: "(of_nat (4096 * p) :: u32) < of_nat (4096 * Suc p)" "(of_nat (4096 * p) :: u32) \<noteq> of_nat (4096 * Suc p)"
      by (simp_all only: of_nat_less_u32 of_nat_eq_u32) simp_all
    have t: "ota_target_slot st = t" using base by (simp add: session_base_def)
    have "rx_select_page E pkt st = (True, ?st)"
      using po so cur next_page(1) e(1) page_not_no_page [of p]
      by (simp add: Suc rx_select_page_def Let_def t del: of_nat_mult of_nat_numeral of_nat_Suc mult_Suc_right)
    moreover have "page_open E contents tracked im t k ?st"
      using dn base more e(2-4) next_page(2) cur sector_start_facts(2) [OF lt(1)]
      by (auto simp: Suc pages_done_def page_open_def session_base_def page_end_offset_def
          holds_image_def rest_erased_def Let_def simp del: of_nat_mult of_nat_numeral of_nat_Suc)
    ultimately show ?thesis by (intro that [of ?st]) simp_all
  qed
qed

lemma chunk_when_open:
  assumes ev: "is_event E im t (Chunk q) d" and opn: "page_open E contents tracked im t k st"
  shows "q div 64 = k \<Longrightarrow> page_open E contents tracked im t k (sensor_step E d st)"
    and "q div 64 = k \<Longrightarrow> q' div 64 = k \<Longrightarrow> bitmap_bit (page_bitmap (sensor_step E d st)) (q' mod 64) \<longleftrightarrow>
      q' = q \<or> bitmap_bit (page_bitmap st) (q' mod 64)"
    and "q div 64 < k \<Longrightarrow> page_open E contents tracked im t k (sensor_step E d st) \<and>
      page_bitmap (sensor_step E d st) = page_bitmap st"
proof -
  have base: "session_base E im t st" using opn by (simp add: page_open_def)
  note sz = session_size [OF base]
  have pkt: "is_data_chunk im t q (dgram_packet d)" using ev by simp
  obtain net raw fwd where s: "sensor_step E d st = handle_data E net (dgram_packet d) raw fwd st"
    using sensor_step_data [OF ev] by blast
  let ?st = "forward net fwd raw st"
  have opn': "page_open E contents tracked im t k ?st" using opn by simp
  then have cur: "current_rx_page_offset ?st = of_nat (4096 * k)" "4096 * k < 2 ^ 32"
    using sz by (auto simp: page_open_def)
  note sel = select_current [OF pkt sz cur]
  note h = handle_data_eq [OF base pkt, of net raw fwd]
  show "page_open E contents tracked im t k (sensor_step E d st)" if "q div 64 = k"
    using store_chunk(1) [OF pkt that opn'] by (simp add: s h sel(1) [OF that])
  show "bitmap_bit (page_bitmap (sensor_step E d st)) (q' mod 64) \<longleftrightarrow>
      q' = q \<or> bitmap_bit (page_bitmap st) (q' mod 64)" if "q div 64 = k" "q' div 64 = k"
    using store_chunk(2) [OF pkt that(1) opn' that(2)] by (simp add: s h sel(1) [OF that(1)])
  show "page_open E contents tracked im t k (sensor_step E d st) \<and>
      page_bitmap (sensor_step E d st) = page_bitmap st" if "q div 64 < k"
    using opn by (simp add: s h sel(2) [OF that])
qed

lemma chunk_when_done:
  assumes ev: "is_event E im t (Chunk q) d" and dn: "pages_done E contents tracked im t k st"
  shows "q div 64 = k \<Longrightarrow> page_open E contents tracked im t k (sensor_step E d st) \<and>
      bitmap_bit (page_bitmap (sensor_step E d st)) (q mod 64)"
    and "q div 64 < k \<Longrightarrow> pages_done E contents tracked im t k (sensor_step E d st)"
proof -
  have base: "session_base E im t st" using dn by (simp add: pages_done_def)
  note sz = session_size [OF base]
  have pkt: "is_data_chunk im t q (dgram_packet d)" using ev by simp
  obtain net raw fwd where s: "sensor_step E d st = handle_data E net (dgram_packet d) raw fwd st"
    using sensor_step_data [OF ev] by blast
  let ?st = "forward net fwd raw st"
  have dn': "pages_done E contents tracked im t k ?st" using dn by simp
  note h = handle_data_eq [OF base pkt, of net raw fwd]
  show "page_open E contents tracked im t k (sensor_step E d st) \<and>
      bitmap_bit (page_bitmap (sensor_step E d st)) (q mod 64)" if qk: "q div 64 = k"
  proof -
    obtain st' where sel: "rx_select_page E (dgram_packet d) ?st = (True, st')"
      and opn: "page_open E contents tracked im t k st'"
      using select_first [OF dn' pkt qk] by blast
    show ?thesis
      using store_chunk(1) [OF pkt qk opn] store_chunk(2) [OF pkt qk opn qk] by (simp add: s h sel)
  qed
  show "pages_done E contents tracked im t k (sensor_step E d st)" if qk: "q div 64 < k"
  proof -
    obtain p where p: "k = Suc p" using qk by (cases k) auto
    have cur: "current_rx_page_offset ?st = of_nat (4096 * p)" "4096 * p < 2 ^ 32"
      using dn' sz by (auto simp: p pages_done_def)
    note sel = select_current [OF pkt sz cur]
    show ?thesis
    proof (cases "q div 64 = p")
      case True
      have "64 * q < im_size im" using pkt by (simp add: is_data_chunk_def)
      then have "bitmap_bit (page_bitmap st) (q mod 64)" using dn True by (simp add: p pages_done_def)
      then have "rx_store_chunk E (dgram_packet d) ?st = ?st"
        by (simp add: rx_store_chunk_def packet_page(2) [OF pkt sz])
      with dn' show ?thesis by (simp add: s h sel(1) [OF True])
    next
      case False
      with qk p have "q div 64 < p" by simp
      with dn' show ?thesis by (simp add: s h sel(2))
    qed
  qed
qed

lemma report_irrelevant [simp]:
  "pages_done E contents tracked im t k (send_page_report net st) = pages_done E contents tracked im t k st"
  "page_open E contents tracked im t k (send_page_report net st) = page_open E contents tracked im t k st"
  by (simp_all add: send_page_report_def schedule_bitmap_send_def)
    (simp_all add: page_open_def pages_done_def session_base_def holds_image_def rest_erased_def
      cong: nat.case_cong)

lemma page_read_back:
  assumes "holds_image contents im t (Suc k) st" "4096 * k < im_size im" "im_size im < 2 ^ 32"
  shows "mem_read (contents (backend st) t) (of_nat (4096 * k)) (page_end_offset im (Suc k) - 4096 * k) =
    im_bytes im (4096 * k) (page_end_offset im (Suc k))"
proof (rule nth_equalityI)
  fix i assume "i < length (mem_read (contents (backend st) t) (of_nat (4096 * k)) (page_end_offset im (Suc k) - 4096 * k))"
  then have i: "i < page_end_offset im (Suc k) - 4096 * k" by simp
  have "(of_nat (4096 * k) :: u32) + of_nat i = of_nat (4096 * k + i)" by simp
  with i show "mem_read (contents (backend st) t) (of_nat (4096 * k)) (page_end_offset im (Suc k) - 4096 * k) ! i =
      im_bytes im (4096 * k) (page_end_offset im (Suc k)) ! i"
    using assms(1) by (simp add: im_bytes_def holds_image_def del: of_nat_add of_nat_mult of_nat_numeral)
qed (simp add: im_bytes_def)

definition at_page :: "image \<Rightarrow> u8 \<Rightarrow> nat \<Rightarrow> 's sensor_state \<Rightarrow> bool" where
  "at_page im t k st \<longleftrightarrow>
     session_base E im t st \<and> 4096 * k < im_size im \<and> current_rx_page_offset st = of_nat (4096 * k)"

lemma at_page_open: "page_open E contents tracked im t k st \<Longrightarrow> at_page im t k st"
  and at_page_done: "pages_done E contents tracked im t (Suc k) st \<Longrightarrow> at_page im t k st"
  by (simp_all add: at_page_def page_open_def pages_done_def)

lemma rx_page_len_open:
  assumes opn: "at_page im t k st" and sz: "im_size im + 4096 \<le> 2 ^ 32"
  shows "unat (rx_page_len st) = page_end_offset im (Suc k) - 4096 * k"
proof -
  have k: "4096 * k < im_size im" and cur: "current_rx_page_offset st = of_nat (4096 * k)"
    and fs: "unat (current_file_size st) = im_size im"
    using opn by (simp_all add: at_page_def session_base_def)
  have "4096 * k < 2 ^ 32" using k sz by simp
  then have c: "unat (current_rx_page_offset st) = 4096 * k" by (simp only: cur unat_of_nat_u32)
  have next_page: "unat (current_rx_page_offset st + of_nat PAGE_SIZE) = 4096 * Suc k"
    using k sz by (subst unat_plus_u32) (simp_all add: c PAGE_SIZE_def)
  have small: "unat (ucast w :: u16) = unat w" if "unat w < 65536" for w :: u32
    using that by (simp add: unsigned_ucast_eq take_bit_nat_eq_self)
  show ?thesis
  proof (cases "im_size im < 4096 * Suc k")
    case True
    have "unat (current_file_size st - current_rx_page_offset st) = im_size im - 4096 * k"
      using k by (subst unat_sub) (simp_all add: word_nat c fs)
    moreover have "current_rx_page_offset st + of_nat PAGE_SIZE > current_file_size st"
      using True by (simp only: word_less_nat_alt next_page fs)
    ultimately show ?thesis
      using True by (simp add: rx_page_len_def small page_end_offset_def)
  next
    case False
    then have "\<not> current_rx_page_offset st + of_nat PAGE_SIZE > current_file_size st"
      by (simp only: word_less_nat_alt next_page fs simp_thms)
    then show ?thesis
      using False by (simp add: rx_page_len_def page_end_offset_def PAGE_SIZE_def)
  qed
qed

text \<open>What the page-end check reads: the page in storage, whatever it holds.\<close>

lemma page_end_loop:
  assumes opn: "at_page im t k st" and sz: "im_size im + 4096 \<le> 2 ^ 32"
  defines "bs \<equiv> mem_read (contents (backend st) t) (of_nat (4096 * k)) (page_end_offset im (Suc k) - 4096 * k)"
  obtains s' where "be_bounds_ok B (current_file_size st) t (current_rx_page_offset st) (rx_page_len st)"
    "page_crc_loop E t (current_rx_page_offset st) (unat (rx_page_len st)) 0 0 (running_fw_crc st) (backend st) =
       (True, crc16_data E bs 0, crc16_data E bs (running_fw_crc st), s')"
    "contents s' = contents (backend st)" "tracked s' = tracked (backend st)"
proof -
  let ?n = "page_end_offset im (Suc k) - 4096 * k"
  have k: "4096 * k < im_size im" and cur: "current_rx_page_offset st = of_nat (4096 * k)"
    and base: "session_base E im t st"
    using opn by (simp_all add: at_page_def)
  have n: "0 < ?n" "4096 * k + ?n \<le> im_size im" using k by (simp_all add: page_end_offset_def)
  have b: "be_bounds_ok B (current_file_size st) t (of_nat (4096 * k) + of_nat j) (of_nat l)"
    if "0 < l" "l \<le> 64" "j + l \<le> ?n" for j l
  proof -
    have "4096 * k + j < 2 ^ 32" using that n sz by simp
    then have "unat (of_nat (4096 * k) + of_nat j :: u32) = 4096 * k + j"
      by (simp only: of_nat_add [symmetric] unat_of_nat_u32)
    then show ?thesis using base that n by (simp add: session_base_def length_le_64_u16)
  qed
  have len: "unat (rx_page_len st) = ?n" by (rule rx_page_len_open [OF opn sz])
  have "unat (current_rx_page_offset st) = 4096 * k"
    unfolding cur by (rule unat_of_nat_u32) (use k sz in simp)
  then have b0: "be_bounds_ok B (current_file_size st) t (current_rx_page_offset st) (rx_page_len st)"
    using base n len by (simp add: session_base_def)
  have "\<exists>s'. page_crc_loop E t (of_nat (4096 * k)) ?n 0 0 (running_fw_crc st) (backend st) =
       (True, crc16_data E (mem_read (contents (backend st) t) (of_nat (4096 * k) + of_nat 0) (?n - 0)) 0,
        crc16_data E (mem_read (contents (backend st) t) (of_nat (4096 * k) + of_nat 0) (?n - 0)) (running_fw_crc st), s') \<and>
      contents s' = contents (backend st) \<and> tracked s' = tracked (backend st)"
    using b by (intro page_crc_loop_reads)
  then obtain s' where "page_crc_loop E t (of_nat (4096 * k)) ?n 0 0 (running_fw_crc st) (backend st) =
       (True, crc16_data E bs 0, crc16_data E bs (running_fw_crc st), s')"
      "contents s' = contents (backend st)" "tracked s' = tracked (backend st)"
    unfolding bs_def by auto
  with b0 show ?thesis by (intro that [of s']) (simp_all only: cur len)
qed

lemma handle_page_end_eq:
  assumes opn: "at_page im t k st" and sz: "im_size im + 4096 \<le> 2 ^ 32"
    and pkt: "pk_offset pkt = of_nat (4096 * k)" "pk_target_slot pkt = t"
  defines "bs \<equiv> mem_read (contents (backend st) t) (of_nat (4096 * k)) (page_end_offset im (Suc k) - 4096 * k)"
  obtains s' where "contents s' = contents (backend st)" "tracked s' = tracked (backend st)"
    "handle_page_end E net pkt raw fwd st = send_page_report net
       (if crc16_data E bs 0 = pk_length pkt
        then if last_crc_committed_page_offset st \<noteq> of_nat (4096 * k)
          then (forward net fwd raw st)\<lparr>backend := s', running_fw_crc := crc16_data E bs (running_fw_crc st),
                 last_crc_committed_page_offset := of_nat (4096 * k)\<rparr>
          else (forward net fwd raw st)\<lparr>backend := s'\<rparr>
        else (forward net fwd raw st)\<lparr>backend := s', page_bitmap := replicate 8 0\<rparr>)"
proof -
  let ?st = "forward net fwd raw st"
  have opn': "at_page im t k ?st" using opn by (simp add: at_page_def) (simp add: forward_def emit_def)
  have same: "backend ?st = backend st" "running_fw_crc ?st = running_fw_crc st"
      "last_crc_committed_page_offset ?st = last_crc_committed_page_offset st"
    by (simp_all add: forward_def emit_def)
  obtain s' where l: "be_bounds_ok B (current_file_size ?st) t (current_rx_page_offset ?st) (rx_page_len ?st)"
    "page_crc_loop E t (current_rx_page_offset ?st) (unat (rx_page_len ?st)) 0 0 (running_fw_crc st) (backend st) =
       (True, crc16_data E bs 0, crc16_data E bs (running_fw_crc st), s')"
    and s': "contents s' = contents (backend st)" "tracked s' = tracked (backend st)"
    using page_end_loop [OF opn' sz] unfolding bs_def same by metis
  have f: "ota_session_active ?st" "ota_target_slot ?st = t" "current_rx_page_offset ?st = of_nat (4096 * k)"
    using opn' by (simp_all add: at_page_def session_base_def)
  have "handle_page_end E net pkt raw fwd st = send_page_report net
       (if crc16_data E bs 0 = pk_length pkt
        then if last_crc_committed_page_offset st \<noteq> of_nat (4096 * k)
          then ?st\<lparr>backend := s', running_fw_crc := crc16_data E bs (running_fw_crc st),
                 last_crc_committed_page_offset := of_nat (4096 * k)\<rparr>
          else ?st\<lparr>backend := s'\<rparr>
        else ?st\<lparr>backend := s', page_bitmap := replicate 8 0\<rparr>)"
    using l f by (simp add: handle_page_end_def Let_def pkt same)
  with s' show ?thesis by (rule that)
qed

lemma page_complete_holds:
  assumes opn: "page_open E contents tracked im t k st"
    and all: "\<And>q. q \<in> page_chunks im k \<Longrightarrow> bitmap_bit (page_bitmap st) (q mod 64)"
  shows "holds_image contents im t (Suc k) st"
  unfolding holds_image_def
proof (intro allI impI)
  fix j assume j: "j < page_end_offset im (Suc k)"
  show "contents (backend st) t (of_nat j) = im_byte im j"
  proof (cases "j < 4096 * k")
    case True
    with opn j show ?thesis by (simp add: page_open_def holds_image_def page_end_offset_def)
  next
    case False
    then have p: "j div 64 div 64 = k" "j < im_size im"
      using j by (simp_all add: page_of_byte page_end_offset_def)
    have "64 * (j div 64) \<le> j" by simp
    with p have "j div 64 \<in> page_chunks im k" by (simp add: page_chunks_def)
    then have "bitmap_bit (page_bitmap st) (j div 64 mod 64)" by (rule all)
    moreover have "contents (backend st) t (of_nat j) = im_byte im j \<or>
        (\<not> bitmap_bit (page_bitmap st) (j div 64 mod 64) \<and> contents (backend st) t (of_nat j) = 0xFF)"
      using opn j False by (simp add: page_open_def)
    ultimately show ?thesis by simp
  qed
qed

lemma page_end_commits:
  assumes opn: "page_open E contents tracked im t k st" and sz: "im_size im + 4096 \<le> 2 ^ 32"
    and ev: "is_event E im t (PageEnd k) d"
    and all: "\<And>q. q \<in> page_chunks im k \<Longrightarrow> bitmap_bit (page_bitmap st) (q mod 64)"
  shows "pages_done E contents tracked im t (Suc k) (sensor_step E d st)"
proof -
  have hold: "holds_image contents im t (Suc k) st" by (rule page_complete_holds [OF opn all])
  have pkt: "is_page_end E im t k (dgram_packet d)" and k: "4096 * k < im_size im"
    using ev by (auto simp: is_page_end_def)
  let ?bs = "im_bytes im (4096 * k) (page_end_offset im (Suc k))"
  have bs: "mem_read (contents (backend st) t) (of_nat (4096 * k)) (page_end_offset im (Suc k) - 4096 * k) = ?bs"
    using page_read_back [OF hold k] sz by simp
  obtain net raw fwd where s: "sensor_step E d st = handle_page_end E net (dgram_packet d) raw fwd st"
    using sensor_step_page_end [OF ev] by blast
  have o: "pk_offset (dgram_packet d) = of_nat (4096 * k)" "pk_target_slot (dgram_packet d) = t"
    "pk_length (dgram_packet d) = crc16_data E ?bs 0"
    using pkt by (simp_all add: is_page_end_def)
  have last: "last_crc_committed_page_offset st \<noteq> of_nat (4096 * k)" using opn by (simp add: page_open_def)
  obtain s' where s': "contents s' = contents (backend st)" "tracked s' = tracked (backend st)"
    and h: "handle_page_end E net (dgram_packet d) raw fwd st = send_page_report net
       ((forward net fwd raw st)\<lparr>backend := s', running_fw_crc := crc16_data E ?bs (running_fw_crc st),
               last_crc_committed_page_offset := of_nat (4096 * k)\<rparr>)"
    by (rule handle_page_end_eq [OF at_page_open [OF opn] sz o(1,2), of net raw fwd, unfolded bs o(3) if_P [OF refl] if_P [OF last]])
  have "im_bytes im 0 (4096 * k) @ ?bs = im_bytes im 0 (page_end_offset im (Suc k))"
    using k by (intro im_bytes_append) (simp_all add: page_end_offset_def)
  then have crc: "crc16_data E ?bs (running_fw_crc st) = crc16_data E (im_bytes im 0 (page_end_offset im (Suc k))) 0"
    using opn by (simp add: page_open_def crc_append [symmetric])
  show ?thesis
    using opn hold all s' crc k
    by (simp add: s h pages_done_def page_open_def session_base_def holds_image_def rest_erased_def
        forward_def emit_def page_chunks_def)
qed

text \<open>A PAGE_END that fails the check makes the node forget which chunks it has, and nothing else.\<close>

lemma page_end_rejected:
  assumes opn: "page_open E contents tracked im t k st" and sz: "im_size im + 4096 \<le> 2 ^ 32"
    and ev: "is_event E im t (PageEnd k) d"
    and bad: "running_fw_crc (sensor_step E d st) = running_fw_crc st"
      "last_crc_committed_page_offset (sensor_step E d st) = last_crc_committed_page_offset st"
  shows "page_open E contents tracked im t k (sensor_step E d st)"
proof -
  have pkt: "is_page_end E im t k (dgram_packet d)" using ev by simp
  obtain net raw fwd where s: "sensor_step E d st = handle_page_end E net (dgram_packet d) raw fwd st"
    using sensor_step_page_end [OF ev] by blast
  show ?thesis
  proof (rule handle_page_end_eq [OF at_page_open [OF opn] sz, of "dgram_packet d" net raw fwd])
    show "pk_offset (dgram_packet d) = of_nat (4096 * k)" "pk_target_slot (dgram_packet d) = t"
      using pkt by (simp_all add: is_page_end_def)
    fix s'
    let ?bs = "mem_read (contents (backend st) t) (of_nat (4096 * k)) (page_end_offset im (Suc k) - 4096 * k)"
    assume s': "contents s' = contents (backend st)" "tracked s' = tracked (backend st)"
      and h: "handle_page_end E net (dgram_packet d) raw fwd st = send_page_report net
       (if crc16_data E ?bs 0 = pk_length (dgram_packet d)
        then if last_crc_committed_page_offset st \<noteq> of_nat (4096 * k)
          then (forward net fwd raw st)\<lparr>backend := s', running_fw_crc := crc16_data E ?bs (running_fw_crc st),
                 last_crc_committed_page_offset := of_nat (4096 * k)\<rparr>
          else (forward net fwd raw st)\<lparr>backend := s'\<rparr>
        else (forward net fwd raw st)\<lparr>backend := s', page_bitmap := replicate 8 0\<rparr>)"
    have "last_crc_committed_page_offset st \<noteq> of_nat (4096 * k)" using opn by (simp add: page_open_def)
    then have "crc16_data E ?bs 0 \<noteq> pk_length (dgram_packet d)"
      using bad(2) h s by auto
    then show ?thesis
      using opn s' h
      by (auto simp: s page_open_def session_base_def holds_image_def rest_erased_def forward_def emit_def)
  qed
qed

text \<open>Late PAGE_ENDs of earlier pages change nothing that matters.\<close>

lemma late_page_end:
  assumes ev: "is_event E im t (PageEnd p) d" and sz: "im_size im + 4096 \<le> 2 ^ 32" and late: "p < k"
  shows "page_open E contents tracked im t k st \<Longrightarrow>
      page_open E contents tracked im t k (sensor_step E d st) \<and> page_bitmap (sensor_step E d st) = page_bitmap st"
    and "pages_done E contents tracked im t k st \<Longrightarrow> pages_done E contents tracked im t k (sensor_step E d st)"
proof -
  have pkt: "is_page_end E im t p (dgram_packet d)" using ev by simp
  obtain net raw fwd where s: "sensor_step E d st = handle_page_end E net (dgram_packet d) raw fwd st"
    using sensor_step_page_end [OF ev] by blast
  have p: "4096 * p < 2 ^ 32" using pkt sz by (simp add: is_page_end_def)
  have other: "sensor_step E d st = forward net fwd raw st"
    if "current_rx_page_offset st = of_nat (4096 * p')" "4096 * p' < im_size im" "p \<noteq> p'" for p'
  proof -
    have "4096 * p' < 2 ^ 32" using that sz by simp
    then have "pk_offset (dgram_packet d) \<noteq> current_rx_page_offset (forward net fwd raw st)"
      using pkt that p of_nat_eq_u32 [of "4096 * p" "4096 * p'"] by (simp add: is_page_end_def forward_def emit_def)
    then show ?thesis by (simp add: s handle_page_end_def Let_def)
  qed
  show "page_open E contents tracked im t k (sensor_step E d st) \<and> page_bitmap (sensor_step E d st) = page_bitmap st"
    if opn: "page_open E contents tracked im t k st"
  proof -
    have "sensor_step E d st = forward net fwd raw st"
      using opn late by (intro other [of k]) (simp_all add: page_open_def)
    with opn show ?thesis by simp
  qed
  show "pages_done E contents tracked im t k (sensor_step E d st)" if dn: "pages_done E contents tracked im t k st"
  proof -
    obtain p' where k: "k = Suc p'" using late by (cases k) auto
    show ?thesis
    proof (cases "p = p'")
      case False
      have "sensor_step E d st = forward net fwd raw st"
        using dn False by (intro other [of p']) (simp_all add: k pages_done_def)
      with dn show ?thesis by simp
    next
      case True
      let ?bs = "im_bytes im (4096 * p) (page_end_offset im (Suc p))"
      have hold: "holds_image contents im t (Suc p) st" and last: "\<not> last_crc_committed_page_offset st \<noteq> of_nat (4096 * p)"
        and at: "at_page im t p st"
        using dn at_page_done by (auto simp: k True pages_done_def)
      have o: "pk_offset (dgram_packet d) = of_nat (4096 * p)" "pk_target_slot (dgram_packet d) = t"
        "pk_length (dgram_packet d) = crc16_data E ?bs 0" "4096 * p < im_size im"
        using pkt by (simp_all add: is_page_end_def)
      have bs: "mem_read (contents (backend st) t) (of_nat (4096 * p)) (page_end_offset im (Suc p) - 4096 * p) = ?bs"
        using page_read_back [OF hold o(4)] sz by simp
      obtain s' where "contents s' = contents (backend st)" "tracked s' = tracked (backend st)"
        "handle_page_end E net (dgram_packet d) raw fwd st =
          send_page_report net ((forward net fwd raw st)\<lparr>backend := s'\<rparr>)"
        by (rule handle_page_end_eq [OF at sz o(1,2), of net raw fwd, unfolded bs o(3) if_P [OF refl] if_not_P [OF last]])
      with dn show ?thesis
        by (simp add: s k pages_done_def session_base_def holds_image_def rest_erased_def forward_def emit_def)
    qed
  qed
qed

text \<open>The page being received, with the chunks that have arrived.\<close>

definition page_state :: "image \<Rightarrow> u8 \<Rightarrow> nat \<Rightarrow> nat set \<Rightarrow> 's sensor_state \<Rightarrow> bool" where
  "page_state im t k R st \<longleftrightarrow>
     R = {} \<and> pages_done E contents tracked im t k st \<or>
     page_open E contents tracked im t k st \<and> (\<forall>q \<in> R. q div 64 = k \<and> bitmap_bit (page_bitmap st) (q mod 64))"

lemma page_state_event:
  assumes ev: "is_event E im t ev d" "event_due k ev" and sz: "im_size im + 4096 \<le> 2 ^ 32"
    and st: "page_state im t k R st"
  shows "page_state im t k (R \<union> {q. ev = Chunk q \<and> q div 64 = k}) (sensor_step E d st)"
proof (cases ev)
  case (Chunk q)
  have ev': "is_event E im t (Chunk q) d" using ev Chunk by simp
  from st show ?thesis
    unfolding page_state_def
  proof (elim disjE conjE)
    assume R: "R = {}" and dn: "pages_done E contents tracked im t k st"
    show "R \<union> {q. ev = Chunk q \<and> q div 64 = k} = {} \<and> pages_done E contents tracked im t k (sensor_step E d st) \<or>
      page_open E contents tracked im t k (sensor_step E d st) \<and>
      (\<forall>q\<in>R \<union> {q. ev = Chunk q \<and> q div 64 = k}. q div 64 = k \<and> bitmap_bit (page_bitmap (sensor_step E d st)) (q mod 64))"
      using chunk_when_done [OF ev' dn] ev(2) Chunk R by (cases "q div 64 = k") auto
  next
    assume opn: "page_open E contents tracked im t k st"
      and R: "\<forall>q\<in>R. q div 64 = k \<and> bitmap_bit (page_bitmap st) (q mod 64)"
    show "R \<union> {q. ev = Chunk q \<and> q div 64 = k} = {} \<and> pages_done E contents tracked im t k (sensor_step E d st) \<or>
      page_open E contents tracked im t k (sensor_step E d st) \<and>
      (\<forall>q\<in>R \<union> {q. ev = Chunk q \<and> q div 64 = k}. q div 64 = k \<and> bitmap_bit (page_bitmap (sensor_step E d st)) (q mod 64))"
      using chunk_when_open [OF ev' opn] ev(2) Chunk R by (cases "q div 64 = k") auto
  qed
next
  case (PageEnd p)
  with ev have "is_event E im t (PageEnd p) d" "p < k" by simp_all
  from late_page_end [OF this(1) sz this(2)] st PageEnd show ?thesis
    unfolding page_state_def by auto
qed

lemma page_state_events:
  assumes "list_all2 (is_event E im t) evs ds" "list_all (event_due k) evs" and "im_size im + 4096 \<le> 2 ^ 32"
    and "page_state im t k R st"
  shows "page_state im t k (R \<union> {q. Chunk q \<in> set evs \<and> q div 64 = k}) (fold (sensor_step E) ds st)"
  using assms
proof (induction evs ds arbitrary: R st rule: list_all2_induct)
  case Nil
  then show ?case by simp
next
  case (Cons ev evs d ds)
  have "page_state im t k (R \<union> {q. ev = Chunk q \<and> q div 64 = k}) (sensor_step E d st)"
    using Cons by (intro page_state_event) simp_all
  with Cons have "page_state im t k ((R \<union> {q. ev = Chunk q \<and> q div 64 = k}) \<union> {q. Chunk q \<in> set evs \<and> q div 64 = k})
      (fold (sensor_step E) ds (sensor_step E d st))"
    by (intro Cons.IH) simp_all
  moreover have "(R \<union> {q. ev = Chunk q \<and> q div 64 = k}) \<union> {q. Chunk q \<in> set evs \<and> q div 64 = k} =
      R \<union> {q. Chunk q \<in> set (ev # evs) \<and> q div 64 = k}" by auto
  ultimately show ?case by simp
qed

lemma page_transfer_delivers:
  assumes tr: "page_transfer E im t k (ds, pe)" and sz: "im_size im + 4096 \<le> 2 ^ 32"
    and st: "pages_done E contents tracked im t k st \<or> page_open E contents tracked im t k st"
  shows "pages_done E contents tracked im t (Suc k) (fold (sensor_step E) (ds @ [pe]) st)"
proof -
  from tr obtain evs where evs: "list_all2 (is_event E im t) evs ds" "list_all (event_due k) evs"
    "page_chunks im k \<subseteq> {q. Chunk q \<in> set evs}" and pe: "is_event E im t (PageEnd k) pe"
    by (auto simp: page_transfer_def)
  have "page_state im t k {} st" using st by (auto simp: page_state_def)
  from page_state_events [OF evs(1,2) sz this]
  have ps: "page_state im t k {q. Chunk q \<in> set evs \<and> q div 64 = k} (fold (sensor_step E) ds st)" by simp
  have "4096 * k < im_size im" using pe by (simp add: is_page_end_def)
  then have "64 * k \<in> page_chunks im k" by (simp add: page_chunks_def)
  with evs(3) have "Chunk (64 * k) \<in> set evs" by auto
  then have ne: "{q. Chunk q \<in> set evs \<and> q div 64 = k} \<noteq> {}" by (auto intro: exI [of _ "64 * k"])
  from ps ne have opn: "page_open E contents tracked im t k (fold (sensor_step E) ds st)"
    and bits: "\<And>q. q \<in> page_chunks im k \<Longrightarrow> bitmap_bit (page_bitmap (fold (sensor_step E) ds st)) (q mod 64)"
    using evs(3) by (auto simp: page_state_def page_chunks_def)
  show ?thesis using page_end_commits [OF opn sz pe bits] by simp
qed

lemma session_transfers:
  assumes sz: "im_size im + 4096 \<le> 2 ^ 32" and st: "pages_done E contents tracked im t k st"
    and trs: "\<And>i. i < length trs \<Longrightarrow> page_transfer E im t (k + i) (trs ! i)"
  shows "pages_done E contents tracked im t (k + length trs)
    (fold (sensor_step E) (concat (map (\<lambda>(ds, pe). ds @ [pe]) trs)) st)"
  using st trs
proof (induction trs arbitrary: k st)
  case Nil
  then show ?case by simp
next
  case (Cons tr trs)
  obtain ds pe where tr: "tr = (ds, pe)" by (cases tr)
  have "page_transfer E im t k (ds, pe)" using Cons.prems(2) [of 0] by (simp add: tr)
  then have "pages_done E contents tracked im t (Suc k) (fold (sensor_step E) (ds @ [pe]) st)"
    using sz Cons.prems(1) by (intro page_transfer_delivers) simp_all
  moreover have "page_transfer E im t (Suc k + i) (trs ! i)" if "i < length trs" for i
    using Cons.prems(2) [of "Suc i"] that by simp
  ultimately have "pages_done E contents tracked im t (Suc k + length trs)
      (fold (sensor_step E) (concat (map (\<lambda>(ds, pe). ds @ [pe]) trs)) (fold (sensor_step E) (ds @ [pe]) st))"
    by (intro Cons.IH) simp_all
  then show ?case by (simp add: tr)
qed

lemma start_begins:
  assumes d: "is_start im t sec d"
    and ok: "be_start B t (pk_offset (dgram_packet d)) sec OTA_START_STATUS_REJECTED_TARGET (backend st) = ((True, q), s')"
  shows "pages_done E contents tracked im t 0 (sensor_step E d st)"
proof -
  obtain net raw fwd where s: "sensor_step E d st = handle_start E net (dgram_packet d) raw fwd st"
    using sensor_step_start [OF d] by blast
  let ?p = "dgram_packet d"
  have b: "backend (forward net fwd raw st) = backend st" by (simp add: forward_def emit_def)
  have size: "unat (pk_offset ?p) = im_size im" using d by (simp add: is_start_def)
  have erased: "contents s' t (of_nat j) = 0xFF" if "j < esz" for j
  proof -
    have "in_region 0 esz (of_nat j)"
      using that sector_sizes by (auto simp: in_region_def unat_of_nat_u32)
    with start_erases [OF ok] show ?thesis by (simp add: mem_erase_def)
  qed
  have tr: "tracked s' t 0" if "4096 < esz" using start_tracks [OF ok] that by (simp add: PAGE_SIZE_def)
  have bounds: "be_bounds_ok B (pk_offset ?p) t off len" if "0 < unat len" "unat off + unat len \<le> im_size im" for off len
    using start_bounds [OF ok that(1)] that(2) size by simp
  show ?thesis
    using d ok erased tr bounds
    by (simp add: s handle_start_def Let_def b reset_rx_state_def is_start_def send_start_report_def
        pages_done_def session_base_def holds_image_def page_end_offset_def im_bytes_def crc_nil
        rest_erased_def sector_start_def) (simp add: emit_def)
qed

lemma session_downloads:
  assumes v: "valid_session E im t sec d0 trs"
    and ok: "be_start B t (pk_offset (dgram_packet d0)) sec OTA_START_STATUS_REJECTED_TARGET (backend st) = ((True, q), s')"
  defines "st' \<equiv> fold (sensor_step E) (session_datagrams d0 trs) st"
  shows "ota_session_active st'" "ota_target_slot st' = t" "unat (current_file_size st') = im_size im"
    "running_fw_crc st' = crc16_data E (im_bytes im 0 (im_size im)) 0"
    "\<And>j. j < im_size im \<Longrightarrow> contents (backend st') t (of_nat j) = im_byte im j"
proof -
  have d0: "is_start im t sec d0" and sz: "im_size im + 4096 \<le> 2 ^ 32" and n: "im_size im \<le> 4096 * length trs"
    and trs: "\<And>i. i < length trs \<Longrightarrow> page_transfer E im t (0 + i) (trs ! i)"
    using v by (simp_all add: valid_session_def)
  have "pages_done E contents tracked im t (0 + length trs) st'"
    unfolding st'_def session_datagrams_def
    using session_transfers [OF sz start_begins [OF d0 ok] trs] by simp
  then show "ota_session_active st'" "ota_target_slot st' = t" "unat (current_file_size st') = im_size im"
    "running_fw_crc st' = crc16_data E (im_bytes im 0 (im_size im)) 0"
    "\<And>j. j < im_size im \<Longrightarrow> contents (backend st') t (of_nat j) = im_byte im j"
    using n by (simp_all add: pages_done_def session_base_def holds_image_def page_end_offset_def min_absorb2)
qed

lemma verify_stages:
  assumes v: "is_verify E im t d" and act: "ota_session_active st" "ota_target_slot st = t"
    and crc: "running_fw_crc st = crc16_data E (im_bytes im 0 (im_size im)) 0"
  shows "\<not> ota_session_active (sensor_step E d st)"
    "backend (sensor_step E d st) = snd (be_stage B (current_file_size st) t (backend st))"
proof -
  obtain net raw fwd where s: "sensor_step E d st = handle_verify E net (dgram_packet d) raw fwd st"
    using sensor_step_verify [OF v] by blast
  have "ota_session_active (forward net fwd raw st)" "ota_target_slot (forward net fwd raw st) = t"
    "running_fw_crc (forward net fwd raw st) = running_fw_crc st" "backend (forward net fwd raw st) = backend st"
    "current_file_size (forward net fwd raw st) = current_file_size st"
    using act by (simp_all add: forward_def emit_def)
  with v crc show "\<not> ota_session_active (sensor_step E d st)"
    "backend (sensor_step E d st) = snd (be_stage B (current_file_size st) t (backend st))"
    by (simp_all add: s handle_verify_def is_verify_def schedule_leaf_reboot_if_safe_def emit_def Let_def
        split: prod.split bool.split)
qed

end

end
