(* ===== verification/Sensor_Guard.thy ===== *)
theory Sensor_Guard
  imports Sensor_Flow
begin

text \<open>
  Safety against arbitrary datagrams. The locale \<open>sensor_guard\<close> collects what a backend must keep
  for a storage invariant \<open>I\<close> to survive any traffic: START keeps it and admits only targets that
  satisfy \<open>T\<close>, and the operations on an admitted target keep it. Inside, every handler of the
  receiving flow, every datagram and every sequence of datagrams keeps it, well formed or not.
\<close>

locale sensor_guard =
  fixes E :: "'s sensor_env" and T :: "u8 \<Rightarrow> bool" and I :: "'s \<Rightarrow> bool"
  assumes start_inv: "I s \<Longrightarrow> I (snd (be_start (se_backend E) t fsz sec rej s))"
    and start_admits: "fst (fst (be_start (se_backend E) t fsz sec rej s)) \<Longrightarrow> T t"
    and erase_inv: "\<lbrakk>T t; I s\<rbrakk> \<Longrightarrow> I (snd (be_erase_sector (se_backend E) t so s))"
    and write_inv: "\<lbrakk>T t; I s; length data = unat len\<rbrakk> \<Longrightarrow> I (snd (be_write (se_backend E) t off data len s))"
    and read_inv: "\<lbrakk>T t; I s\<rbrakk> \<Longrightarrow> I (snd (be_read (se_backend E) t off len s))"
    and stage_inv: "\<lbrakk>T t; I s\<rbrakk> \<Longrightarrow> I (snd (be_stage (se_backend E) fsz t s))"
begin

definition guarded :: "'s sensor_state \<Rightarrow> bool" where
  "guarded st \<longleftrightarrow> (ota_session_active st \<longrightarrow> T (ota_target_slot st)) \<and> I (backend st)"

lemma guarded_emit [simp]: "guarded (emit es st) = guarded st"
  by (simp add: guarded_def emit_def)

lemma guarded_forward [simp]: "guarded (forward net fwd raw st) = guarded st"
  by (simp add: forward_def)

lemma guarded_report [simp]: "guarded (send_page_report net st) = guarded st"
  by (simp add: guarded_def)

lemma guarded_start: "guarded st \<Longrightarrow> guarded (handle_start E net pkt raw fwd st)"
  using start_inv start_admits
  by (auto simp: handle_start_def Let_def guarded_def reset_rx_state_def send_start_report_def forward_def emit_def
      split: prod.split bool.split) (metis fst_conv snd_conv)+

lemma guarded_select:
  assumes "guarded st" "ota_session_active st"
  shows "guarded (snd (rx_select_page E pkt st))" "ota_session_active (snd (rx_select_page E pkt st))"
    "ota_target_slot (snd (rx_select_page E pkt st)) = ota_target_slot st"
  using assms erase_inv [of "ota_target_slot st" "backend st"]
  by (auto simp: rx_select_page_def Let_def guarded_def split: prod.split) (metis snd_conv)+

lemma guarded_store:
  assumes "guarded st" "ota_session_active st"
  shows "guarded (rx_store_chunk E pkt st)"
  using assms write_inv [of "ota_target_slot st" "backend st" "buf_bytes (pk_data pkt) 0 (unat (pk_length pkt))" "pk_length pkt" "pk_offset pkt"]
  by (auto simp: rx_store_chunk_def Let_def guarded_def split: prod.split bool.split)

lemma guarded_data: "guarded st \<Longrightarrow> guarded (handle_data E net pkt raw fwd st)"
proof -
  assume st: "guarded st"
  let ?st = "forward net fwd raw st"
  have g: "guarded ?st" using st by simp
  show ?thesis
  proof (cases "ota_session_active ?st")
    case True
    note sel = guarded_select [OF g True, of pkt]
    obtain b st1 where e: "rx_select_page E pkt ?st = (b, st1)" by (cases "rx_select_page E pkt ?st")
    show ?thesis
      using sel g guarded_store [of st1 pkt] by (cases b) (simp_all add: handle_data_def Let_def e)
  next
    case False
    then show ?thesis using g by (simp add: handle_data_def Let_def)
  qed
qed

lemma guarded_loop:
  assumes "T t" "I s"
  shows "I (snd (snd (snd (page_crc_loop E t p n i acc fw s))))"
  using assms(2)
proof (induction "n - i" arbitrary: i acc fw s rule: less_induct)
  case less
  show ?case
  proof (cases "i < n")
    case True
    obtain r s1 where rd: "be_read (se_backend E) t (p + of_nat i) (of_nat (if n - i > 64 then 64 else n - i)) s = (r, s1)"
      by (cases "be_read (se_backend E) t (p + of_nat i) (of_nat (if n - i > 64 then 64 else n - i)) s")
    have "I s1" using read_inv [OF assms(1) less.prems] rd by (metis snd_conv)
    then have "I (snd (snd (snd (page_crc_loop E t p n (i + 64) acc' fw' s1))))" for acc' fw'
      using True by (intro less.hyps) auto
    with True rd \<open>I s1\<close> show ?thesis
      by (subst page_crc_loop.simps) (simp add: Let_def split: option.split)
  next
    case False
    with less.prems show ?thesis by (subst page_crc_loop.simps) simp
  qed
qed

lemma guarded_page_end: "guarded st \<Longrightarrow> guarded (handle_page_end E net pkt raw fwd st)"
proof -
  assume st: "guarded st"
  let ?st = "forward net fwd raw st"
  have g: "guarded ?st" using st by simp
  show ?thesis
  proof (cases "ota_session_active ?st")
    case True
    then have T: "T (ota_target_slot ?st)" using g by (simp add: guarded_def)
    obtain ok pc fc s where l: "page_crc_loop E (ota_target_slot ?st) (current_rx_page_offset ?st) (unat (rx_page_len ?st)) 0
         0 (running_fw_crc st) (backend ?st) = (ok, pc, fc, s)" by (metis prod.collapse)
    have "I s" using guarded_loop [OF T, of "backend ?st"] g l unfolding guarded_def by (metis snd_conv)
    with g T show ?thesis
      by (auto simp: handle_page_end_def Let_def l guarded_def)
  next
    case False
    then show ?thesis using g by (simp add: handle_page_end_def Let_def)
  qed
qed

lemma guarded_verify: "guarded st \<Longrightarrow> guarded (handle_verify E net pkt raw fwd st)"
proof -
  assume st: "guarded st"
  let ?st = "forward net fwd raw st"
  have g: "guarded ?st" using st by simp
  show ?thesis
  proof (cases "ota_session_active ?st")
    case True
    then have T: "T (ota_target_slot ?st)" using g by (simp add: guarded_def)
    have "I (snd (be_stage (se_backend E) (current_file_size ?st) (ota_target_slot ?st) (backend ?st)))"
      using g by (intro stage_inv [OF T]) (simp add: guarded_def)
    with g T show ?thesis
      by (auto simp: handle_verify_def Let_def guarded_def schedule_leaf_reboot_if_safe_def emit_def
          split: prod.split bool.split)
  next
    case False
    then show ?thesis using g by (simp add: handle_verify_def Let_def)
  qed
qed

theorem guarded_step: "guarded st \<Longrightarrow> guarded (sensor_step E d st)"
  by (auto simp: sensor_step_def sensor_udp_rx_def Let_def guarded_start guarded_data guarded_page_end guarded_verify
      split: prod.split)

theorem guarded_run: "guarded st \<Longrightarrow> guarded (fold (sensor_step E) ds st)"
  by (induction ds arbitrary: st) (simp_all add: guarded_step)

end

end
