(* ===== verification/Dual_Backend.thy ===== *)
theory Dual_Backend
  imports Backend
begin

text \<open>
  The dual-onchip sensor backend, \<open>sensor-node-dual-onchip.c\<close>: images live in two internal
  flash slots, and the metadata page says which slot is active and which is being tried. The
  state is the flash with its erase tracking (\<open>flash_state\<close>) extended by the static variables of
  the file. A \<open>dual_env\<close> holds what the file takes from outside: the flash driver, the SDK's
  header layout and constants, and the header of the running image with the address it is
  linked at. The boot check ends in one of three ways (\<open>boot_outcome\<close>): it returns, it stays in
  its endless safe-mode loop, or it resets the chip.
\<close>

section \<open>State\<close>

definition MAX_BOOT_ATTEMPTS :: u32 where "MAX_BOOT_ATTEMPTS = 3"

record dual_state = flash_state +
  current_metadata :: ota_boot_metadata
  current_slot :: u8
  rejected_same_slot :: bool

record dual_env =
  de_driver :: flash_driver
  de_sdk :: oad_sdk
  ota_image_header :: imgHdr
  ota_image_header_addr :: u32

section \<open>Image validation and staging\<close>

definition dual_running_sec_ver :: "dual_env \<Rightarrow> u16" where
  "dual_running_sec_ver env = ucast (secVer (ota_image_header env))"

definition dual_image_softver_to_u32 :: "u8 list \<Rightarrow> u32" where
  "dual_image_softver_to_u32 soft_ver = of_le32 (take 4 soft_ver)"

text \<open>\<open>Some (version, size, crc)\<close> when the image is accepted, \<open>None\<close> for each rejection.\<close>

definition validate_downloaded_image ::
    "dual_env \<Rightarrow> u32 \<Rightarrow> u8 \<Rightarrow> dual_state \<Rightarrow> (u32 \<times> u32 \<times> u32) option" where
  "validate_downloaded_image env current_file_size target_slot st =
     (let slot_start = ota_flash_slot_start target_slot;
          slot_end = slot_start + ota_flash_slot_size target_slot;
          current_sec_ver = ucast (secVer (ota_image_header env)) :: u8;
          (present, header) = oad_image_header_read (de_sdk env) (fmem st) slot_start;
          candidate_sec_ver = ucast (secVer header) :: u8;
          image_size = imgEndAddr (fixedHdr header) - slot_start + 1
      in if \<not> present then None
         else if candidate_sec_ver \<le> current_sec_ver then None
         else if imgType (fixedHdr header) \<noteq> OAD_IMG_TYPE_APPSTACKLIB (de_sdk env) \<or>
                 techType (fixedHdr header) \<noteq> OAD_WIRELESS_TECH_TIMAC_2_4G (de_sdk env) then None
         else if startAddr (imgPayload header) \<noteq> slot_start \<or>
                 prgEntry (fixedHdr header) < slot_start \<or> prgEntry (fixedHdr header) \<ge> slot_end \<or>
                 imgEndAddr (fixedHdr header) < slot_start \<or> imgEndAddr (fixedHdr header) \<ge> slot_end \<or>
                 imgEndAddr (fixedHdr header) < startAddr (imgPayload header) then None
         else if image_size = 0 \<or> image_size > current_file_size \<or>
                 image_size > ota_flash_slot_size target_slot then None
         else Some (dual_image_softver_to_u32 (softVer (fixedHdr header)), image_size,
                    crc32 (fixedHdr header)))"

definition dual_running_size :: "dual_env \<Rightarrow> u32" where
  "dual_running_size env =
     imgEndAddr (fixedHdr (ota_image_header env)) - ota_image_header_addr env + 1"

definition dual_stage :: "dual_env \<Rightarrow> u32 \<Rightarrow> u8 \<Rightarrow> dual_state \<Rightarrow> bool \<times> dual_state" where
  "dual_stage env current_file_size target st =
     (case validate_downloaded_image env current_file_size target st of
        None \<Rightarrow> (False, st)
      | Some (image_version, image_size, image_crc32) \<Rightarrow>
          (let (known, stored) = ota_flash_read_metadata st;
               metadata =
                 (if known then stored
                  else ota_metadata_init_factory stored (ucast (current_slot st))
                         (dual_image_softver_to_u32 (softVer (fixedHdr (ota_image_header env))))
                         (dual_running_size env) (crc32 (fixedHdr (ota_image_header env))));
               (verified, metadata) =
                 ota_metadata_mark_verified metadata (ucast target) image_version image_size image_crc32
           in if \<not> verified then (False, st)
              else case ota_metadata_stage_verified_image metadata (ucast target) of
                (False, _) \<Rightarrow> (False, st)
              | (True, metadata) \<Rightarrow>
                 (case ota_flash_write_metadata (de_driver env) metadata st of
                    (False, st') \<Rightarrow> (False, st')
                  | (True, st') \<Rightarrow> (True, st'\<lparr>current_metadata := metadata\<rparr>))))"

section \<open>START admission and storage\<close>

text \<open>\<open>reject_status\<close> is the in-out parameter; it is only written on a rejection.\<close>

definition dual_start ::
    "dual_env \<Rightarrow> u8 \<Rightarrow> u32 \<Rightarrow> u16 \<Rightarrow> u8 \<Rightarrow> dual_state \<Rightarrow> (bool \<times> u8) \<times> dual_state" where
  "dual_start env target file_size image_sec_ver reject_status st =
     (let st = ota_flash_reset_erase_tracking (st\<lparr>rejected_same_slot := False\<rparr>)
      in if target > OTA_SLOT_B then ((False, OTA_START_STATUS_REJECTED_TARGET), st)
         else if image_sec_ver \<noteq> OTA_START_SEC_VER_UNKNOWN \<and> image_sec_ver \<le> dual_running_sec_ver env
         then ((False, OTA_START_STATUS_REJECTED_VERSION), st)
         else if file_size = 0 \<or> file_size > ota_flash_slot_size target
         then ((False, OTA_START_STATUS_REJECTED_TARGET), st)
         else
           let st = st\<lparr>current_slot := ota_flash_current_slot (ota_image_header_addr env)\<rparr>
           in if target = current_slot st
              then ((False, OTA_START_STATUS_REJECTED_SAME_SLOT), st\<lparr>rejected_same_slot := True\<rparr>)
              else case ota_flash_erase_target_sector (de_driver env) target 0 st of
                (False, st') \<Rightarrow>
                  ((False, if rejected_same_slot st' then OTA_START_STATUS_REJECTED_SAME_SLOT
                           else OTA_START_STATUS_REJECTED_TARGET), st')
              | (True, st') \<Rightarrow> ((True, reject_status), st'))"

definition dual_bounds_ok :: "u32 \<Rightarrow> u8 \<Rightarrow> u32 \<Rightarrow> u16 \<Rightarrow> bool" where
  "dual_bounds_ok current_file_size target offset len =
     ota_flash_target_bounds_ok target offset (ucast len)"

definition dual_read :: "u8 \<Rightarrow> u32 \<Rightarrow> u16 \<Rightarrow> dual_state \<Rightarrow> u8 list option \<times> dual_state" where
  "dual_read target offset len st = (ota_flash_read_target target offset len st, st)"

definition dual_backend :: "dual_env \<Rightarrow> dual_state sensor_backend" where
  "dual_backend env =
     \<lparr>be_running_sec_ver = dual_running_sec_ver env,
      be_erase_sector_size = OTA_FLASH_ERASE_SECTOR_SIZE,
      be_start = dual_start env,
      be_bounds_ok = dual_bounds_ok,
      be_erase_sector = ota_flash_erase_target_sector (de_driver env),
      be_write = ota_flash_write_target (de_driver env),
      be_read = dual_read,
      be_stage = dual_stage env\<rparr>"

section \<open>Boot check\<close>

datatype boot_outcome = BootContinues | BootSafeMode | BootResets

definition dual_other_slot :: "u8 \<Rightarrow> u8" where
  "dual_other_slot slot = (if slot = OTA_SLOT_A then OTA_SLOT_B else OTA_SLOT_A)"

text \<open>A new image in the running slot becomes the candidate; otherwise an abnormal reset counts as
  a failed boot attempt.\<close>

definition boot_check_running ::
    "dual_env \<Rightarrow> u32 \<Rightarrow> u8 \<Rightarrow> ota_boot_metadata \<Rightarrow> ota_boot_metadata" where
  "boot_check_running env reset_source slot m =
     (let physical_crc = crc32 (fixedHdr (ota_image_header env));
          saved_crc = (if slot = OTA_SLOT_A then crc_a m else crc_b m)
      in if (ucast slot \<noteq> active_slot m \<and> ucast slot \<noteq> candidate_slot m) \<or> physical_crc \<noteq> saved_crc
         then ota_metadata_set_candidate m (ucast slot)
                (of_le32 (take 4 (softVer (fixedHdr (ota_image_header env)))))
                (dual_running_size env) physical_crc
         else if reset_source \<noteq> RSTSRC_PWR_ON (de_sdk env) \<and>
                 reset_source \<noteq> RSTSRC_PIN_RESET (de_sdk env) \<and>
                 reset_source \<noteq> RSTSRC_WAKEUP_FROM_SHUTDOWN (de_sdk env)
         then ota_metadata_increment_boot_attempts m
         else m)"

text \<open>The record of the other slot is dropped when its image is not the recorded one.\<close>

definition boot_check_shadow ::
    "dual_env \<Rightarrow> mem \<Rightarrow> u8 \<Rightarrow> ota_boot_metadata \<Rightarrow> ota_boot_metadata" where
  "boot_check_shadow env mem slot m =
     (let shadow_addr = (if slot = OTA_SLOT_A then OTA_SLOT_B_START else OTA_SLOT_A_START);
          (present, shadow_header) = oad_image_header_read (de_sdk env) mem shadow_addr;
          shadow_saved_crc = (if slot = OTA_SLOT_A then crc_b m else crc_a m)
      in if present \<and> crc32 (fixedHdr shadow_header) \<noteq> shadow_saved_crc
         then ota_metadata_clear_slot m (ucast (dual_other_slot slot))
         else m)"

definition boot_fallback :: "dual_env \<Rightarrow> dual_state \<Rightarrow> boot_outcome \<times> dual_state" where
  "boot_fallback env st =
     (let slot = current_slot st;
          m = current_metadata st;
          fallback_slot = dual_other_slot slot;
          fallback_addr = ota_flash_slot_start fallback_slot;
          fallback_invalid =
            (if fallback_slot = OTA_SLOT_A then state_a m = OTA_IMAGE_STATE_INVALID
             else state_b m = OTA_IMAGE_STATE_INVALID)
      in if fallback_invalid \<or> mem_read (fmem st) fallback_addr 8 \<noteq> oad_id
         then (BootSafeMode, st)
         else
           let m = ota_metadata_mark_slot_invalid m (ucast slot);
               m = snd (ota_metadata_confirm_running_image m (ucast fallback_slot));
               st = snd (ota_flash_write_metadata (de_driver env) m (st\<lparr>current_metadata := m\<rparr>))
           in case ota_flash_invalidate_image_header (de_driver env) (ota_image_header_addr env) st of
                (False, st) \<Rightarrow> (BootSafeMode, st)
              | (True, st) \<Rightarrow> (BootResets, st))"

definition dual_boot_check :: "dual_env \<Rightarrow> u32 \<Rightarrow> dual_state \<Rightarrow> boot_outcome \<times> dual_state" where
  "dual_boot_check env reset_source st =
     (let slot = ota_flash_current_slot (ota_image_header_addr env);
          st = st\<lparr>current_slot := slot\<rparr>;
          current_version = of_le32 (take 4 (softVer (fixedHdr (ota_image_header env))));
          physical_crc = crc32 (fixedHdr (ota_image_header env));
          (known, m) = ota_flash_read_metadata st
      in if \<not> known then
           let m = ota_metadata_init_factory m (ucast slot) current_version (dual_running_size env)
                     physical_crc
           in (BootContinues,
               snd (ota_flash_write_metadata (de_driver env) m (st\<lparr>current_metadata := m\<rparr>)))
         else
           let m = boot_check_running env reset_source slot m;
               m = boot_check_shadow env (fmem st) slot m;
               st = snd (ota_flash_write_metadata (de_driver env) m (st\<lparr>current_metadata := m\<rparr>))
           in if boot_attempts m > MAX_BOOT_ATTEMPTS then boot_fallback env st
              else (BootContinues, st))"

definition dual_confirm_stable :: "dual_env \<Rightarrow> dual_state \<Rightarrow> dual_state" where
  "dual_confirm_stable env st =
     (if current_slot st \<le> OTA_SLOT_B \<and> ota_metadata_crc_is_valid (current_metadata st) \<and>
         boot_attempts (current_metadata st) > 0
      then
        let m = snd (ota_metadata_confirm_running_image (current_metadata st) (ucast (current_slot st)))
        in snd (ota_flash_write_metadata (de_driver env) m (st\<lparr>current_metadata := m\<rparr>))
      else st)"

section \<open>The backend keeps its contract\<close>

definition dual_contents :: "dual_state \<Rightarrow> u8 \<Rightarrow> mem" where
  "dual_contents st target = (\<lambda>offset. fmem st (ota_flash_slot_start target + offset))"

definition dual_tracked :: "dual_state \<Rightarrow> u8 \<Rightarrow> u32 \<Rightarrow> bool" where
  "dual_tracked st target so \<longleftrightarrow> ota_flash_slot_start target + so = erased_sector_addr st"

lemma dual_contents_program:
  "fmem st' = mem_program (ota_flash_slot_start t + off) data (fmem st) \<Longrightarrow>
    dual_contents st' t = mem_program off data (dual_contents st t)"
  by (simp add: dual_contents_def mem_program_def fun_eq_iff)

lemma slot_start_not_top: "ota_flash_slot_start t \<noteq> 0xFFFFFFFF"
  by (simp add: ota_flash_slot_start_def layout_defs)

text \<open>An accepted START erased the first sector, with the erase tracking reset before.\<close>

lemma dual_start_erases:
  assumes "flash_driver_ok (de_driver env)" and "dual_start env t fsz sec rej s = ((True, r), s')"
  obtains st where "fmem st = fmem s" "erased_sector_addr st = 0xFFFFFFFF"
    "ota_flash_erase_target_sector (de_driver env) t 0 st = (True, s')"
    "unat t \<le> 1" "unat fsz \<le> unat (ota_flash_slot_size t)" "t \<noteq> ota_flash_current_slot (ota_image_header_addr env)"
proof -
  let ?st = "(ota_flash_reset_erase_tracking (s\<lparr>rejected_same_slot := False\<rparr>))
    \<lparr>current_slot := ota_flash_current_slot (ota_image_header_addr env)\<rparr>"
  have "unat (OTA_SLOT_B :: u8) = 1" by (simp add: slot_defs)
  with assms(2) have "ota_flash_erase_target_sector (de_driver env) t 0 ?st = (True, s')"
    "unat t \<le> 1" "unat fsz \<le> unat (ota_flash_slot_size t)" "t \<noteq> ota_flash_current_slot (ota_image_header_addr env)"
    by (auto simp: dual_start_def Let_def word_nat split: if_splits prod.splits bool.splits)
  then show ?thesis by (intro that [of ?st]) (simp_all add: ota_flash_reset_erase_tracking_def)
qed

lemma dual_backend_laws:
  assumes drv: "flash_driver_ok (de_driver env)"
  shows "sensor_backend_laws (dual_backend env) dual_contents dual_tracked"
proof (unfold_locales, simp_all only: dual_backend_def sensor_backend.simps)
  fix t off data len and s s' :: dual_state
  assume w: "ota_flash_write_target (de_driver env) t off data len s = (True, s')"
    and data: "length data = unat len"
  show "dual_contents s' t = mem_program off data (dual_contents s t)"
    using write_target_frame(3) [OF drv data w] by (intro dual_contents_program) simp
next
  fix t off data len r x and s s' :: dual_state
  assume w: "ota_flash_write_target (de_driver env) t off data len s = (r, s')"
    and data: "length data = unat len" and x: "\<not> in_region off (unat len + 3) x"
  show "dual_contents s' t x = dual_contents s t x"
    using data w
  proof (cases rule: write_target_cases)
    case (programmed k)
    have "\<not> in_region (ota_flash_slot_start t + off) (length (data @ replicate k 0xFF)) (ota_flash_slot_start t + x)"
      using x programmed(6) data in_region_mono [of off "unat len + k" x "unat len + 3"] by auto
    then show ?thesis
      using program_flash_frame(2) [OF drv programmed(1)] by (simp add: dual_contents_def)
  qed simp_all
next
  fix t off data len r and s s' :: dual_state
  assume w: "ota_flash_write_target (de_driver env) t off data len s = (r, s')"
    and data: "length data = unat len"
  have "erased_sector_addr s' = erased_sector_addr s"
    by (subst write_target_frame(1) [OF drv data w]) simp
  then show "dual_tracked s' t = dual_tracked s t" by (simp add: dual_tracked_def fun_eq_iff)
next
  fix t so and s s' :: dual_state
  assume e: "ota_flash_erase_target_sector (de_driver env) t so s = (True, s')"
    and tr: "dual_tracked s t so"
  show "s' = s"
    using drv e by (cases rule: erase_target_cases) (use tr in \<open>simp_all add: dual_tracked_def\<close>)
next
  fix t so and s s' :: dual_state
  assume e: "ota_flash_erase_target_sector (de_driver env) t so s = (True, s')"
    and tr: "\<not> dual_tracked s t so"
  show "dual_contents s' t = mem_erase so (unat OTA_FLASH_ERASE_SECTOR_SIZE) (dual_contents s t)"
    using drv e by (cases rule: erase_target_cases)
      (use tr in \<open>simp_all add: dual_tracked_def dual_contents_def mem_erase_def\<close>)
next
  fix t so r x and s s' :: dual_state
  assume e: "ota_flash_erase_target_sector (de_driver env) t so s = (r, s')"
    and x: "\<not> in_region so (unat OTA_FLASH_ERASE_SECTOR_SIZE) x"
  show "dual_contents s' t x = dual_contents s t x"
    using drv e
  proof (cases rule: erase_target_cases)
    case failed
    with x show ?thesis by (simp add: dual_contents_def)
  qed (use x in \<open>simp_all add: dual_contents_def mem_erase_def\<close>)
next
  fix t so and s s' :: dual_state
  assume e: "ota_flash_erase_target_sector (de_driver env) t so s = (True, s')"
  show "dual_tracked s' t so"
    using drv e by (cases rule: erase_target_cases) (simp_all add: dual_tracked_def)
next
  fix s :: dual_state and t so so'
  assume "dual_tracked s t so" "dual_tracked s t so'"
  then show "so = so'" by (simp add: dual_tracked_def) (metis add_left_cancel)
next
  assume "unat OTA_FLASH_ERASE_SECTOR_SIZE \<le> PAGE_SIZE"
  then show "\<not> dual_tracked s t so" for s t so
    by (simp add: OTA_FLASH_ERASE_SECTOR_SIZE_def PAGE_SIZE_def)
next
  show "OTA_FLASH_ERASE_SECTOR_SIZE = 0x1000 \<or> OTA_FLASH_ERASE_SECTOR_SIZE = 0x2000"
    by (simp add: OTA_FLASH_ERASE_SECTOR_SIZE_def)
next
  fix t fsz sec rej r and s s' :: dual_state
  assume "dual_start env t fsz sec rej s = ((True, r), s')"
  then show "dual_contents s' t = mem_erase 0 (unat OTA_FLASH_ERASE_SECTOR_SIZE) (dual_contents s t)"
  proof (rule dual_start_erases [OF drv])
    fix st :: dual_state
    assume st: "fmem st = fmem s" "erased_sector_addr st = 0xFFFFFFFF"
      and e: "ota_flash_erase_target_sector (de_driver env) t 0 st = (True, s')"
    from drv e show ?thesis
      by (cases rule: erase_target_cases)
        (simp_all add: st dual_contents_def mem_erase_def slot_start_not_top in_region_shift_0)
  qed
next
  fix t fsz sec rej r and s s' :: dual_state
  assume "dual_start env t fsz sec rej s = ((True, r), s')"
  then show "dual_tracked s' t 0"
  proof (rule dual_start_erases [OF drv])
    fix st :: dual_state
    assume "ota_flash_erase_target_sector (de_driver env) t 0 st = (True, s')"
    with drv show ?thesis
      by (cases rule: erase_target_cases) (simp_all add: dual_tracked_def)
  qed
next
  fix t fsz sec rej r and len :: u16 and off :: u32 and s s' :: dual_state
  assume st: "dual_start env t fsz sec rej s = ((True, r), s')" and off: "unat off + unat len \<le> unat fsz"
  from st show "dual_bounds_ok fsz t off len"
    by (rule dual_start_erases [OF drv]) (use off in \<open>simp add: dual_bounds_ok_def target_bounds_iff\<close>)
next
  fix t off len s bs s'
  assume "dual_read t off len s = (Some bs, s')"
  then show "bs = mem_read (dual_contents s t) off (unat len)"
    by (auto simp: dual_read_def ota_flash_read_target_def dual_contents_def mem_read_shift split: if_splits)
next
  fix t off len s rd s'
  assume "dual_read t off len s = (rd, s')"
  then show "dual_contents s' = dual_contents s \<and> dual_tracked s' = dual_tracked s"
    by (simp add: dual_read_def)
qed

interpretation dual: sensor_backend_laws "dual_backend (env\<lparr>de_driver := nor_driver\<rparr>)" dual_contents dual_tracked
  for env
  by (rule dual_backend_laws) (simp add: nor_driver_ok)

section \<open>Staging\<close>

lemma slot_of_target:
  assumes "fst (ota_metadata_mark_verified m (ucast (t :: u8)) v z c)"
  obtains s where "t = slot_no s"
proof -
  have "unat (ucast t :: u32) = unat t" using unat_u8_less [of t]
    by (simp add: unsigned_ucast_eq take_bit_nat_eq_self)
  then have "ucast t = (0 :: u32) \<Longrightarrow> t = 0" "ucast t = (1 :: u32) \<Longrightarrow> t = 1"
    by (metis unat_eq_zero, metis unsigned_1 word_unat_eq_iff)
  with assms have "t = slot_no SlotA \<or> t = slot_no SlotB"
    by (auto simp: ota_metadata_mark_verified_def slot_defs split: if_splits)
  with that show ?thesis by blast
qed

lemma dual_stage_effect:
  assumes drv: "flash_driver_ok (de_driver env)"
    and staged: "dual_stage env fsz t st = (True, st')"
  shows "\<exists>s v z c m. t = slot_no s \<and> validate_downloaded_image env fsz t st = Some (v, z, c) \<and>
    ota_flash_read_metadata st' = (True, m) \<and> current_metadata st' = m \<and>
    bv_candidate (boot_view_of m) = slot_no s \<and> bv_attempts (boot_view_of m) = 0 \<and>
    bv_image (boot_view_of m) s =
      \<lparr>img_state = OTA_IMAGE_STATE_PENDING, img_version = v, img_size = z, img_crc = c\<rparr> \<and>
    (\<forall>m0. ota_flash_read_metadata st = (True, m0) \<longrightarrow>
       bv_active (boot_view_of m) = bv_active (boot_view_of m0) \<and>
       bv_image (boot_view_of m) (other_slot s) = bv_image (boot_view_of m0) (other_slot s)) \<and>
    (\<forall>x. \<not> in_region NV_METADATA_PAGE_ADDRESS (unat OTA_FLASH_ERASE_SECTOR_SIZE) x \<longrightarrow> fmem st' x = fmem st x)"
proof -
  from staged obtain v z c where val: "validate_downloaded_image env fsz t st = Some (v, z, c)"
    by (auto simp: dual_stage_def split: option.splits)
  obtain known stored where rd: "ota_flash_read_metadata st = (known, stored)"
    by (cases "ota_flash_read_metadata st")
  define m0 where "m0 = (if known then stored
      else ota_metadata_init_factory stored (ucast (current_slot st))
             (dual_image_softver_to_u32 (softVer (fixedHdr (ota_image_header env))))
             (dual_running_size env) (crc32 (fixedHdr (ota_image_header env))))"
  have magic: "magic m0 = OTA_IMAGE_MAGIC"
    using rd by (auto simp: m0_def ota_flash_read_metadata_def Let_def dest: crc_is_valid_magic)
  from staged val rd have "fst (ota_metadata_mark_verified m0 (ucast t) v z c)"
    by (auto simp: dual_stage_def m0_def Let_def split: prod.splits if_splits)
  then obtain s where t: "t = slot_no s" by (rule slot_of_target)
  obtain m1 m2 where ops: "ota_metadata_mark_verified m0 (slot_no s) v z c = (True, m1)"
      "ota_metadata_stage_verified_image m1 (slot_no s) = (True, m2)" "ota_metadata_crc_is_valid m2"
    and view: "boot_view_of m2 =
       (set_image \<lparr>img_state = OTA_IMAGE_STATE_PENDING, img_version = v, img_size = z, img_crc = c\<rparr> s
          (boot_view_of m0))\<lparr>bv_candidate := slot_no s, bv_attempts := 0\<rparr>"
    using magic by (rule mark_stage_seq)
  obtain ok st1 where w: "ota_flash_write_metadata (de_driver env) m2 st = (ok, st1)"
    by (cases "ota_flash_write_metadata (de_driver env) m2 st")
  from staged val rd ops w t have ok: "ok" and st': "st' = st1\<lparr>current_metadata := m2\<rparr>"
    by (auto simp: dual_stage_def Let_def m0_def [symmetric] split: bool.splits)
  from drv w ok have persisted: "ota_flash_read_metadata st1 = (True, m2)"
    "\<not> in_region NV_METADATA_PAGE_ADDRESS (unat OTA_FLASH_ERASE_SECTOR_SIZE) x \<Longrightarrow> fmem st1 x = fmem st x" for x
    using write_metadata_persists [of "de_driver env" m2 st st1] ops(3) by auto
  then have "ota_flash_read_metadata st' = (True, m2)"
    by (simp add: st' ota_flash_read_metadata_def)
  moreover have "m0 = stored" if "ota_flash_read_metadata st = (True, n)" for n
    using that rd by (simp add: m0_def)
  ultimately show ?thesis
    using t val view persisted(2) rd by (intro exI [of _ s] exI [of _ v] exI [of _ z] exI [of _ c] exI [of _ m2])
      (auto simp: st' set_image_def)
qed

text \<open>What a successful staging leaves behind: the downloaded image validated, the metadata in flash is
  valid and equals the RAM copy, it names the target as boot candidate with no boot attempts and
  records the version, size and CRC of the image header as PENDING; if the metadata was valid
  before, the other slot's record and the active slot are as they were; and no flash byte
  outside the metadata sector changed.\<close>

theorem dual_stage_success:
  assumes drv: "flash_driver_ok (de_driver env)"
    and staged: "dual_stage env fsz t st = (True, st')"
  shows "\<exists>s v z c m. t = slot_no s \<and> validate_downloaded_image env fsz t st = Some (v, z, c) \<and>
    ota_flash_read_metadata st' = (True, m) \<and> current_metadata st' = m \<and>
    bv_candidate (boot_view_of m) = slot_no s \<and> bv_attempts (boot_view_of m) = 0 \<and>
    bv_image (boot_view_of m) s =
      \<lparr>img_state = OTA_IMAGE_STATE_PENDING, img_version = v, img_size = z, img_crc = c\<rparr> \<and>
    (\<forall>m0. ota_flash_read_metadata st = (True, m0) \<longrightarrow>
       bv_active (boot_view_of m) = bv_active (boot_view_of m0) \<and>
       bv_image (boot_view_of m) (other_slot s) = bv_image (boot_view_of m0) (other_slot s)) \<and>
    (\<forall>x. \<not> in_region NV_METADATA_PAGE_ADDRESS (unat OTA_FLASH_ERASE_SECTOR_SIZE) x \<longrightarrow> fmem st' x = fmem st x)"
  using drv staged by (rule dual_stage_effect)

text \<open>A small instance for the witnesses: a layout in which every header reads as an image for slot
  B with security version 2, on a node that runs version 1 in slot A.\<close>

definition sample_header :: imgHdr where
  "sample_header =
     \<lparr>fixedHdr =
        \<lparr>imgID = oad_id, crc32 = 77, bimVer = 0, metaVer = 0, techType = 0, imgCpStat = 0,
         crcStat = 0, imgType = 7, imgNo = 0, imgVld = 0, hdr_len = 0, prgEntry = 0x2E000,
         softVer = [0, 0, 0, 1], imgEndAddr = 0x2E004, hdrLen = 0\<rparr>,
      secVer = 2,
      imgPayload = \<lparr>segTypeImg = 1, wirelessTech = 0, startAddr = 0x2E000\<rparr>\<rparr>"

definition sample_sdk :: oad_sdk where
  "sample_sdk =
     \<lparr>sizeof_imgHdr = 100, imgHdr_of_bytes = (\<lambda>_. sample_header),
      bytes_of_ExtImageInfo = (\<lambda>_. oad_id),
      ExtImageInfo_of_bytes = (\<lambda>_. \<lparr>ext_fixedHdr = fixedHdr sample_header, extFlAddr = 0, counter = 0\<rparr>),
      sizeof_ExtImageInfo = 8, OAD_IMG_ID_VAL = oad_id, OAD_EXTFL_ID_VAL = oad_id,
      OAD_WIRELESS_TECH_TIMAC_2_4G = 0, OAD_IMG_TYPE_APPSTACKLIB = 7, BIM_VER = 0, META_VER = 0,
      CRC_INVALID = 0xFC, CRC_VALID = 0xFE, NEED_COPY = 0xFE, DEFAULT_CRC = 0,
      DEFAULT_STATE = 0xFF, INVALID_LEN = 0xFFFFFFFF, IMG_PAYLOAD_SEG_ID = 1,
      RSTSRC_PWR_ON = 0, RSTSRC_PIN_RESET = 1, RSTSRC_WAKEUP_FROM_SHUTDOWN = 7\<rparr>"

definition sample_env :: dual_env where
  "sample_env =
     \<lparr>de_driver = nor_driver, de_sdk = sample_sdk,
      ota_image_header = sample_header\<lparr>secVer := 1, fixedHdr := (fixedHdr sample_header)\<lparr>imgEndAddr := 0x1FF, crc32 := 42\<rparr>\<rparr>,
      ota_image_header_addr = 0\<rparr>"

definition sample_state :: dual_state where
  "sample_state =
     \<lparr>fmem = (\<lambda>_. 0), erased_sector_addr = 0xFFFFFFFF, current_metadata = metadata_of_words [],
      current_slot = 0, rejected_same_slot = False\<rparr>"

lemmas sample_defs = sample_env_def sample_sdk_def sample_header_def sample_state_def

lemma sample_validates:
  "validate_downloaded_image sample_env fsz OTA_SLOT_B st =
     (if fsz < 5 then None else Some (0x01000000, 5, 77))"
  by (simp add: validate_downloaded_image_def sample_defs Let_def oad_image_header_read_def
      ota_flash_slot_start_def ota_flash_slot_size_def layout_defs slot_defs
      dual_image_softver_to_u32_def word_le_nat_alt)

lemma sample_metadata_unknown: "\<not> fst (ota_flash_read_metadata sample_state)"
proof -
  have "mem_read (fmem sample_state) NV_METADATA_PAGE_ADDRESS sizeof_metadata = le32s [0, 0, 0, 0, 0, 0, 0, 0, 0, 0, 0, 0, 0]"
    by (simp add: sample_state_def mem_read_def sizeof_metadata_def le32s_def le32_def numeral_eq_Suc)
  then show ?thesis
    by (simp add: ota_flash_read_metadata_def metadata_of_bytes_def ota_metadata_crc_is_valid_def
        Let_def OTA_IMAGE_MAGIC_def)
qed

lemma sample_running:
  "dual_image_softver_to_u32 (softVer (fixedHdr (ota_image_header sample_env))) = 0x01000000"
  "dual_running_size sample_env = 0x200" "crc32 (fixedHdr (ota_image_header sample_env)) = 42"
  "current_slot sample_state = 0" "de_driver sample_env = nor_driver"
  by (simp_all add: sample_defs dual_image_softver_to_u32_def dual_running_size_def)

lemma write_metadata_nor: "fst (ota_flash_write_metadata nor_driver m st)"
  by (simp add: ota_flash_write_metadata_def erase_flash_sector_def program_flash_def nor_driver_def
      split: prod.splits bool.splits)

theorem dual_stage_success_witness:
  "\<exists>st' m. dual_stage sample_env 0x400 OTA_SLOT_B sample_state = (True, st') \<and>
     ota_flash_read_metadata st' = (True, m) \<and> candidate_slot m = 1"
proof -
  obtain stored where unknown: "ota_flash_read_metadata sample_state = (False, stored)"
    using sample_metadata_unknown by (metis prod.collapse)
  let ?m0 = "ota_metadata_init_factory stored 0 0x01000000 0x200 42"
  obtain m1 m2 where ops: "ota_metadata_mark_verified ?m0 (slot_no SlotB) 0x01000000 5 77 = (True, m1)"
    "ota_metadata_stage_verified_image m1 (slot_no SlotB) = (True, m2)"
    by (rule mark_stage_seq [of ?m0 SlotB]) simp_all
  obtain st1 where w: "ota_flash_write_metadata nor_driver m2 sample_state = (True, st1)"
    using write_metadata_nor [of m2 sample_state] by (metis prod.collapse)
  have staged: "dual_stage sample_env 0x400 OTA_SLOT_B sample_state = (True, st1\<lparr>current_metadata := m2\<rparr>)"
    using ops [simplified] w
    by (simp add: dual_stage_def sample_validates unknown sample_running)
  have drv: "flash_driver_ok (de_driver sample_env)" by (simp add: sample_env_def nor_driver_ok)
  from dual_stage_success [OF drv staged] obtain s m where "(OTA_SLOT_B :: u8) = slot_no s"
    "ota_flash_read_metadata (st1\<lparr>current_metadata := m2\<rparr>) = (True, m)"
    "bv_candidate (boot_view_of m) = slot_no s" by (elim exE conjE) (rule that)
  then have "ota_flash_read_metadata (st1\<lparr>current_metadata := m2\<rparr>) = (True, m) \<and> candidate_slot m = 1"
    by (cases s) (simp_all add: boot_view_of_def slot_defs)
  with staged show ?thesis by blast
qed

end
