(* ===== verification/Dual_Boot.thy ===== *)
theory Dual_Boot
  imports Dual_Backend
begin

text \<open>
  The boot-time protocol of the dual-onchip layout over several boots: what one
  \<open>ota_sensor_boot_check\<close> does to the persisted metadata, that an image that keeps crashing before
  its confirmation is abandoned after a bounded number of boots from any flash contents, what the
  fallback leaves in flash, when the thirty-second stability confirmation takes effect, that an
  image which crashes only after it is never abandoned, and when a START is admitted.
\<close>

section \<open>Boots\<close>

text \<open>A reset re-initialises the static variables; the flash keeps its contents.\<close>

definition power_up :: "dual_state \<Rightarrow> dual_state" where
  "power_up st =
     st\<lparr>erased_sector_addr := 0xFFFFFFFF, current_metadata := metadata_of_words [],
       current_slot := 0xff, rejected_same_slot := False\<rparr>"

text \<open>Consecutive boots of the image described by \<open>env\<close>, as long as the boot check lets the image
  run. A boot is given by its reset source and by what the image then does to its state and to
  the flash until the next reset.\<close>

fun boots :: "dual_env \<Rightarrow> (u32 \<times> (dual_state \<Rightarrow> dual_state)) list \<Rightarrow> dual_state \<Rightarrow> boot_outcome \<times> dual_state" where
  "boots env [] st = (BootContinues, st)"
| "boots env ((r, run) # bs) st =
     (case dual_boot_check env r (power_up st) of
        (BootContinues, st') \<Rightarrow> boots env bs (run st')
      | (b, st') \<Rightarrow> (b, st'))"

text \<open>What an image does before it crashes that leaves the boot record in flash as it is: all of
  its work, a download into the other slot included, except staging an update and the
  thirty-second confirmation.\<close>

definition keeps_record :: "(dual_state \<Rightarrow> dual_state) \<Rightarrow> bool" where
  "keeps_record run \<longleftrightarrow> (\<forall>st. ota_flash_read_metadata (run st) = ota_flash_read_metadata st)"

definition abnormal_reset :: "dual_env \<Rightarrow> u32 \<Rightarrow> bool" where
  "abnormal_reset env r \<longleftrightarrow>
     r \<noteq> RSTSRC_PWR_ON (de_sdk env) \<and> r \<noteq> RSTSRC_PIN_RESET (de_sdk env) \<and>
     r \<noteq> RSTSRC_WAKEUP_FROM_SHUTDOWN (de_sdk env)"

text \<open>Flash operations that also succeed: NOR flash without faults.\<close>

definition driver_never_fails :: "flash_driver \<Rightarrow> bool" where
  "driver_never_fails drv \<longleftrightarrow> flash_driver_ok drv \<and>
     (\<forall>bs a m. fst (FlashProgram drv bs a m) = FAPI_STATUS_SUCCESS drv) \<and>
     (\<forall>a m. fst (FlashSectorErase drv a m) = FAPI_STATUS_SUCCESS drv)"

lemma nor_driver_never_fails: "driver_never_fails nor_driver"
  by (simp add: driver_never_fails_def nor_driver_ok) (simp add: nor_driver_def)

lemma program_flash_never_fails: "driver_never_fails drv \<Longrightarrow> fst (program_flash drv a bs st)"
  by (simp add: driver_never_fails_def program_flash_def split: prod.splits) (metis fst_conv)

lemma erase_flash_never_fails: "driver_never_fails drv \<Longrightarrow> fst (erase_flash_sector drv a st)"
  by (simp add: driver_never_fails_def erase_flash_sector_def split: prod.splits) (metis fst_conv)

lemma write_metadata_never_fails:
  assumes "driver_never_fails drv"
  shows "fst (ota_flash_write_metadata drv m st)"
proof -
  have "fst (program_flash drv NV_METADATA_PAGE_ADDRESS (metadata_bytes m) s)"
    "fst (erase_flash_sector drv NV_METADATA_PAGE_ADDRESS s)" for s :: "'a flash_state_scheme"
    using assms by (simp_all add: program_flash_never_fails erase_flash_never_fails)
  then show ?thesis
    by (auto simp: ota_flash_write_metadata_def split: prod.splits bool.splits)
      (metis fst_conv)+
qed

lemma write_metadata_effect:
  assumes "driver_never_fails drv"
  shows "ota_flash_read_metadata (snd (ota_flash_write_metadata drv m st)) = (ota_metadata_crc_is_valid m, m)"
    and "\<not> in_region NV_METADATA_PAGE_ADDRESS (unat OTA_FLASH_ERASE_SECTOR_SIZE) x \<Longrightarrow>
      fmem (snd (ota_flash_write_metadata drv m st)) x = fmem st x"
    and "snd (ota_flash_write_metadata drv m st) =
      st\<lparr>fmem := fmem (snd (ota_flash_write_metadata drv m st))\<rparr>"
proof -
  have drv: "flash_driver_ok drv" using assms by (simp add: driver_never_fails_def)
  obtain st' where w: "ota_flash_write_metadata drv m st = (True, st')"
    using write_metadata_never_fails [OF assms, of m st] by (metis prod.collapse)
  from write_metadata_persists [OF drv w]
  show "ota_flash_read_metadata (snd (ota_flash_write_metadata drv m st)) = (ota_metadata_crc_is_valid m, m)"
    and "\<not> in_region NV_METADATA_PAGE_ADDRESS (unat OTA_FLASH_ERASE_SECTOR_SIZE) x \<Longrightarrow>
      fmem (snd (ota_flash_write_metadata drv m st)) x = fmem st x"
    by (simp_all add: w)
  show "snd (ota_flash_write_metadata drv m st) =
      st\<lparr>fmem := fmem (snd (ota_flash_write_metadata drv m st))\<rparr>"
    using drv w by (cases rule: write_metadata_cases) (simp_all add: w)
qed

section \<open>One boot\<close>

definition running_slot :: "dual_env \<Rightarrow> u8" where
  "running_slot env = ota_flash_current_slot (ota_image_header_addr env)"

lemma running_slot_cases: obtains s where "running_slot env = slot_no s"
  by (metis running_slot_def ota_flash_current_slot_def slot_no.simps)

text \<open>The record knows the running image: its slot is active or candidate, with the CRC of the
  image that runs.\<close>

definition knows_running :: "dual_env \<Rightarrow> slot \<Rightarrow> ota_boot_metadata \<Rightarrow> bool" where
  "knows_running env s m \<longleftrightarrow>
     slot_no s \<in> {active_slot m, candidate_slot m} \<and>
     img_crc (bv_image (boot_view_of m) s) = crc32 (fixedHdr (ota_image_header env))"

lemma boot_check_running_known:
  "knows_running env s m \<Longrightarrow> boot_check_running env r (slot_no s) m =
     (if abnormal_reset env r then ota_metadata_increment_boot_attempts m else m)"
  by (cases s) (auto simp: boot_check_running_def knows_running_def abnormal_reset_def boot_view_of_def
      slot_defs Let_def)

lemma boot_check_running_new:
  "\<not> knows_running env s m \<Longrightarrow> boot_check_running env r (slot_no s) m =
     ota_metadata_set_candidate m (slot_no s)
       (of_le32 (take 4 (softVer (fixedHdr (ota_image_header env)))))
       (dual_running_size env) (crc32 (fixedHdr (ota_image_header env)))"
  by (cases s) (auto simp: boot_check_running_def knows_running_def boot_view_of_def slot_defs Let_def)

lemma dual_other_slot_no [simp]: "dual_other_slot (slot_no s) = slot_no (other_slot s)"
  by (cases s) (simp_all add: dual_other_slot_def slot_defs)

lemma boot_check_shadow_cases:
  "boot_check_shadow env mem (slot_no s) m = m \<or>
   boot_check_shadow env mem (slot_no s) m = ota_metadata_clear_slot m (slot_no (other_slot s))"
  using dual_other_slot_no [of s]
  by (simp only: boot_check_shadow_def Let_def prod.case_eq_if) (simp del: slot_no.simps)

lemma boot_check_shadow_keeps [simp]:
  "boot_attempts (boot_check_shadow env mem (slot_no s) m) = boot_attempts m"
  "active_slot (boot_check_shadow env mem (slot_no s) m) = active_slot m"
  "candidate_slot (boot_check_shadow env mem (slot_no s) m) = candidate_slot m"
  "magic (boot_check_shadow env mem (slot_no s) m) = magic m"
  "bv_image (boot_view_of (boot_check_shadow env mem (slot_no s) m)) s = bv_image (boot_view_of m) s"
  using boot_check_shadow_cases [of env mem s m] clear_slot_view [of m "other_slot s"]
  by (auto simp: ota_metadata_clear_slot_def set_image_def)

lemma boot_check_shadow_valid:
  "ota_metadata_crc_is_valid m \<Longrightarrow> ota_metadata_crc_is_valid (boot_check_shadow env mem (slot_no s) m)"
  using boot_check_shadow_cases [of env mem s m] by (auto dest: crc_is_valid_magic)

lemma boot_check_running_valid:
  "ota_metadata_crc_is_valid m \<Longrightarrow> ota_metadata_crc_is_valid (boot_check_running env r slot m)"
  by (auto simp: boot_check_running_def Let_def dest: crc_is_valid_magic)

text \<open>The record a boot computes from the stored one.\<close>

definition booted_metadata :: "dual_env \<Rightarrow> u32 \<Rightarrow> mem \<Rightarrow> slot \<Rightarrow> ota_boot_metadata \<Rightarrow> ota_boot_metadata" where
  "booted_metadata env r mem s m =
     boot_check_shadow env mem (slot_no s) (boot_check_running env r (slot_no s) m)"

lemma booted_metadata_valid:
  "ota_metadata_crc_is_valid m \<Longrightarrow> ota_metadata_crc_is_valid (booted_metadata env r mem s m)"
  by (simp add: booted_metadata_def boot_check_shadow_valid boot_check_running_valid)

lemma booted_metadata_knows: "knows_running env s (booted_metadata env r mem s m)"
proof (cases "knows_running env s m")
  case True
  then show ?thesis
    using increment_view [of m]
    by (simp add: booted_metadata_def boot_check_running_known knows_running_def
        ota_metadata_increment_boot_attempts_def)
next
  case False
  then show ?thesis
    using set_candidate_view [of m s]
    by (simp add: booted_metadata_def boot_check_running_new knows_running_def set_image_def
        ota_metadata_set_candidate_def Let_def)
qed

lemma booted_metadata_attempts:
  "boot_attempts (booted_metadata env r mem s m) =
     (if \<not> knows_running env s m then 1
      else if abnormal_reset env r then boot_attempts m + 1 else boot_attempts m)"
  by (simp add: booted_metadata_def boot_check_running_known boot_check_running_new
      ota_metadata_increment_boot_attempts_def ota_metadata_set_candidate_def Let_def)

lemma init_factory_knows:
  "running_slot env = slot_no s \<Longrightarrow>
   knows_running env s (ota_metadata_init_factory m (slot_no s) v z (crc32 (fixedHdr (ota_image_header env))))"
  using init_factory_view [of m s]
  by (simp add: knows_running_def) (simp add: boot_view_of_def)

text \<open>One boot check on flash without faults: what is read back from flash afterwards.\<close>

lemma boot_check_unknown:
  assumes drv: "driver_never_fails (de_driver env)" and s: "running_slot env = slot_no s"
    and rd: "ota_flash_read_metadata st = (False, m0)"
  shows "\<exists>m st'. dual_boot_check env r (power_up st) = (BootContinues, st') \<and>
     ota_flash_read_metadata st' = (True, m) \<and> current_metadata st' = m \<and> current_slot st' = slot_no s \<and>
     knows_running env s m \<and> boot_attempts m = 0"
proof -
  let ?st = "(power_up st)\<lparr>current_slot := slot_no s\<rparr>"
  let ?m = "ota_metadata_init_factory m0 (slot_no s)
     (of_le32 (take 4 (softVer (fixedHdr (ota_image_header env))))) (dual_running_size env)
     (crc32 (fixedHdr (ota_image_header env)))"
  have rd': "ota_flash_read_metadata ?st = (False, m0)"
    using rd by (simp add: ota_flash_read_metadata_def power_up_def)
  let ?w = "ota_flash_write_metadata (de_driver env) ?m (?st\<lparr>current_metadata := ?m\<rparr>)"
  have "dual_boot_check env r (power_up st) = (BootContinues, snd ?w)"
    using rd' s by (simp add: dual_boot_check_def running_slot_def Let_def)
  moreover have "current_metadata (snd ?w) = ?m" "current_slot (snd ?w) = slot_no s"
    by (subst write_metadata_effect(3) [OF drv], simp)+
  ultimately show ?thesis
    using write_metadata_effect(1) [OF drv, of ?m] init_factory_knows [OF s, of m0]
    by (auto simp: ota_metadata_init_factory_def Let_def)
qed

lemma boot_check_known:
  assumes drv: "driver_never_fails (de_driver env)" and s: "running_slot env = slot_no s"
    and rd: "ota_flash_read_metadata st = (True, m0)"
  shows "\<exists>st'. ota_flash_read_metadata st' = (True, booted_metadata env r (fmem st) s m0) \<and>
     current_metadata st' = booted_metadata env r (fmem st) s m0 \<and> current_slot st' = slot_no s \<and>
     (\<forall>x. \<not> in_region NV_METADATA_PAGE_ADDRESS (unat OTA_FLASH_ERASE_SECTOR_SIZE) x \<longrightarrow> fmem st' x = fmem st x) \<and>
     dual_boot_check env r (power_up st) =
       (if boot_attempts (booted_metadata env r (fmem st) s m0) > MAX_BOOT_ATTEMPTS
        then boot_fallback env st' else (BootContinues, st'))"
proof -
  let ?st = "(power_up st)\<lparr>current_slot := slot_no s\<rparr>"
  let ?m = "booted_metadata env r (fmem st) s m0"
  have rd': "ota_flash_read_metadata ?st = (True, m0)" "fmem ?st = fmem st"
    using rd by (simp_all add: ota_flash_read_metadata_def power_up_def)
  have valid: "ota_metadata_crc_is_valid ?m"
    using rd by (intro booted_metadata_valid) (auto simp: ota_flash_read_metadata_def Let_def)
  let ?w = "ota_flash_write_metadata (de_driver env) ?m (?st\<lparr>current_metadata := ?m\<rparr>)"
  have "dual_boot_check env r (power_up st) =
      (if boot_attempts ?m > MAX_BOOT_ATTEMPTS then boot_fallback env (snd ?w) else (BootContinues, snd ?w))"
    using rd' s by (simp add: dual_boot_check_def running_slot_def Let_def booted_metadata_def)
  moreover have "current_metadata (snd ?w) = ?m" "current_slot (snd ?w) = slot_no s"
    by (subst write_metadata_effect(3) [OF drv], simp)+
  moreover have "ota_flash_read_metadata (snd ?w) = (True, ?m)"
    using write_metadata_effect(1) [OF drv, of ?m] valid by simp
  moreover have "fmem (snd ?w) x = fmem st x"
    if "\<not> in_region NV_METADATA_PAGE_ADDRESS (unat OTA_FLASH_ERASE_SECTOR_SIZE) x" for x
    by (subst write_metadata_effect(2) [OF drv that]) (use rd'(2) in simp)
  ultimately show ?thesis by (intro exI [of _ "snd ?w"]) simp
qed

section \<open>Crash loops end\<close>

lemma boot_fallback_stops: "fst (boot_fallback env st) \<noteq> BootContinues"
  by (auto simp: boot_fallback_def Let_def split: prod.splits bool.splits)

lemma boots_stop:
  assumes "dual_boot_check env r (power_up st) = (b, st')" and "b \<noteq> BootContinues"
  shows "fst (boots env ((r, run) # bs) st) \<noteq> BootContinues"
  using assms by (cases b) simp_all

text \<open>One boot of an image after an abnormal reset, whatever the flash held: it stops, or leaves a
  record that knows the image and counts at most three attempts.\<close>

lemma boot_check_first:
  assumes drv: "driver_never_fails (de_driver env)" and s: "running_slot env = slot_no s"
  shows "fst (dual_boot_check env r (power_up st)) \<noteq> BootContinues \<or>
    (\<exists>m st'. dual_boot_check env r (power_up st) = (BootContinues, st') \<and>
       ota_flash_read_metadata st' = (True, m) \<and> knows_running env s m \<and> boot_attempts m \<le> MAX_BOOT_ATTEMPTS)"
proof -
  obtain known m0 where rd: "ota_flash_read_metadata st = (known, m0)" by (cases "ota_flash_read_metadata st")
  show ?thesis
  proof (cases known)
    case False
    with boot_check_unknown [OF drv s] rd show ?thesis by (fastforce simp: MAX_BOOT_ATTEMPTS_def)
  next
    case True
    let ?m = "booted_metadata env r (fmem st) s m0"
    have rdT: "ota_flash_read_metadata st = (True, m0)" using rd True by simp
    from boot_check_known [OF drv s rdT] obtain st' where rd': "ota_flash_read_metadata st' = (True, ?m)"
      and b: "dual_boot_check env r (power_up st) =
        (if boot_attempts ?m > MAX_BOOT_ATTEMPTS then boot_fallback env st' else (BootContinues, st'))"
      by blast
    show ?thesis
    proof (cases "boot_attempts ?m > MAX_BOOT_ATTEMPTS")
      case True
      then show ?thesis by (simp add: b boot_fallback_stops)
    next
      case False
      then show ?thesis using b rd' booted_metadata_knows by (auto simp: not_less)
    qed
  qed
qed

lemma boots_counting:
  assumes drv: "driver_never_fails (de_driver env)" and s: "running_slot env = slot_no s"
    and rd: "ota_flash_read_metadata st = (True, m)" and kn: "knows_running env s m"
    and bound: "boot_attempts m \<le> MAX_BOOT_ATTEMPTS"
    and bs: "list_all (\<lambda>(r, run). abnormal_reset env r \<and> keeps_record run) bs"
    and len: "4 - unat (boot_attempts m) \<le> length bs"
  shows "fst (boots env bs st) \<noteq> BootContinues"
  using rd kn bound bs len
proof (induction bs arbitrary: st m)
  case Nil
  then show ?case by (simp add: MAX_BOOT_ATTEMPTS_def word_nat)
next
  case (Cons b bs)
  obtain r run where b_eq: "b = (r, run)" by fastforce
  let ?m = "booted_metadata env r (fmem st) s m"
  have r: "abnormal_reset env r" "keeps_record run" using Cons.prems(4) by (simp_all add: b_eq)
  have att: "boot_attempts ?m = boot_attempts m + 1"
    using Cons.prems r by (simp add: booted_metadata_attempts)
  have small: "unat (boot_attempts m) \<le> 3" using Cons.prems by (simp add: MAX_BOOT_ATTEMPTS_def word_nat)
  then have att_nat: "unat (boot_attempts ?m) = Suc (unat (boot_attempts m))"
    by (simp add: att unat_plus_u32)
  from boot_check_known [OF drv s Cons.prems(1)] obtain st' where rd': "ota_flash_read_metadata st' = (True, ?m)"
    and b: "dual_boot_check env r (power_up st) =
      (if boot_attempts ?m > MAX_BOOT_ATTEMPTS then boot_fallback env st' else (BootContinues, st'))"
    by blast
  show ?case
  proof (cases "boot_attempts ?m > MAX_BOOT_ATTEMPTS")
    case True
    then show ?thesis
      using boots_stop [of env r st] b boot_fallback_stops [of env st'] unfolding b_eq by (metis prod.collapse)
  next
    case False
    have "ota_flash_read_metadata (run st') = (True, ?m)" using r(2) rd' by (simp add: keeps_record_def)
    then have "fst (boots env bs (run st')) \<noteq> BootContinues"
      using False Cons.prems booted_metadata_knows att_nat by (intro Cons.IH [of "run st'" ?m]) (auto simp: not_less)
    with False show ?thesis by (simp add: b b_eq)
  qed
qed

text \<open>C8. An image that keeps crashing early is abandoned. On flash without faults, whatever the flash
  contains at first (no metadata, metadata of other images, any attempt counter, even one that is
  about to overflow), five consecutive boots of the same image, each after an abnormal reset,
  cannot all let the image run on, if between one boot check and the next the image leaves the boot
  record in flash as it is, that is, if it always crashes before its thirty-second confirmation
  and without having staged an update; anything else, such as a download into the other slot, may
  happen in between. At one of the boots the boot check stops, either in safe mode or by resetting
  into the other slot.\<close>

theorem crash_loop_is_abandoned:
  assumes drv: "driver_never_fails (de_driver env)"
    and bs: "list_all (\<lambda>(r, run). abnormal_reset env r \<and> keeps_record run) bs" and len: "5 \<le> length bs"
  shows "fst (boots env bs st) \<noteq> BootContinues"
proof -
  obtain s where s: "running_slot env = slot_no s" by (rule running_slot_cases)
  obtain r run rest where bs_eq: "bs = (r, run) # rest" using len by (cases bs) auto
  from boot_check_first [OF drv s, of r st] show ?thesis
  proof (elim disjE exE conjE)
    assume "fst (dual_boot_check env r (power_up st)) \<noteq> BootContinues"
    then show ?thesis unfolding bs_eq by (intro boots_stop) (simp_all add: prod_eq_iff)
  next
    fix m st'
    assume b: "dual_boot_check env r (power_up st) = (BootContinues, st')"
      and "ota_flash_read_metadata st' = (True, m)" "knows_running env s m" "boot_attempts m \<le> MAX_BOOT_ATTEMPTS"
    moreover from this bs have "ota_flash_read_metadata (run st') = (True, m)" by (simp add: bs_eq keeps_record_def)
    ultimately show ?thesis
      using boots_counting [OF drv s, of "run st'" m rest] bs len by (simp add: bs_eq)
  qed
qed

text \<open>An image whose boots are all cut short while it erases the first sector of the other slot.\<close>

lemma slot_erase_keeps_record:
  assumes "flash_driver_ok drv"
  shows "keeps_record (\<lambda>st. snd (ota_flash_erase_target_sector drv t so st))"
proof -
  have "ota_flash_read_metadata (snd (ota_flash_erase_target_sector drv t so st)) = ota_flash_read_metadata st"
    for st :: dual_state
  proof -
    obtain ok st' where e: "ota_flash_erase_target_sector drv t so st = (ok, st')" by fastforce
    have "mem_read (fmem st') NV_METADATA_PAGE_ADDRESS sizeof_metadata =
        mem_read (fmem st) NV_METADATA_PAGE_ADDRESS sizeof_metadata"
    proof (rule mem_read_cong)
      fix i assume i: "i < sizeof_metadata"
      then have "unat (NV_METADATA_PAGE_ADDRESS + of_nat i) = unat NV_METADATA_PAGE_ADDRESS + i"
        by (subst unat_plus_u32) (simp_all add: unat_of_nat_u32 layout_defs sizeof_metadata_def)
      then have "\<not> slot_region t (NV_METADATA_PAGE_ADDRESS + of_nat i)"
        using i by (auto simp: slot_region_def in_region_nat ota_flash_slot_start_def ota_flash_slot_size_def layout_defs
            sizeof_metadata_def)
      then show "fmem st' (NV_METADATA_PAGE_ADDRESS + of_nat i) = fmem st (NV_METADATA_PAGE_ADDRESS + of_nat i)"
        by (rule erase_target_frame(2) [OF assms e])
    qed
    then show ?thesis by (simp add: e ota_flash_read_metadata_def)
  qed
  then show ?thesis by (simp add: keeps_record_def)
qed

theorem crash_loop_is_abandoned_witness:
  "fst (boots sample_env (map (\<lambda>r. (r, \<lambda>st. snd (ota_flash_erase_target_sector nor_driver 1 0 st))) [3, 4, 5, 6, 3])
     sample_state) \<noteq> BootContinues"
  by (rule crash_loop_is_abandoned)
    (simp_all add: sample_running nor_driver_never_fails abnormal_reset_def sample_env_def sample_sdk_def
      slot_erase_keeps_record nor_driver_ok)

section \<open>Falling back\<close>

lemma boot_fallback_resets:
  assumes drv: "driver_never_fails (de_driver env)"
    and cur: "current_slot st = slot_no s" and m: "current_metadata st = m" and v: "ota_metadata_crc_is_valid m"
    and hdr: "ota_image_header_addr env = ota_flash_slot_start (slot_no s)"
    and b: "boot_fallback env st = (BootResets, st')"
  shows "\<exists>m'. ota_flash_read_metadata st' = (True, m') \<and>
    boot_view_of m' = (set_img_state OTA_IMAGE_STATE_CONFIRMED (other_slot s)
      (set_img_state OTA_IMAGE_STATE_INVALID s (boot_view_of m)))
        \<lparr>bv_active := slot_no (other_slot s), bv_candidate := OTA_SLOT_NONE, bv_attempts := 0\<rparr> \<and>
    fmem st' (ota_image_header_addr env + 13) = fmem st (ota_image_header_addr env + 13) AND 0xFC \<and>
    (\<forall>x. x \<noteq> ota_image_header_addr env + 13 \<longrightarrow>
       \<not> in_region NV_METADATA_PAGE_ADDRESS (unat OTA_FLASH_ERASE_SECTOR_SIZE) x \<longrightarrow> fmem st' x = fmem st x) \<and>
    mem_read (fmem st) (ota_flash_slot_start (slot_no (other_slot s))) 8 = oad_id"
proof -
  have drv_ok: "flash_driver_ok (de_driver env)" using drv by (simp add: driver_never_fails_def)
  let ?m1 = "ota_metadata_mark_slot_invalid m (slot_no s)"
  let ?m2 = "snd (ota_metadata_confirm_running_image ?m1 (slot_no (other_slot s)))"
  have v1: "ota_metadata_crc_is_valid ?m1" using v by (simp add: crc_is_valid_magic)
  note cv = confirm_view [OF v1, of "other_slot s"]
  let ?w = "ota_flash_write_metadata (de_driver env) ?m2 (st\<lparr>current_metadata := ?m2\<rparr>)"
  have outside: "\<not> in_region NV_METADATA_PAGE_ADDRESS (unat OTA_FLASH_ERASE_SECTOR_SIZE) (ota_image_header_addr env + 13)"
    by (cases s) (simp_all add: hdr ota_flash_slot_start_def layout_defs slot_defs in_region_nat)
  have id: "mem_read (fmem st) (ota_flash_slot_start (slot_no (other_slot s))) 8 = oad_id"
    and inv: "ota_flash_invalidate_image_header (de_driver env) (ota_image_header_addr env) (snd ?w) = (True, st')"
    using b cur m by (auto simp: boot_fallback_def Let_def simp del: slot_no.simps split: if_splits prod.splits bool.splits)
  from inv [unfolded ota_flash_invalidate_image_header_def]
  have st': "fmem st' = mem_program (ota_image_header_addr env + 13) [0xFC] (fmem (snd ?w))"
    using program_flash_frame(3) [OF drv_ok] by simp
  have keep: "fmem (snd ?w) x = fmem st x"
    if "\<not> in_region NV_METADATA_PAGE_ADDRESS (unat OTA_FLASH_ERASE_SECTOR_SIZE) x" for x
    by (subst write_metadata_effect(2) [OF drv that]) simp
  have same_page: "mem_read (fmem st') NV_METADATA_PAGE_ADDRESS sizeof_metadata =
      mem_read (fmem (snd ?w)) NV_METADATA_PAGE_ADDRESS sizeof_metadata"
  proof (rule mem_read_cong)
    fix i assume "i < sizeof_metadata"
    then have "in_region NV_METADATA_PAGE_ADDRESS (unat OTA_FLASH_ERASE_SECTOR_SIZE) (NV_METADATA_PAGE_ADDRESS + of_nat i)"
      by (intro in_region_of_nat) (simp_all add: sizeof_metadata_def layout_defs)
    with outside have "NV_METADATA_PAGE_ADDRESS + of_nat i \<noteq> ota_image_header_addr env + 13" by metis
    then show "fmem st' (NV_METADATA_PAGE_ADDRESS + of_nat i) = fmem (snd ?w) (NV_METADATA_PAGE_ADDRESS + of_nat i)"
      by (simp add: st' mem_program_def)
  qed
  have "ota_flash_read_metadata st' = ota_flash_read_metadata (snd ?w)"
    by (simp add: ota_flash_read_metadata_def same_page)
  also have "\<dots> = (True, ?m2)"
    using write_metadata_effect(1) [OF drv, of ?m2] cv(2) by simp
  finally have "ota_flash_read_metadata st' = (True, ?m2)" .
  moreover have "fmem st' (ota_image_header_addr env + 13) = fmem st (ota_image_header_addr env + 13) AND 0xFC"
    by (simp add: st' mem_program_def keep [OF outside])
  moreover have "fmem st' x = fmem st x" if "x \<noteq> ota_image_header_addr env + 13"
      "\<not> in_region NV_METADATA_PAGE_ADDRESS (unat OTA_FLASH_ERASE_SECTOR_SIZE) x" for x
    using that keep [of x] by (simp add: st' mem_program_def)
  ultimately show ?thesis using id cv(3) by (auto simp: mark_invalid_view)
qed

lemma running_slot_at_start:
  "ota_image_header_addr env = ota_flash_slot_start (slot_no s) \<Longrightarrow> running_slot env = slot_no s"
  by (cases s) (simp_all add: running_slot_def ota_flash_current_slot_def ota_flash_slot_start_def layout_defs slot_defs)

text \<open>C19. What falling back leaves behind on flash without faults. When the boot check resets the chip (the image at its
  slot's start crashed more than three times and the other slot holds an image), the persisted
  metadata is valid, names the other slot as active and CONFIRMED, has no candidate and no
  attempts, and marks the running slot INVALID; the other slot begins with the OAD identification
  bytes; of the crashing image's header exactly the validity byte was cleared to the boot image
  manager's "do not boot" value; and the rest of flash, outside the metadata sector, is
  untouched.\<close>

theorem fallback_switches_slot:
  assumes drv: "driver_never_fails (de_driver env)"
    and hdr: "ota_image_header_addr env = ota_flash_slot_start (slot_no s)"
    and b: "dual_boot_check env r (power_up st) = (BootResets, st')"
  shows "\<exists>m. ota_flash_read_metadata st' = (True, m) \<and>
    bv_active (boot_view_of m) = slot_no (other_slot s) \<and>
    bv_candidate (boot_view_of m) = OTA_SLOT_NONE \<and> bv_attempts (boot_view_of m) = 0 \<and>
    img_state (bv_image (boot_view_of m) (other_slot s)) = OTA_IMAGE_STATE_CONFIRMED \<and>
    img_state (bv_image (boot_view_of m) s) = OTA_IMAGE_STATE_INVALID \<and>
    mem_read (fmem st) (ota_flash_slot_start (slot_no (other_slot s))) 8 = oad_id \<and>
    fmem st' (ota_image_header_addr env + 13) = fmem st (ota_image_header_addr env + 13) AND 0xFC \<and>
    (\<forall>x. x \<noteq> ota_image_header_addr env + 13 \<longrightarrow>
       \<not> in_region NV_METADATA_PAGE_ADDRESS (unat OTA_FLASH_ERASE_SECTOR_SIZE) x \<longrightarrow> fmem st' x = fmem st x)"
proof -
  note s = running_slot_at_start [OF hdr]
  have "fst (ota_flash_read_metadata st)"
  proof (rule ccontr)
    assume "\<not> fst (ota_flash_read_metadata st)"
    then obtain m0 where "ota_flash_read_metadata st = (False, m0)" by (metis prod.collapse)
    from boot_check_unknown [OF drv s this, of r] b show False by auto
  qed
  then obtain m0 where rd: "ota_flash_read_metadata st = (True, m0)" by (metis prod.collapse)
  let ?m = "booted_metadata env r (fmem st) s m0"
  obtain st1 where st1: "ota_flash_read_metadata st1 = (True, ?m)" "current_metadata st1 = ?m"
      "current_slot st1 = slot_no s"
      "\<And>x. \<not> in_region NV_METADATA_PAGE_ADDRESS (unat OTA_FLASH_ERASE_SECTOR_SIZE) x \<Longrightarrow> fmem st1 x = fmem st x"
    and bc: "dual_boot_check env r (power_up st) =
      (if boot_attempts ?m > MAX_BOOT_ATTEMPTS then boot_fallback env st1 else (BootContinues, st1))"
    using boot_check_known [OF drv s rd, of r] by blast
  from b bc have fb: "boot_fallback env st1 = (BootResets, st')" by (simp split: if_splits)
  have valid: "ota_metadata_crc_is_valid ?m"
    using rd by (intro booted_metadata_valid) (auto simp: ota_flash_read_metadata_def Let_def)
  have same: "fmem st1 x = fmem st x" if "slot_region t x" for t x
    using st1(4) slot_regions_disjoint(2) [OF that] by blast
  have h: "slot_region (slot_no s) (ota_image_header_addr env + 13)"
    by (cases s) (simp_all add: hdr slot_region_def in_region_nat ota_flash_slot_start_def
        ota_flash_slot_size_def layout_defs slot_defs)
  have "mem_read (fmem st1) (ota_flash_slot_start (slot_no (other_slot s))) 8 =
      mem_read (fmem st) (ota_flash_slot_start (slot_no (other_slot s))) 8"
  proof (rule mem_read_cong)
    fix i :: nat assume "i < 8"
    then show "fmem st1 (ota_flash_slot_start (slot_no (other_slot s)) + of_nat i) =
        fmem st (ota_flash_slot_start (slot_no (other_slot s)) + of_nat i)"
      by (intro same [of "slot_no (other_slot s)"])
        (simp add: slot_region_def in_region_of_nat ota_flash_slot_size_def layout_defs)
  qed
  with boot_fallback_resets [OF drv st1(3,2) valid hdr fb] same [OF h] st1(4) show ?thesis
    by (elim exE conjE) (simp add: set_img_state_def)
qed

definition crashing_metadata :: ota_boot_metadata where
  "crashing_metadata = ota_metadata_refresh_crc
     ((ota_metadata_init_factory (metadata_of_words []) OTA_SLOT_A 0x01000000 0x200 42)\<lparr>boot_attempts := 3\<rparr>)"

definition crashing_state :: dual_state where
  "crashing_state = snd (ota_flash_write_metadata nor_driver crashing_metadata
     (sample_state\<lparr>fmem := mem_write OTA_SLOT_B_START oad_id (\<lambda>_. 0)\<rparr>))"

lemma crashing_metadata_fields:
  "ota_metadata_crc_is_valid crashing_metadata" "boot_attempts crashing_metadata = 3"
  "knows_running sample_env SlotA crashing_metadata" "state_b crashing_metadata = OTA_IMAGE_STATE_EMPTY"
  by (simp_all add: crashing_metadata_def ota_metadata_init_factory_def Let_def knows_running_def
      boot_view_of_def sample_running)

lemma booted_state_other:
  "state_b m = OTA_IMAGE_STATE_EMPTY \<Longrightarrow> knows_running env SlotA m \<Longrightarrow>
   state_b (booted_metadata env r mem SlotA m) = OTA_IMAGE_STATE_EMPTY"
  using boot_check_shadow_cases [of env mem SlotA "boot_check_running env r (slot_no SlotA) m"]
    boot_check_running_known [of env SlotA m r]
  by (auto simp: booted_metadata_def ota_metadata_clear_slot_def ota_metadata_increment_boot_attempts_def slot_defs)

lemma oad_id_length [simp]: "length oad_id = 8"
  by (simp add: oad_id_def)

lemma crashing_boot_resets: "fst (dual_boot_check sample_env 3 (power_up crashing_state)) = BootResets"
proof -
  have drv: "driver_never_fails (de_driver sample_env)" by (simp add: sample_running nor_driver_never_fails)
  have s: "running_slot sample_env = slot_no SlotA"
    by (simp add: running_slot_def sample_env_def ota_flash_current_slot_def layout_defs)
  have rd: "ota_flash_read_metadata crashing_state = (True, crashing_metadata)"
    using write_metadata_effect(1) [OF nor_driver_never_fails, of crashing_metadata]
    by (simp add: crashing_state_def crashing_metadata_fields)
  have abn: "abnormal_reset sample_env 3" by (simp add: abnormal_reset_def sample_defs)
  let ?m = "booted_metadata sample_env 3 (fmem crashing_state) SlotA crashing_metadata"
  have m: "state_b ?m = OTA_IMAGE_STATE_EMPTY" "boot_attempts ?m > MAX_BOOT_ATTEMPTS"
    by (simp_all add: booted_state_other booted_metadata_attempts crashing_metadata_fields abn MAX_BOOT_ATTEMPTS_def)
  from boot_check_known [OF drv s rd, of 3] m(2) obtain st1 where st1: "current_metadata st1 = ?m"
      "current_slot st1 = slot_no SlotA"
      "\<And>x. \<not> in_region NV_METADATA_PAGE_ADDRESS (unat OTA_FLASH_ERASE_SECTOR_SIZE) x \<Longrightarrow> fmem st1 x = fmem crashing_state x"
    and bc: "dual_boot_check sample_env 3 (power_up crashing_state) = boot_fallback sample_env st1"
    by auto
  have keep: "fmem st1 x = mem_write OTA_SLOT_B_START oad_id (\<lambda>_. 0) x"
    if "\<not> in_region NV_METADATA_PAGE_ADDRESS (unat OTA_FLASH_ERASE_SECTOR_SIZE) x" for x
    by (simp only: st1(3) [OF that] crashing_state_def write_metadata_effect(2) [OF nor_driver_never_fails that])
      simp
  have "mem_read (fmem st1) OTA_SLOT_B_START 8 = mem_read (mem_write OTA_SLOT_B_START oad_id (\<lambda>_. 0)) OTA_SLOT_B_START 8"
  proof (rule mem_read_cong)
    fix i :: nat assume "i < 8"
    then have "unat (OTA_SLOT_B_START + of_nat i) = unat OTA_SLOT_B_START + i"
      by (subst unat_plus_u32) (simp_all add: unat_of_nat_u32 layout_defs)
    then show "fmem st1 (OTA_SLOT_B_START + of_nat i) = mem_write OTA_SLOT_B_START oad_id (\<lambda>_. 0) (OTA_SLOT_B_START + of_nat i)"
      by (intro keep) (simp add: in_region_nat layout_defs)
  qed
  then have id: "mem_read (fmem st1) OTA_SLOT_B_START 8 = oad_id" by (simp add: mem_simps)
  have "OTA_SLOT_B \<noteq> (OTA_SLOT_A :: u8)" "slot_no SlotA = (OTA_SLOT_A :: u8)" by (simp_all add: slot_defs)
  with st1 m(1) id show ?thesis
    by (simp add: bc boot_fallback_def Let_def dual_other_slot_def ota_flash_slot_start_def
        image_state_defs ota_flash_invalidate_image_header_def sample_running nor_driver_def program_flash_def)
qed

theorem fallback_switches_slot_witness:
  "\<exists>st' m. dual_boot_check sample_env 3 (power_up crashing_state) = (BootResets, st') \<and>
     ota_flash_read_metadata st' = (True, m) \<and> active_slot m = 1"
proof -
  have drv: "driver_never_fails (de_driver sample_env)"
    by (simp add: sample_running nor_driver_never_fails)
  have hdr: "ota_image_header_addr sample_env = ota_flash_slot_start (slot_no SlotA)"
    by (simp add: sample_env_def ota_flash_slot_start_def layout_defs slot_defs)
  obtain st' where b: "dual_boot_check sample_env 3 (power_up crashing_state) = (BootResets, st')"
    using crashing_boot_resets by (metis prod.collapse)
  from fallback_switches_slot [OF drv hdr b] obtain m where
    "ota_flash_read_metadata st' = (True, m)" "bv_active (boot_view_of m) = slot_no (other_slot SlotA)"
    by blast
  with b show ?thesis by (auto simp: boot_view_of_def slot_defs)
qed

section \<open>Confirming\<close>

text \<open>What a boot that was let through leaves in flash and in memory.\<close>

lemma boot_continues:
  assumes drv: "driver_never_fails (de_driver env)" and s: "running_slot env = slot_no s"
    and b: "dual_boot_check env r (power_up st) = (BootContinues, st')"
  shows "\<exists>m. ota_flash_read_metadata st' = (True, m) \<and> current_metadata st' = m \<and>
    current_slot st' = slot_no s \<and> knows_running env s m \<and> boot_attempts m \<le> MAX_BOOT_ATTEMPTS"
proof -
  obtain known m0 where rd: "ota_flash_read_metadata st = (known, m0)" by (cases "ota_flash_read_metadata st")
  show ?thesis
  proof (cases known)
    case False
    with boot_check_unknown [OF drv s, of st m0 r] rd b show ?thesis by (auto simp: MAX_BOOT_ATTEMPTS_def)
  next
    case True
    with boot_check_known [OF drv s, of st m0 r] rd b show ?thesis
      by (auto simp: booted_metadata_knows boot_fallback_stops [of env, THEN not_sym] prod_eq_iff not_less split: if_splits)
  qed
qed

lemma confirm_stable_writes:
  assumes drv: "driver_never_fails (de_driver env)"
    and cur: "current_metadata st = m" "current_slot st = slot_no s" and v: "ota_metadata_crc_is_valid m"
    and att: "boot_attempts m \<noteq> 0"
  shows "\<exists>m'. ota_flash_read_metadata (dual_confirm_stable env st) = (True, m') \<and>
    boot_view_of m' = (set_img_state OTA_IMAGE_STATE_CONFIRMED s (boot_view_of m))
      \<lparr>bv_active := slot_no s, bv_candidate := OTA_SLOT_NONE, bv_attempts := 0\<rparr>"
proof -
  have le: "slot_no s \<le> (OTA_SLOT_B :: u8)" by (cases s) (simp_all add: slot_defs)
  note cv = confirm_view [OF v, of s]
  show ?thesis
    using cur v att le cv
    by (simp add: dual_confirm_stable_def Let_def word_neq_0_conv write_metadata_effect(1) [OF drv] del: slot_no.simps)
qed

text \<open>C20. The stability confirmation, on flash without faults. After a boot that was let through, the flash
  holds a valid record that knows the running image. When the confirmation runs thirty seconds
  later, whatever has happened to the state and the flash in between except that the copy of the
  record and the slot number in memory are still those of the boot (nothing was staged), then: if
  at least one boot attempt was counted, the image is afterwards the confirmed active image in
  flash, with no candidate and no attempts, and with the other slot's record and its own version,
  size and CRC as they were at the boot; if none was counted, the confirmation does nothing.\<close>

theorem confirm_after_boot:
  assumes drv: "driver_never_fails (de_driver env)" and s: "running_slot env = slot_no s"
    and b: "dual_boot_check env r (power_up st) = (BootContinues, st1)"
    and later: "current_metadata st2 = current_metadata st1" "current_slot st2 = current_slot st1"
  shows "\<exists>m. ota_flash_read_metadata st1 = (True, m) \<and> knows_running env s m \<and>
    (if boot_attempts m = 0 then dual_confirm_stable env st2 = st2
     else \<exists>m'. ota_flash_read_metadata (dual_confirm_stable env st2) = (True, m') \<and>
       boot_view_of m' = (set_img_state OTA_IMAGE_STATE_CONFIRMED s (boot_view_of m))
         \<lparr>bv_active := slot_no s, bv_candidate := OTA_SLOT_NONE, bv_attempts := 0\<rparr>)"
proof -
  obtain m where m: "ota_flash_read_metadata st1 = (True, m)" "current_metadata st2 = m"
    "current_slot st2 = slot_no s" "knows_running env s m"
    using boot_continues [OF drv s b] later by auto
  then have "ota_metadata_crc_is_valid m" by (auto simp: ota_flash_read_metadata_def Let_def)
  with m show ?thesis
    using confirm_stable_writes [OF drv m(2,3)] by (auto simp: dual_confirm_stable_def)
qed

theorem confirm_after_boot_witness:
  "\<exists>st1 m. dual_boot_check sample_env 3 (power_up sample_state) = (BootContinues, st1) \<and>
     ota_flash_read_metadata st1 = (True, m) \<and> knows_running sample_env SlotA m"
proof -
  have drv: "driver_never_fails (de_driver sample_env)" by (simp add: sample_running nor_driver_never_fails)
  have s: "running_slot sample_env = slot_no SlotA"
    by (simp add: running_slot_def sample_env_def ota_flash_current_slot_def layout_defs)
  obtain m0 where "ota_flash_read_metadata sample_state = (False, m0)"
    using sample_metadata_unknown by (metis prod.collapse)
  from boot_check_unknown [OF drv s this, of 3] obtain st1
    where b: "dual_boot_check sample_env 3 (power_up sample_state) = (BootContinues, st1)" by blast
  from confirm_after_boot [OF drv s b, of "st1\<lparr>erased_sector_addr := 0\<rparr>"] b show ?thesis by auto
qed

section \<open>Crashes after the confirmation\<close>

lemma confirmed_knows:
  assumes "knows_running env s m" "bv_active (boot_view_of m') = slot_no s"
    and "img_crc (bv_image (boot_view_of m') s) = img_crc (bv_image (boot_view_of m) s)"
  shows "knows_running env s m'"
  using assms by (simp add: knows_running_def boot_view_of_def)

text \<open>C39. The bound on crashes holds for early crashes only. An image that is confirmed thirty seconds after
  each boot and crashes then is never abandoned, on flash without faults, however often it
  crashes and whatever the reset sources are: if the record in flash knows the running image and
  its counter is below three, every boot check lets the image run on.\<close>

theorem late_crashes_run_on:
  assumes drv: "driver_never_fails (de_driver env)" and s: "running_slot env = slot_no s"
    and rd: "ota_flash_read_metadata st = (True, m)" and kn: "knows_running env s m"
    and bound: "boot_attempts m < MAX_BOOT_ATTEMPTS"
  shows "fst (boots env (map (\<lambda>r. (r, dual_confirm_stable env)) rs) st) = BootContinues"
  using rd kn bound
proof (induction rs arbitrary: st m)
  case (Cons r rs)
  let ?m = "booted_metadata env r (fmem st) s m"
  from boot_check_known [OF drv s Cons.prems(1)] obtain st1 where st1: "ota_flash_read_metadata st1 = (True, ?m)"
    "current_metadata st1 = ?m" "current_slot st1 = slot_no s"
    and b: "dual_boot_check env r (power_up st) =
      (if boot_attempts ?m > MAX_BOOT_ATTEMPTS then boot_fallback env st1 else (BootContinues, st1))"
    by blast
  have "unat (boot_attempts m) < 3" using Cons.prems(3) by (simp add: MAX_BOOT_ATTEMPTS_def word_less_nat_alt)
  then have "unat (boot_attempts ?m) \<le> 3"
    using Cons.prems(2) by (simp add: booted_metadata_attempts unat_plus_u32)
  then have go: "dual_boot_check env r (power_up st) = (BootContinues, st1)"
    by (simp add: b MAX_BOOT_ATTEMPTS_def word_less_nat_alt)
  have v: "ota_metadata_crc_is_valid ?m" using st1(1) by (auto simp: ota_flash_read_metadata_def Let_def)
  obtain m' where m': "ota_flash_read_metadata (dual_confirm_stable env st1) = (True, m')" "knows_running env s m'"
    "boot_attempts m' < MAX_BOOT_ATTEMPTS"
  proof (cases "boot_attempts ?m = 0")
    case True
    then show thesis
      using that [of ?m] st1 booted_metadata_knows by (simp add: dual_confirm_stable_def MAX_BOOT_ATTEMPTS_def)
  next
    case False
    from confirm_stable_writes [OF drv st1(2,3) v this] obtain m' where
      m': "ota_flash_read_metadata (dual_confirm_stable env st1) = (True, m')"
      "boot_view_of m' = (set_img_state OTA_IMAGE_STATE_CONFIRMED s (boot_view_of ?m))
         \<lparr>bv_active := slot_no s, bv_candidate := OTA_SLOT_NONE, bv_attempts := 0\<rparr>" by blast
    have "bv_attempts (boot_view_of m') = 0" by (simp add: m'(2))
    then have "boot_attempts m' < MAX_BOOT_ATTEMPTS" by (simp add: boot_view_of_def MAX_BOOT_ATTEMPTS_def)
    moreover have "knows_running env s m'"
      by (rule confirmed_knows [OF booted_metadata_knows [of env s r "fmem st" m]])
        (simp_all add: m'(2) set_img_state_def)
    ultimately show thesis using that m'(1) by blast
  qed
  then show ?case using Cons.IH by (simp add: go)
qed simp

theorem late_crashes_run_on_witness:
  "\<exists>st. fst (boots sample_env (map (\<lambda>r. (r, dual_confirm_stable sample_env)) (replicate 100 3)) st) = BootContinues"
proof -
  have drv: "driver_never_fails (de_driver sample_env)" by (simp add: sample_running nor_driver_never_fails)
  have s: "running_slot sample_env = slot_no SlotA"
    by (simp add: running_slot_def sample_env_def ota_flash_current_slot_def layout_defs)
  obtain m0 where "ota_flash_read_metadata sample_state = (False, m0)"
    using sample_metadata_unknown by (metis prod.collapse)
  from boot_check_unknown [OF drv s this, of 3] obtain m and st1 :: dual_state where
    "ota_flash_read_metadata st1 = (True, m)" "knows_running sample_env SlotA m" "boot_attempts m = 0" by blast
  from late_crashes_run_on [OF drv s this(1,2), of "replicate 100 3"] this(3) show ?thesis
    by (auto simp: MAX_BOOT_ATTEMPTS_def)
qed

section \<open>Admission of an update\<close>

text \<open>The state in which START erases the first sector of its target.\<close>

definition before_erase :: "dual_env \<Rightarrow> dual_state \<Rightarrow> dual_state" where
  "before_erase env st =
     (ota_flash_reset_erase_tracking (st\<lparr>rejected_same_slot := False\<rparr>))\<lparr>current_slot := running_slot env\<rparr>"

lemma dual_start_result:
  assumes drv: "flash_driver_ok (de_driver env)"
  shows "(fst (fst (dual_start env t fsz sec reject st)) \<longleftrightarrow>
      unat t \<le> 1 \<and> (sec = OTA_START_SEC_VER_UNKNOWN \<or> sec > dual_running_sec_ver env) \<and>
      0 < unat fsz \<and> unat fsz \<le> unat (ota_flash_slot_size t) \<and> t \<noteq> running_slot env \<and>
      fst (ota_flash_erase_target_sector (de_driver env) t 0 (before_erase env st))) \<and>
    (\<forall>x. \<not> slot_region t x \<longrightarrow> fmem (snd (dual_start env t fsz sec reject st)) x = fmem st x) \<and>
    (\<forall>x. t = running_slot env \<longrightarrow> fmem (snd (dual_start env t fsz sec reject st)) x = fmem st x)"
proof -
  obtain r st1 where e: "ota_flash_erase_target_sector (de_driver env) t 0 (before_erase env st) = (r, st1)"
    by fastforce
  have frame: "fmem st1 x = fmem st x" if "\<not> slot_region t x" for x
    using erase_target_frame(2) [OF drv e that] by (simp add: before_erase_def ota_flash_reset_erase_tracking_def)
  note e' = e [unfolded before_erase_def]
  have slot_b: "unat (OTA_SLOT_B :: u8) = 1" by (simp add: slot_defs)
  have le: "t > OTA_SLOT_B \<longleftrightarrow> \<not> unat t \<le> 1" "fsz = 0 \<longleftrightarrow> \<not> 0 < unat fsz"
    by (auto simp: slot_defs word_nat unat_eq_0)
  show ?thesis
    using e' frame
    by (auto simp: dual_start_def Let_def le running_slot_def [symmetric] word_nat slot_b before_erase_def
        ota_flash_reset_erase_tracking_def split: bool.splits)
qed

lemma first_sector_erased:
  assumes "driver_never_fails drv" "unat t \<le> 1"
  shows "fst (ota_flash_erase_target_sector drv t 0 st)"
proof -
  have "ota_flash_target_bounds_ok t 0 OTA_FLASH_ERASE_SECTOR_SIZE"
    using assms(2) by (simp add: target_bounds_iff) (simp add: ota_flash_slot_size_def layout_defs)
  with erase_flash_never_fails [OF assms(1), of "ota_flash_slot_start t" st] show ?thesis
    by (auto simp: ota_flash_erase_target_sector_def Let_def split: if_splits prod.splits bool.splits)
qed

lemma dual_start_accepts:
  assumes "driver_never_fails (de_driver env)"
  shows "fst (fst (dual_start env t fsz sec reject st)) \<longleftrightarrow>
      unat t \<le> 1 \<and> (sec = OTA_START_SEC_VER_UNKNOWN \<or> sec > dual_running_sec_ver env) \<and>
      0 < unat fsz \<and> unat fsz \<le> unat (ota_flash_slot_size t) \<and> t \<noteq> running_slot env"
proof -
  have "flash_driver_ok (de_driver env)" using assms by (simp add: driver_never_fails_def)
  from dual_start_result [OF this, of t fsz sec reject st] first_sector_erased [OF assms, of t "before_erase env st"]
  show ?thesis by blast
qed

text \<open>C21. A START is admitted exactly when the target is a slot, the image's security version is
  unknown or above the running one, the size is positive and fits the slot, the target is not the
  slot the running image is linked at, and the erase of the first sector of the target, with the
  erase tracking begun anew, succeeds. Whatever the answer, and also when the erase fails, no byte
  outside the target slot changes, and none at all if the target is the running slot. Erases may
  fail at any time: of the flash driver only its contract is assumed, by which a successful erase
  sets the bytes of its sector and a failed one touches no byte outside it.\<close>

theorem dual_start_admission:
  assumes "flash_driver_ok (de_driver env)"
  shows "(fst (fst (dual_start env t fsz sec reject st)) \<longleftrightarrow>
      unat t \<le> 1 \<and> (sec = OTA_START_SEC_VER_UNKNOWN \<or> sec > dual_running_sec_ver env) \<and>
      0 < unat fsz \<and> unat fsz \<le> unat (ota_flash_slot_size t) \<and> t \<noteq> running_slot env \<and>
      fst (ota_flash_erase_target_sector (de_driver env) t 0 (before_erase env st))) \<and>
    (\<forall>x. \<not> slot_region t x \<longrightarrow> fmem (snd (dual_start env t fsz sec reject st)) x = fmem st x) \<and>
    (\<forall>x. t = running_slot env \<longrightarrow> fmem (snd (dual_start env t fsz sec reject st)) x = fmem st x)"
  using assms by (rule dual_start_result)

theorem dual_start_admission_witness:
  "fst (fst (dual_start sample_env OTA_SLOT_B 0x400 2 9 sample_state)) \<and>
   \<not> fst (fst (dual_start sample_env OTA_SLOT_A 0x400 2 9 sample_state))"
proof -
  have drv: "driver_never_fails (de_driver sample_env)" "flash_driver_ok (de_driver sample_env)"
    by (simp_all add: sample_running nor_driver_never_fails nor_driver_ok)
  have "running_slot sample_env = 0" "dual_running_sec_ver sample_env = 1"
    by (simp_all add: running_slot_def ota_flash_current_slot_def dual_running_sec_ver_def
        sample_env_def sample_header_def layout_defs slot_defs)
  moreover have "fst (ota_flash_erase_target_sector (de_driver sample_env) OTA_SLOT_B 0 (before_erase sample_env sample_state))"
    by (rule first_sector_erased [OF drv(1)]) (simp add: slot_defs)
  ultimately show ?thesis
    using dual_start_admission [where env = sample_env and t = OTA_SLOT_B and fsz = "0x400" and sec = 2
        and reject = 9 and st = sample_state, OF drv(2)]
      dual_start_admission [where env = sample_env and t = OTA_SLOT_A and fsz = "0x400" and sec = 2
        and reject = 9 and st = sample_state, OF drv(2)]
    by (simp add: ota_flash_slot_size_def layout_defs slot_defs)
qed

section \<open>Storage without faults\<close>

lemma slot_sector_fits:
  assumes "unat so mod unat OTA_FLASH_ERASE_SECTOR_SIZE = 0" "unat so < unat (ota_flash_slot_size t)"
  shows "unat so + unat OTA_FLASH_ERASE_SECTOR_SIZE \<le> unat (ota_flash_slot_size t)"
proof -
  obtain k where k: "unat so = 8192 * k"
    using assms(1) by (auto simp: OTA_FLASH_ERASE_SECTOR_SIZE_def)
  show ?thesis
    using assms(2) by (cases "t = OTA_SLOT_A") (simp_all add: k ota_flash_slot_size_def layout_defs)
qed

lemma dual_backend_reliable:
  assumes drv: "driver_never_fails (de_driver env)"
  shows "reliable_backend (dual_backend env) dual_contents dual_tracked"
proof -
  have ok: "flash_driver_ok (de_driver env)" using drv by (simp add: driver_never_fails_def)
  have laws: "sensor_backend_laws (dual_backend env) dual_contents dual_tracked"
    using ok by (rule dual_backend_laws)
  show ?thesis
  proof (intro reliable_backend.intro [OF laws] reliable_backend_axioms.intro,
      simp_all only: dual_backend_def sensor_backend.simps sector_aligned_def dual_bounds_ok_def)
    fix fsz t and data :: "u8 list" and off :: u32 and len :: u16 and s :: dual_state
    assume "ota_flash_target_bounds_ok t off (ucast len)" "unat off mod 64 = 0" "unat len \<le> 64"
      "length data = unat len"
    moreover from \<open>unat off mod 64 = 0\<close> have "unat off mod 4 = 0" by presburger
    then have "off AND 3 = 0" by (simp add: and_3_zero)
    ultimately show "fst (ota_flash_write_target (de_driver env) t off data len s)"
      by (simp add: ota_flash_write_target_def Let_def word_nat program_flash_never_fails [OF drv])
  next
    fix fsz t and off :: u32 and len :: u16 and so :: u32 and s :: dual_state
    assume b: "ota_flash_target_bounds_ok t off (ucast len)" "0 < unat len" "unat so \<le> unat off"
      and al: "unat so mod unat OTA_FLASH_ERASE_SECTOR_SIZE = 0"
    from b have "unat t \<le> 1" "unat so < unat (ota_flash_slot_size t)" by (simp_all add: target_bounds_iff)
    with slot_sector_fits [OF al] have "ota_flash_target_bounds_ok t so OTA_FLASH_ERASE_SECTOR_SIZE"
      by (simp add: target_bounds_iff)
    moreover have "so mod OTA_FLASH_ERASE_SECTOR_SIZE = 0"
      using al by (simp add: word_arith_nat_mod)
    ultimately show "fst (ota_flash_erase_target_sector (de_driver env) t so s)"
      using erase_flash_never_fails [OF drv, of "ota_flash_slot_start t + so" s]
      by (auto simp: ota_flash_erase_target_sector_def Let_def split: prod.splits bool.splits)
  qed (simp add: dual_read_def ota_flash_read_target_def)
qed

interpretation dual_reliable: reliable_backend "dual_backend (env\<lparr>de_driver := nor_driver\<rparr>)" dual_contents dual_tracked
  for env
  by (rule dual_backend_reliable) (simp add: nor_driver_never_fails)

end
