(* ===== verification/Offchip_Backend.thy ===== *)
theory Offchip_Backend
  imports Backend
begin

text \<open>
  The offchip sensor backend, \<open>sensor-node-offchip.c\<close>: the image is written to an external SPI
  flash at \<open>OTA_EXT_IMAGE_ADDR\<close>, and staging writes an \<open>ExtImageInfo_t\<close> record to the metadata
  sector at \<open>OTA_EXT_METADATA_ADDR\<close>, which the boot image manager reads.

  The flash driver (\<open>ext_flash_open\<close> and so on) is part of the operating system, not of the
  repository: it is the record \<open>ext_flash\<close> of functions over an arbitrary device state. What the
  code relies on is \<open>ext_flash_ok\<close>, stated over the device's contents and whether it is open:
  opening and closing do not change the contents, reading returns them, writing clears bits in its
  range, erasing an aligned sector sets it to \<open>0xFF\<close>.
\<close>

section \<open>The driver and the build\<close>

record 'd ext_flash =
  ext_flash_open :: "'d \<Rightarrow> bool \<times> 'd"
  ext_flash_close :: "'d \<Rightarrow> 'd"
  ext_flash_read :: "u32 \<Rightarrow> nat \<Rightarrow> 'd \<Rightarrow> u8 list option \<times> 'd"
  ext_flash_write :: "u32 \<Rightarrow> u8 list \<Rightarrow> 'd \<Rightarrow> bool \<times> 'd"
  ext_flash_erase :: "u32 \<Rightarrow> u32 \<Rightarrow> 'd \<Rightarrow> bool \<times> 'd"

record 'd offchip_env =
  oe_flash :: "'d ext_flash"
  oe_sdk :: oad_sdk
  OTA_RUNNING_SEC_VER :: u16
  OTA_EXPECTED_IMG_TYPE :: u32

definition EXT_FLASH_ERASE_SECTOR_SIZE :: u32 where "EXT_FLASH_ERASE_SECTOR_SIZE = 4096"
definition OTA_EXT_METADATA_ADDR :: u32 where "OTA_EXT_METADATA_ADDR = 0x00000"
definition OTA_EXT_IMAGE_ADDR :: u32 where "OTA_EXT_IMAGE_ADDR = 0x10000"
definition OTA_INTERNAL_IMAGE_START_ADDR :: u32 where "OTA_INTERNAL_IMAGE_START_ADDR = 0"
definition OTA_INTERNAL_VECTOR_MIN_ADDR :: u32 where "OTA_INTERNAL_VECTOR_MIN_ADDR = 0xA8"
definition OTA_INTERNAL_BIM_ADDR :: u32 where "OTA_INTERNAL_BIM_ADDR = 0x56000"

lemmas ext_layout_defs =
  EXT_FLASH_ERASE_SECTOR_SIZE_def OTA_EXT_METADATA_ADDR_def OTA_EXT_IMAGE_ADDR_def

definition ext_flash_ok :: "'d ext_flash \<Rightarrow> ('d \<Rightarrow> mem) \<Rightarrow> ('d \<Rightarrow> bool) \<Rightarrow> bool" where
  "ext_flash_ok fl cont is_open \<longleftrightarrow>
     (\<forall>d r d'. ext_flash_open fl d = (r, d') \<longrightarrow> cont d' = cont d \<and> is_open d' = (r \<or> is_open d)) \<and>
     (\<forall>d. cont (ext_flash_close fl d) = cont d \<and> \<not> is_open (ext_flash_close fl d)) \<and>
     (\<forall>a n d r d'. ext_flash_read fl a n d = (r, d') \<longrightarrow> cont d' = cont d \<and> is_open d' = is_open d \<and>
        (\<forall>bs. r = Some bs \<longrightarrow> bs = mem_read (cont d) a n)) \<and>
     (\<forall>a bs d r d'. ext_flash_write fl a bs d = (r, d') \<longrightarrow> is_open d' = is_open d \<and>
        (\<forall>x. \<not> in_region a (length bs) x \<longrightarrow> cont d' x = cont d x) \<and>
        (r \<longrightarrow> cont d' = mem_program a bs (cont d))) \<and>
     (\<forall>a d r d'. ext_flash_erase fl a EXT_FLASH_ERASE_SECTOR_SIZE d = (r, d') \<longrightarrow> is_open d' = is_open d \<and>
        (unat a mod 4096 = 0 \<longrightarrow>
          (\<forall>x. \<not> in_region a 4096 x \<longrightarrow> cont d' x = cont d x) \<and>
          (r \<longrightarrow> cont d' = mem_erase a 4096 (cont d))))"

section \<open>Operations\<close>

definition offchip_image_softver_to_u32 :: "imgFixedHdr \<Rightarrow> u32" where
  "offchip_image_softver_to_u32 fixed_hdr = of_le32 (take 4 (softVer fixed_hdr))"

definition validate_offchip_image :: "'d offchip_env \<Rightarrow> u32 \<Rightarrow> imgHdr \<Rightarrow> bool" where
  "validate_offchip_image env current_file_size header =
     (let sdk = oe_sdk env; h = fixedHdr header
      in if imgID h \<noteq> OAD_IMG_ID_VAL sdk then False
         else if secVer header \<le> ucast (OTA_RUNNING_SEC_VER env) then False
         else if techType h \<noteq> OAD_WIRELESS_TECH_TIMAC_2_4G sdk \<or>
                 wirelessTech (imgPayload header) \<noteq> OAD_WIRELESS_TECH_TIMAC_2_4G sdk then False
         else if imgType h \<noteq> OTA_EXPECTED_IMG_TYPE env then False
         else if bimVer h \<noteq> BIM_VER sdk \<or> metaVer h \<noteq> META_VER sdk \<or> crcStat h = CRC_INVALID sdk then False
         else if hdrLen h \<noteq> of_nat (sizeof_imgHdr sdk) then False
         else if segTypeImg (imgPayload header) \<noteq> IMG_PAYLOAD_SEG_ID sdk \<or>
                 startAddr (imgPayload header) \<noteq> OTA_INTERNAL_IMAGE_START_ADDR then False
         else if prgEntry h < OTA_INTERNAL_VECTOR_MIN_ADDR \<or> prgEntry h > imgEndAddr h \<or>
                 imgEndAddr h \<ge> OTA_INTERNAL_BIM_ADDR then False
         else if hdr_len h = 0 \<or> hdr_len h > current_file_size then False
         else True)"

definition read_offchip_image_header :: "'d offchip_env \<Rightarrow> 'd \<Rightarrow> imgHdr option \<times> 'd" where
  "read_offchip_image_header env d =
     (case ext_flash_open (oe_flash env) d of
        (False, d) \<Rightarrow> (None, d)
      | (True, d) \<Rightarrow>
         (case ext_flash_read (oe_flash env) OTA_EXT_IMAGE_ADDR (sizeof_imgHdr (oe_sdk env)) d of
            (bytes, d) \<Rightarrow>
              (map_option (imgHdr_of_bytes (oe_sdk env)) bytes, ext_flash_close (oe_flash env) d)))"

text \<open>The record the code builds, and its writing with the readback check of the identification
  bytes.\<close>

definition offchip_bim_metadata :: "'d offchip_env \<Rightarrow> imgHdr \<Rightarrow> ExtImageInfo" where
  "offchip_bim_metadata env header =
     \<lparr>ext_fixedHdr = (fixedHdr header)\<lparr>imgID := OAD_EXTFL_ID_VAL (oe_sdk env),
        imgCpStat := NEED_COPY (oe_sdk env), crcStat := CRC_VALID (oe_sdk env)\<rparr>,
      extFlAddr = OTA_EXT_IMAGE_ADDR,
      counter = offchip_image_softver_to_u32 (fixedHdr header)\<rparr>"

definition write_offchip_bim_metadata :: "'d offchip_env \<Rightarrow> imgHdr \<Rightarrow> 'd \<Rightarrow> bool \<times> 'd" where
  "write_offchip_bim_metadata env header d =
     (let fl = oe_flash env; sdk = oe_sdk env; metadata = offchip_bim_metadata env header
      in case ext_flash_open fl d of
        (False, d) \<Rightarrow> (False, d)
      | (True, d) \<Rightarrow>
         (case ext_flash_erase fl OTA_EXT_METADATA_ADDR EXT_FLASH_ERASE_SECTOR_SIZE d of
            (False, d) \<Rightarrow> (False, ext_flash_close fl d)
          | (True, d) \<Rightarrow>
             (case ext_flash_write fl OTA_EXT_METADATA_ADDR (bytes_of_ExtImageInfo sdk metadata) d of
                (False, d) \<Rightarrow> (False, ext_flash_close fl d)
              | (True, d) \<Rightarrow>
                 (case ext_flash_read fl OTA_EXT_METADATA_ADDR (sizeof_ExtImageInfo sdk) d of
                    (None, d) \<Rightarrow> (False, ext_flash_close fl d)
                  | (Some readback, d) \<Rightarrow>
                      (imgID (ext_fixedHdr (ExtImageInfo_of_bytes sdk readback)) = OAD_EXTFL_ID_VAL sdk,
                       ext_flash_close fl d)))))"

definition offchip_stage :: "'d offchip_env \<Rightarrow> u32 \<Rightarrow> u8 \<Rightarrow> 'd \<Rightarrow> bool \<times> 'd" where
  "offchip_stage env current_file_size target d =
     (case read_offchip_image_header env d of
        (None, d) \<Rightarrow> (False, d)
      | (Some header, d) \<Rightarrow>
          if \<not> validate_offchip_image env current_file_size header then (False, d)
          else write_offchip_bim_metadata env header d)"

definition offchip_start ::
    "'d offchip_env \<Rightarrow> u8 \<Rightarrow> u32 \<Rightarrow> u16 \<Rightarrow> u8 \<Rightarrow> 'd \<Rightarrow> (bool \<times> u8) \<times> 'd" where
  "offchip_start env target file_size image_sec_ver reject_status d =
     (if target \<noteq> OTA_TARGET_OFFCHIP then ((False, OTA_START_STATUS_REJECTED_TARGET), d)
      else if image_sec_ver \<noteq> OTA_START_SEC_VER_UNKNOWN \<and> image_sec_ver \<le> OTA_RUNNING_SEC_VER env
      then ((False, OTA_START_STATUS_REJECTED_VERSION), d)
      else if file_size = 0 then ((False, OTA_START_STATUS_REJECTED_TARGET), d)
      else case ext_flash_open (oe_flash env) d of
        (False, d) \<Rightarrow> ((False, OTA_START_STATUS_REJECTED_TARGET), d)
      | (True, d) \<Rightarrow>
         (case ext_flash_erase (oe_flash env) OTA_EXT_IMAGE_ADDR EXT_FLASH_ERASE_SECTOR_SIZE d of
            (ok, d) \<Rightarrow>
              ((ok, if ok then reject_status else OTA_START_STATUS_REJECTED_TARGET),
               ext_flash_close (oe_flash env) d)))"

text \<open>The sum is a 32-bit sum: \<open>length\<close> is promoted and added to the 32-bit offset.\<close>

definition offchip_bounds_ok :: "u32 \<Rightarrow> u8 \<Rightarrow> u32 \<Rightarrow> u16 \<Rightarrow> bool" where
  "offchip_bounds_ok current_file_size target offset len \<longleftrightarrow>
     len > 0 \<and> offset + ucast len \<le> current_file_size"

definition offchip_erase_sector :: "'d offchip_env \<Rightarrow> u8 \<Rightarrow> u32 \<Rightarrow> 'd \<Rightarrow> bool \<times> 'd" where
  "offchip_erase_sector env target sector_offset d =
     (case ext_flash_open (oe_flash env) d of
        (False, d) \<Rightarrow> (False, d)
      | (True, d) \<Rightarrow>
         (case ext_flash_erase (oe_flash env) (OTA_EXT_IMAGE_ADDR + sector_offset)
                 EXT_FLASH_ERASE_SECTOR_SIZE d of
            (ok, d) \<Rightarrow> (ok, ext_flash_close (oe_flash env) d)))"

definition offchip_write :: "'d offchip_env \<Rightarrow> u8 \<Rightarrow> u32 \<Rightarrow> u8 list \<Rightarrow> u16 \<Rightarrow> 'd \<Rightarrow> bool \<times> 'd" where
  "offchip_write env target offset data len d =
     (case ext_flash_open (oe_flash env) d of
        (False, d) \<Rightarrow> (False, d)
      | (True, d) \<Rightarrow>
         (case ext_flash_write (oe_flash env) (OTA_EXT_IMAGE_ADDR + offset) (take (unat len) data) d of
            (ok, d) \<Rightarrow> (ok, ext_flash_close (oe_flash env) d)))"

definition offchip_read :: "'d offchip_env \<Rightarrow> u8 \<Rightarrow> u32 \<Rightarrow> u16 \<Rightarrow> 'd \<Rightarrow> u8 list option \<times> 'd" where
  "offchip_read env target offset len d =
     (case ext_flash_open (oe_flash env) d of
        (False, d) \<Rightarrow> (None, d)
      | (True, d) \<Rightarrow>
         (case ext_flash_read (oe_flash env) (OTA_EXT_IMAGE_ADDR + offset) (unat len) d of
            (bytes, d) \<Rightarrow> (bytes, ext_flash_close (oe_flash env) d)))"

definition offchip_backend :: "'d offchip_env \<Rightarrow> 'd sensor_backend" where
  "offchip_backend env =
     \<lparr>be_running_sec_ver = OTA_RUNNING_SEC_VER env,
      be_erase_sector_size = EXT_FLASH_ERASE_SECTOR_SIZE,
      be_start = offchip_start env,
      be_bounds_ok = offchip_bounds_ok,
      be_erase_sector = offchip_erase_sector env,
      be_write = offchip_write env,
      be_read = offchip_read env,
      be_stage = offchip_stage env\<rparr>"

text \<open>\<open>ota_sensor_boot_check\<close> only logs and \<open>ota_sensor_confirm_stable\<close> is empty.\<close>

definition offchip_boot_check :: "'d \<Rightarrow> 'd" where "offchip_boot_check d = d"
definition offchip_confirm_stable :: "'d \<Rightarrow> 'd" where "offchip_confirm_stable d = d"

section \<open>The driver's behaviour\<close>

lemma ext_open:
  assumes "ext_flash_ok fl cont is_open" "ext_flash_open fl d = (r, d')"
  shows "cont d' = cont d" "is_open d' = (r \<or> is_open d)"
  using assms(1) [unfolded ext_flash_ok_def, THEN conjunct1, rule_format, OF assms(2)] by simp_all

lemma ext_close:
  assumes "ext_flash_ok fl cont is_open"
  shows "cont (ext_flash_close fl d) = cont d" "\<not> is_open (ext_flash_close fl d)"
  using assms [unfolded ext_flash_ok_def, THEN conjunct2, THEN conjunct1, rule_format, of d] by simp_all

lemma ext_read:
  assumes "ext_flash_ok fl cont is_open" "ext_flash_read fl a n d = (r, d')"
  shows "cont d' = cont d" "is_open d' = is_open d" "r = Some bs \<Longrightarrow> bs = mem_read (cont d) a n"
  using assms(1) [unfolded ext_flash_ok_def, THEN conjunct2, THEN conjunct2, THEN conjunct1, rule_format, OF assms(2)]
  by simp_all

lemma ext_write:
  assumes "ext_flash_ok fl cont is_open" "ext_flash_write fl a bs d = (r, d')"
  shows "is_open d' = is_open d" "\<not> in_region a (length bs) x \<Longrightarrow> cont d' x = cont d x"
    "r \<Longrightarrow> cont d' = mem_program a bs (cont d)"
  using assms(1) [unfolded ext_flash_ok_def, THEN conjunct2, THEN conjunct2, THEN conjunct2, THEN conjunct1,
      rule_format, OF assms(2)]
  by simp_all

lemma ext_erase:
  assumes "ext_flash_ok fl cont is_open"
    and "ext_flash_erase fl a EXT_FLASH_ERASE_SECTOR_SIZE d = (r, d')"
  shows "is_open d' = is_open d"
    "unat a mod 4096 = 0 \<Longrightarrow> \<not> in_region a 4096 x \<Longrightarrow> cont d' x = cont d x"
    "unat a mod 4096 = 0 \<Longrightarrow> r \<Longrightarrow> cont d' = mem_erase a 4096 (cont d)"
  using assms(1) [unfolded ext_flash_ok_def, THEN conjunct2, THEN conjunct2, THEN conjunct2, THEN conjunct2,
      rule_format, OF assms(2)]
  by simp_all

lemma ext_image_aligned:
  assumes "unat so mod 4096 = 0"
  shows "unat (OTA_EXT_IMAGE_ADDR + so) mod 4096 = 0"
proof -
  have "unat (OTA_EXT_IMAGE_ADDR + so) = (65536 + unat so) mod 4294967296"
    by (simp add: OTA_EXT_IMAGE_ADDR_def unat_word_ariths)
  also have "\<dots> mod 4096 = (65536 + unat so) mod 4096" by (rule mod_mod_cancel) simp
  also have "\<dots> = (65536 mod 4096 + unat so) mod 4096" by (simp only: mod_add_left_eq)
  finally show ?thesis using assms by simp
qed

section \<open>The backend keeps its contract\<close>

definition offchip_contents :: "('d \<Rightarrow> mem) \<Rightarrow> 'd \<Rightarrow> u8 \<Rightarrow> mem" where
  "offchip_contents cont d target = (\<lambda>offset. cont d (OTA_EXT_IMAGE_ADDR + offset))"

lemma offchip_backend_laws:
  assumes ok: "ext_flash_ok (oe_flash env) cont is_open"
  shows "sensor_backend_laws (offchip_backend env) (offchip_contents cont) (\<lambda>_ _ _. False)"
proof (unfold_locales, simp_all only: offchip_backend_def sensor_backend.simps sector_aligned_def)
  fix t off data len s s'
  assume w: "offchip_write env t off data len s = (True, s')" and data: "length data = unat len"
  from w data obtain d1 d2 where o: "ext_flash_open (oe_flash env) s = (True, d1)"
    "ext_flash_write (oe_flash env) (OTA_EXT_IMAGE_ADDR + off) data d1 = (True, d2)"
    "s' = ext_flash_close (oe_flash env) d2"
    by (auto simp: offchip_write_def split: prod.splits bool.splits)
  with ext_write(3) [OF ok o(2)] ext_open(1) [OF ok o(1)] ext_close(1) [OF ok]
  show "offchip_contents cont s' t = mem_program off data (offchip_contents cont s t)"
    by (simp add: offchip_contents_def mem_program_def fun_eq_iff)
next
  fix t off data len s r s' x
  assume w: "offchip_write env t off data len s = (r, s')" and data: "length data = unat len"
    and x: "\<not> in_region off (unat len + 3) x"
  have x': "\<not> in_region (OTA_EXT_IMAGE_ADDR + off) (length data) (OTA_EXT_IMAGE_ADDR + x)"
    using x data in_region_mono [of off "unat len" x "unat len + 3"] by auto
  obtain o' d1 where o1: "ext_flash_open (oe_flash env) s = (o', d1)" by (cases "ext_flash_open (oe_flash env) s")
  show "offchip_contents cont s' t x = offchip_contents cont s t x"
  proof (cases o')
    case True
    obtain q d2 where o2: "ext_flash_write (oe_flash env) (OTA_EXT_IMAGE_ADDR + off) data d1 = (q, d2)"
      by (cases "ext_flash_write (oe_flash env) (OTA_EXT_IMAGE_ADDR + off) data d1")
    with o1 True w data have "s' = ext_flash_close (oe_flash env) d2" by (simp add: offchip_write_def)
    with ext_write(2) [OF ok o2 x'] ext_open(1) [OF ok o1] ext_close(1) [OF ok]
    show ?thesis by (simp add: offchip_contents_def)
  next
    case False
    with o1 w ext_open(1) [OF ok o1] show ?thesis by (simp add: offchip_write_def offchip_contents_def)
  qed
next
  fix t so s s'
  assume e: "offchip_erase_sector env t so s = (True, s')" and al: "unat so mod unat EXT_FLASH_ERASE_SECTOR_SIZE = 0"
  from e obtain d1 d2 where o: "ext_flash_open (oe_flash env) s = (True, d1)"
    "ext_flash_erase (oe_flash env) (OTA_EXT_IMAGE_ADDR + so) EXT_FLASH_ERASE_SECTOR_SIZE d1 = (True, d2)"
    "s' = ext_flash_close (oe_flash env) d2"
    by (auto simp: offchip_erase_sector_def split: prod.splits bool.splits)
  have "unat (OTA_EXT_IMAGE_ADDR + so) mod 4096 = 0"
    using al by (intro ext_image_aligned) (simp add: EXT_FLASH_ERASE_SECTOR_SIZE_def)
  with ext_erase(3) [OF ok o(2)] ext_open(1) [OF ok o(1)] ext_close(1) [OF ok] o(3)
  show "offchip_contents cont s' t = mem_erase so (unat EXT_FLASH_ERASE_SECTOR_SIZE) (offchip_contents cont s t)"
    by (simp add: offchip_contents_def mem_erase_def fun_eq_iff EXT_FLASH_ERASE_SECTOR_SIZE_def)
next
  fix t so s r s' x
  assume e: "offchip_erase_sector env t so s = (r, s')" and al: "unat so mod unat EXT_FLASH_ERASE_SECTOR_SIZE = 0"
    and x: "\<not> in_region so (unat EXT_FLASH_ERASE_SECTOR_SIZE) x"
  have al': "unat (OTA_EXT_IMAGE_ADDR + so) mod 4096 = 0"
    using al by (intro ext_image_aligned) (simp add: EXT_FLASH_ERASE_SECTOR_SIZE_def)
  have x': "\<not> in_region (OTA_EXT_IMAGE_ADDR + so) 4096 (OTA_EXT_IMAGE_ADDR + x)"
    using x by (simp add: EXT_FLASH_ERASE_SECTOR_SIZE_def)
  obtain o' d1 where o1: "ext_flash_open (oe_flash env) s = (o', d1)" by (cases "ext_flash_open (oe_flash env) s")
  show "offchip_contents cont s' t x = offchip_contents cont s t x"
  proof (cases o')
    case True
    obtain q d2 where o2: "ext_flash_erase (oe_flash env) (OTA_EXT_IMAGE_ADDR + so) EXT_FLASH_ERASE_SECTOR_SIZE d1 = (q, d2)"
      by (cases "ext_flash_erase (oe_flash env) (OTA_EXT_IMAGE_ADDR + so) EXT_FLASH_ERASE_SECTOR_SIZE d1")
    with o1 True e have "s' = ext_flash_close (oe_flash env) d2" by (simp add: offchip_erase_sector_def)
    with ext_erase(2) [OF ok o2 al' x'] ext_open(1) [OF ok o1] ext_close(1) [OF ok]
    show ?thesis by (simp add: offchip_contents_def)
  next
    case False
    with o1 e ext_open(1) [OF ok o1] show ?thesis by (simp add: offchip_erase_sector_def offchip_contents_def)
  qed
next
  assume "PAGE_SIZE < unat EXT_FLASH_ERASE_SECTOR_SIZE"
  then show False by (simp add: PAGE_SIZE_def EXT_FLASH_ERASE_SECTOR_SIZE_def)
next
  show "\<not> False" by simp
next
  show "EXT_FLASH_ERASE_SECTOR_SIZE = 0x1000 \<or> EXT_FLASH_ERASE_SECTOR_SIZE = 0x2000"
    by (simp add: EXT_FLASH_ERASE_SECTOR_SIZE_def)
next
  fix t fsz sec rej s r s'
  assume "offchip_start env t fsz sec rej s = ((True, r), s')"
  then obtain d1 d2 where o: "ext_flash_open (oe_flash env) s = (True, d1)"
    "ext_flash_erase (oe_flash env) OTA_EXT_IMAGE_ADDR EXT_FLASH_ERASE_SECTOR_SIZE d1 = (True, d2)"
    "s' = ext_flash_close (oe_flash env) d2"
    by (auto simp: offchip_start_def split: prod.splits bool.splits if_splits)
  have "unat OTA_EXT_IMAGE_ADDR mod 4096 = 0" by (simp add: OTA_EXT_IMAGE_ADDR_def)
  with ext_erase(3) [OF ok o(2)] ext_open(1) [OF ok o(1)] ext_close(1) [OF ok] o(3)
  show "offchip_contents cont s' t = mem_erase 0 (unat EXT_FLASH_ERASE_SECTOR_SIZE) (offchip_contents cont s t)"
    using in_region_shift [of OTA_EXT_IMAGE_ADDR 0]
    by (simp add: offchip_contents_def mem_erase_def fun_eq_iff EXT_FLASH_ERASE_SECTOR_SIZE_def)
next
  fix t fsz sec rej s q s'
  assume "PAGE_SIZE < unat EXT_FLASH_ERASE_SECTOR_SIZE"
  then show False by (simp add: PAGE_SIZE_def EXT_FLASH_ERASE_SECTOR_SIZE_def)
next
  fix off fsz :: u32 and len :: u16 and t
  assume len: "0 < unat len" and fits: "unat off + unat len \<le> unat fsz"
  have "unat (off + ucast len) = unat off + unat len"
    using fits unat_u32_less [of fsz] by (subst unat_plus_u32) simp_all
  with len fits show "offchip_bounds_ok fsz t off len"
    by (simp add: offchip_bounds_ok_def word_nat)
next
  fix t off len s bs s'
  assume "offchip_read env t off len s = (Some bs, s')"
  then obtain d1 d2 where o: "ext_flash_open (oe_flash env) s = (True, d1)"
    "ext_flash_read (oe_flash env) (OTA_EXT_IMAGE_ADDR + off) (unat len) d1 = (Some bs, d2)"
    by (auto simp: offchip_read_def split: prod.splits bool.splits)
  with ext_read(3) [OF ok o(2)] ext_open(1) [OF ok o(1)]
  show "bs = mem_read (offchip_contents cont s t) off (unat len)"
    by (simp add: offchip_contents_def mem_read_shift)
next
  fix t off len s rd s'
  assume r: "offchip_read env t off len s = (rd, s')"
  obtain o' d1 where o1: "ext_flash_open (oe_flash env) s = (o', d1)" by (cases "ext_flash_open (oe_flash env) s")
  obtain q d2 where o2: "ext_flash_read (oe_flash env) (OTA_EXT_IMAGE_ADDR + off) (unat len) d1 = (q, d2)"
    by (cases "ext_flash_read (oe_flash env) (OTA_EXT_IMAGE_ADDR + off) (unat len) d1")
  have "cont s' = cont s"
    using r o1 o2 ext_open(1) [OF ok o1] ext_read(1) [OF ok o2] ext_close(1) [OF ok]
    by (cases o') (auto simp: offchip_read_def)
  then show "offchip_contents cont s' = offchip_contents cont s \<and> (\<lambda>_ _. False) = (\<lambda>_ _. False)"
    by (simp add: offchip_contents_def fun_eq_iff)
qed

text \<open>A serial NOR flash that never fails, used for the interpretation and the witnesses.\<close>

record ext_dev =
  ed_mem :: mem
  ed_open :: bool

definition nor_ext_flash :: "ext_dev ext_flash" where
  "nor_ext_flash =
     \<lparr>ext_flash_open = (\<lambda>d. (True, d\<lparr>ed_open := True\<rparr>)),
      ext_flash_close = (\<lambda>d. d\<lparr>ed_open := False\<rparr>),
      ext_flash_read = (\<lambda>a n d. (if ed_open d then Some (mem_read (ed_mem d) a n) else None, d)),
      ext_flash_write = (\<lambda>a bs d. if ed_open d then (True, d\<lparr>ed_mem := mem_program a bs (ed_mem d)\<rparr>) else (False, d)),
      ext_flash_erase = (\<lambda>a n d. if ed_open d then (True, d\<lparr>ed_mem := mem_erase a (unat n) (ed_mem d)\<rparr>) else (False, d))\<rparr>"

lemma nor_ext_flash_ok: "ext_flash_ok nor_ext_flash ed_mem ed_open"
  by (auto simp: ext_flash_ok_def nor_ext_flash_def mem_program_def mem_erase_def
      EXT_FLASH_ERASE_SECTOR_SIZE_def split: if_splits)

interpretation offchip: sensor_backend_laws "offchip_backend (env\<lparr>oe_flash := nor_ext_flash\<rparr>)"
    "offchip_contents ed_mem" "\<lambda>_ _ _. False"
  for env
  by (rule offchip_backend_laws [where is_open = ed_open]) (simp add: nor_ext_flash_ok)

section \<open>The flash is never left open\<close>

lemmas offchip_op_defs =
  offchip_start_def offchip_erase_sector_def offchip_write_def offchip_read_def
  read_offchip_image_header_def write_offchip_bim_metadata_def

lemma ext_open_failed:
  "ext_flash_ok fl cont is_open \<Longrightarrow> \<not> is_open d \<Longrightarrow> ext_flash_open fl d = (False, d') \<Longrightarrow> \<not> is_open d'"
  by (simp add: ext_open)

lemma closes:
  assumes ok: "ext_flash_ok (oe_flash env) cont is_open" and d: "\<not> is_open d"
  shows start_closes: "\<not> is_open (snd (offchip_start env t fsz sec rej d))"
    and erase_closes: "\<not> is_open (snd (offchip_erase_sector env t so d))"
    and write_closes: "\<not> is_open (snd (offchip_write env t off data len d))"
    and read_closes: "\<not> is_open (snd (offchip_read env t off len d))"
    and read_header_closes: "\<not> is_open (snd (read_offchip_image_header env d))"
    and write_metadata_closes: "\<not> is_open (snd (write_offchip_bim_metadata env h d))"
  using d ext_close(2) [OF ok] ext_open_failed [OF ok d]
  by (auto simp: offchip_op_defs Let_def split: prod.split bool.split option.split)

lemma stage_closes:
  assumes ok: "ext_flash_ok (oe_flash env) cont is_open" and d: "\<not> is_open d"
  shows "\<not> is_open (snd (offchip_stage env fsz t d))"
  using read_header_closes [OF ok d] write_metadata_closes [OF ok]
  by (auto simp: offchip_stage_def split: prod.split option.split)

text \<open>Every operation of the offchip backend leaves the external flash closed: whatever the driver
  answers, on every error path, a closed flash is closed again when the operation returns.\<close>

theorem offchip_ops_close_flash:
  assumes "ext_flash_ok (oe_flash env) cont is_open" and "\<not> is_open d"
  shows "\<not> is_open (snd (be_start (offchip_backend env) t fsz sec rej d)) \<and>
    \<not> is_open (snd (be_erase_sector (offchip_backend env) t so d)) \<and>
    \<not> is_open (snd (be_write (offchip_backend env) t off data len d)) \<and>
    \<not> is_open (snd (be_read (offchip_backend env) t off len d)) \<and>
    \<not> is_open (snd (be_stage (offchip_backend env) fsz t d))"
  using closes [OF assms] stage_closes [OF assms] by (simp add: offchip_backend_def)

definition sample_offchip_env :: "ext_dev offchip_env" where
  "sample_offchip_env =
     \<lparr>oe_flash = nor_ext_flash,
      oe_sdk =
        \<lparr>sizeof_imgHdr = 44,
         imgHdr_of_bytes = (\<lambda>bs.
           \<lparr>fixedHdr =
              \<lparr>imgID = take 8 bs, crc32 = 77, bimVer = 3, metaVer = 1, techType = 0, imgCpStat = 0xFF,
               crcStat = 0xFF, imgType = 1, imgNo = 0, imgVld = 0, hdr_len = 0x200, prgEntry = 0xA8,
               softVer = [5, 0, 0, 0], imgEndAddr = 0x1FF, hdrLen = 44\<rparr>,
            secVer = 2, imgPayload = \<lparr>segTypeImg = 1, wirelessTech = 0, startAddr = 0\<rparr>\<rparr>),
         bytes_of_ExtImageInfo = (\<lambda>i. take 8 (imgID (ext_fixedHdr i) @ replicate 8 0) @ le32 (extFlAddr i) @ le32 (counter i)),
         ExtImageInfo_of_bytes = (\<lambda>bs.
           \<lparr>ext_fixedHdr =
              \<lparr>imgID = take 8 bs, crc32 = 0, bimVer = 0, metaVer = 0, techType = 0, imgCpStat = 0,
               crcStat = 0, imgType = 0, imgNo = 0, imgVld = 0, hdr_len = 0, prgEntry = 0,
               softVer = [], imgEndAddr = 0, hdrLen = 0\<rparr>,
            extFlAddr = of_le32 (take 4 (drop 8 bs)), counter = of_le32 (drop 12 bs)\<rparr>),
         sizeof_ExtImageInfo = 16, OAD_IMG_ID_VAL = oad_id, OAD_EXTFL_ID_VAL = replicate 8 0x4F,
         OAD_WIRELESS_TECH_TIMAC_2_4G = 0, OAD_IMG_TYPE_APPSTACKLIB = 7, BIM_VER = 3, META_VER = 1,
         CRC_INVALID = 0xFC, CRC_VALID = 0xFE, NEED_COPY = 0xFE, DEFAULT_CRC = 0,
         DEFAULT_STATE = 0xFF, INVALID_LEN = 0xFFFFFFFF, IMG_PAYLOAD_SEG_ID = 1,
         RSTSRC_PWR_ON = 0, RSTSRC_PIN_RESET = 1, RSTSRC_WAKEUP_FROM_SHUTDOWN = 7\<rparr>,
      OTA_RUNNING_SEC_VER = 1, OTA_EXPECTED_IMG_TYPE = 1\<rparr>"

theorem offchip_ops_close_flash_witness:
  "\<not> ed_open (snd (be_erase_sector (offchip_backend sample_offchip_env) OTA_TARGET_OFFCHIP 0
     \<lparr>ed_mem = (\<lambda>_. 0), ed_open = False\<rparr>))"
proof -
  have "ext_flash_ok (oe_flash sample_offchip_env) ed_mem ed_open"
    by (simp add: sample_offchip_env_def nor_ext_flash_ok)
  from offchip_ops_close_flash [OF this, of "\<lparr>ed_mem = (\<lambda>_. 0), ed_open = False\<rparr>"]
  show ?thesis by simp
qed

section \<open>Staging\<close>

lemma write_offchip_metadata_effect:
  assumes ok: "ext_flash_ok (oe_flash env) cont is_open"
    and size: "\<And>i. length (bytes_of_ExtImageInfo (oe_sdk env) i) = sizeof_ExtImageInfo (oe_sdk env)"
      "sizeof_ExtImageInfo (oe_sdk env) \<le> 4096"
    and w: "write_offchip_bim_metadata env h d = (True, d')"
  shows "mem_read (cont d') OTA_EXT_METADATA_ADDR (sizeof_ExtImageInfo (oe_sdk env)) =
      bytes_of_ExtImageInfo (oe_sdk env) (offchip_bim_metadata env h)"
    and "\<not> in_region OTA_EXT_METADATA_ADDR 4096 x \<Longrightarrow> cont d' x = cont d x"
proof -
  let ?bs = "bytes_of_ExtImageInfo (oe_sdk env) (offchip_bim_metadata env h)"
  from w obtain d1 d2 d3 rb d4 where o: "ext_flash_open (oe_flash env) d = (True, d1)"
    "ext_flash_erase (oe_flash env) OTA_EXT_METADATA_ADDR EXT_FLASH_ERASE_SECTOR_SIZE d1 = (True, d2)"
    "ext_flash_write (oe_flash env) OTA_EXT_METADATA_ADDR ?bs d2 = (True, d3)"
    "ext_flash_read (oe_flash env) OTA_EXT_METADATA_ADDR (sizeof_ExtImageInfo (oe_sdk env)) d3 = (Some rb, d4)"
    "d' = ext_flash_close (oe_flash env) d4"
    by (auto simp: write_offchip_bim_metadata_def Let_def split: prod.splits bool.splits option.splits)
  have al: "unat OTA_EXT_METADATA_ADDR mod 4096 = 0" by (simp add: OTA_EXT_METADATA_ADDR_def)
  have m: "cont d' = mem_program OTA_EXT_METADATA_ADDR ?bs (mem_erase OTA_EXT_METADATA_ADDR 4096 (cont d))"
    using ext_open(1) [OF ok o(1)] ext_erase(3) [OF ok o(2) al] ext_write(3) [OF ok o(3)]
      ext_read(1) [OF ok o(4)] ext_close(1) [OF ok] o(5) by simp
  show "mem_read (cont d') OTA_EXT_METADATA_ADDR (sizeof_ExtImageInfo (oe_sdk env)) = ?bs"
    unfolding m using size(2)
    by (intro mem_read_program_erased) (auto simp: size(1) mem_erase_def intro!: in_region_of_nat)
  have "\<not> in_region OTA_EXT_METADATA_ADDR (length ?bs) x" if "\<not> in_region OTA_EXT_METADATA_ADDR 4096 x"
    using that size in_region_mono by metis
  then show "\<not> in_region OTA_EXT_METADATA_ADDR 4096 x \<Longrightarrow> cont d' x = cont d x"
    by (simp add: m mem_program_def mem_erase_def)
qed

text \<open>C22. What a successful offchip staging did: the header at the start of the downloaded image passed
  every validation check, and the metadata sector now holds exactly the record made from it (the
  boot manager's identification bytes, NEED_COPY, CRC_VALID, the image's address and software
  version), while every byte of the device outside the metadata sector, the image included, is
  unchanged.\<close>

theorem offchip_stage_success:
  assumes ok: "ext_flash_ok (oe_flash env) cont is_open"
    and size: "\<And>i. length (bytes_of_ExtImageInfo (oe_sdk env) i) = sizeof_ExtImageInfo (oe_sdk env)"
      "sizeof_ExtImageInfo (oe_sdk env) \<le> 4096"
    and staged: "offchip_stage env fsz t d = (True, d')"
  shows "\<exists>h. h = imgHdr_of_bytes (oe_sdk env) (mem_read (cont d) OTA_EXT_IMAGE_ADDR (sizeof_imgHdr (oe_sdk env))) \<and>
    validate_offchip_image env fsz h \<and>
    mem_read (cont d') OTA_EXT_METADATA_ADDR (sizeof_ExtImageInfo (oe_sdk env)) =
      bytes_of_ExtImageInfo (oe_sdk env) (offchip_bim_metadata env h) \<and>
    (\<forall>x. \<not> in_region OTA_EXT_METADATA_ADDR 4096 x \<longrightarrow> cont d' x = cont d x)"
proof -
  from staged obtain h d1 where r: "read_offchip_image_header env d = (Some h, d1)"
    and v: "validate_offchip_image env fsz h" and w: "write_offchip_bim_metadata env h d1 = (True, d')"
    by (auto simp: offchip_stage_def split: prod.splits option.splits if_splits)
  from r obtain d2 bs d3 where o: "ext_flash_open (oe_flash env) d = (True, d2)"
    "ext_flash_read (oe_flash env) OTA_EXT_IMAGE_ADDR (sizeof_imgHdr (oe_sdk env)) d2 = (Some bs, d3)"
    "h = imgHdr_of_bytes (oe_sdk env) bs" "d1 = ext_flash_close (oe_flash env) d3"
    by (auto simp: read_offchip_image_header_def split: prod.splits bool.splits)
  have "cont d1 = cont d" "bs = mem_read (cont d) OTA_EXT_IMAGE_ADDR (sizeof_imgHdr (oe_sdk env))"
    using ext_open(1) [OF ok o(1)] ext_read [OF ok o(2)] ext_close(1) [OF ok] o(4) by auto
  with write_offchip_metadata_effect [OF ok size w] v o(3) show ?thesis by auto
qed

definition sample_ext_dev :: ext_dev where
  "sample_ext_dev = \<lparr>ed_mem = mem_write OTA_EXT_IMAGE_ADDR oad_id (\<lambda>_. 0), ed_open = False\<rparr>"

lemma sample_offchip_size:
  "length (bytes_of_ExtImageInfo (oe_sdk sample_offchip_env) i) = sizeof_ExtImageInfo (oe_sdk sample_offchip_env)"
  "sizeof_ExtImageInfo (oe_sdk sample_offchip_env) \<le> 4096"
  by (simp_all add: sample_offchip_env_def)

lemma sample_offchip_stages: "fst (offchip_stage sample_offchip_env 0x400 OTA_TARGET_OFFCHIP sample_ext_dev)"
proof -
  let ?h = "imgHdr_of_bytes (oe_sdk sample_offchip_env) (mem_read (ed_mem sample_ext_dev) OTA_EXT_IMAGE_ADDR 44)"
  have "length oad_id = 8" by (simp add: oad_id_def)
  then have id: "mem_read (mem_write OTA_EXT_IMAGE_ADDR oad_id (\<lambda>_. 0)) OTA_EXT_IMAGE_ADDR 8 = oad_id"
    by (simp add: mem_simps)
  have v: "validate_offchip_image sample_offchip_env 0x400 ?h"
    by (simp add: validate_offchip_image_def sample_offchip_env_def sample_ext_dev_def Let_def
        OTA_INTERNAL_IMAGE_START_ADDR_def OTA_INTERNAL_VECTOR_MIN_ADDR_def OTA_INTERNAL_BIM_ADDR_def
        take_mem_read id word_le_nat_alt)
  let ?bs = "bytes_of_ExtImageInfo (oe_sdk sample_offchip_env) (offchip_bim_metadata sample_offchip_env ?h)"
  have "length ?bs = 16" by (simp add: sample_offchip_env_def)
  then have "mem_read (mem_program OTA_EXT_METADATA_ADDR ?bs
      (mem_erase OTA_EXT_METADATA_ADDR 4096 (ed_mem sample_ext_dev))) OTA_EXT_METADATA_ADDR 16 = ?bs"
    by (intro mem_read_program_erased) (auto simp: mem_erase_def intro!: in_region_of_nat)
  with v show ?thesis
    by (simp add: offchip_stage_def read_offchip_image_header_def write_offchip_bim_metadata_def Let_def
        sample_offchip_env_def nor_ext_flash_def sample_ext_dev_def EXT_FLASH_ERASE_SECTOR_SIZE_def
        offchip_bim_metadata_def)
qed

theorem offchip_stage_success_witness:
  "\<exists>d' h. offchip_stage sample_offchip_env 0x400 OTA_TARGET_OFFCHIP sample_ext_dev = (True, d') \<and>
     validate_offchip_image sample_offchip_env 0x400 h \<and>
     mem_read (ed_mem d') OTA_EXT_METADATA_ADDR 16 =
       bytes_of_ExtImageInfo (oe_sdk sample_offchip_env) (offchip_bim_metadata sample_offchip_env h)"
proof -
  have ok: "ext_flash_ok (oe_flash sample_offchip_env) ed_mem ed_open"
    by (simp add: sample_offchip_env_def nor_ext_flash_ok)
  have n: "sizeof_ExtImageInfo (oe_sdk sample_offchip_env) = 16" by (simp add: sample_offchip_env_def)
  obtain d' where "offchip_stage sample_offchip_env 0x400 OTA_TARGET_OFFCHIP sample_ext_dev = (True, d')"
    using sample_offchip_stages by (metis prod.collapse)
  with offchip_stage_success [OF ok sample_offchip_size this] show ?thesis unfolding n by blast
qed

section \<open>Storage without faults\<close>

definition ext_never_fails :: "'d ext_flash \<Rightarrow> ('d \<Rightarrow> bool) \<Rightarrow> bool" where
  "ext_never_fails fl is_open \<longleftrightarrow>
     (\<forall>d. fst (ext_flash_open fl d)) \<and>
     (\<forall>a n d. is_open d \<longrightarrow> fst (ext_flash_read fl a n d) \<noteq> None) \<and>
     (\<forall>a bs d. is_open d \<longrightarrow> fst (ext_flash_write fl a bs d)) \<and>
     (\<forall>a n d. is_open d \<longrightarrow> fst (ext_flash_erase fl a n d))"

lemma nor_ext_never_fails: "ext_never_fails nor_ext_flash ed_open"
  by (simp add: ext_never_fails_def nor_ext_flash_def)

lemma ext_opens:
  assumes ok: "ext_flash_ok fl cont is_open" and rel: "ext_never_fails fl is_open"
  shows "\<exists>d1. ext_flash_open fl d = (True, d1) \<and> is_open d1"
proof -
  obtain r d1 where o: "ext_flash_open fl d = (r, d1)" by (cases "ext_flash_open fl d")
  moreover have "r" using rel o by (metis ext_never_fails_def fst_conv)
  ultimately show ?thesis using ext_open(2) [OF ok o] by simp
qed

lemma offchip_backend_reliable:
  assumes ok: "ext_flash_ok (oe_flash env) cont is_open" and rel: "ext_never_fails (oe_flash env) is_open"
  shows "reliable_backend (offchip_backend env) (offchip_contents cont) (\<lambda>_ _ _. False)"
proof -
  have laws: "sensor_backend_laws (offchip_backend env) (offchip_contents cont) (\<lambda>_ _ _. False)"
    using ok by (rule offchip_backend_laws)
  note opens = ext_opens [OF ok rel]
  show ?thesis
  proof (intro reliable_backend.intro [OF laws] reliable_backend_axioms.intro,
      simp_all only: offchip_backend_def sensor_backend.simps)
    fix t data s and off :: u32 and len :: u16
    show "fst (offchip_write env t off data len s)"
      using opens [of s] rel by (auto simp: offchip_write_def ext_never_fails_def split: prod.split)
        (metis fst_conv)
  next
    fix t s so
    show "fst (offchip_erase_sector env t so s)"
      using opens [of s] rel by (auto simp: offchip_erase_sector_def ext_never_fails_def split: prod.split)
        (metis fst_conv)
  next
    fix t s and off :: u32 and len :: u16
    show "fst (offchip_read env t off len s) \<noteq> None"
      using opens [of s] rel by (auto simp: offchip_read_def ext_never_fails_def split: prod.split)
        (metis fst_conv option.distinct(1))
  qed
qed

interpretation offchip_reliable: reliable_backend "offchip_backend (env\<lparr>oe_flash := nor_ext_flash\<rparr>)"
    "offchip_contents ed_mem" "\<lambda>_ _ _. False"
  for env
  by (rule offchip_backend_reliable [where is_open = ed_open]) (simp_all add: nor_ext_flash_ok nor_ext_never_fails)

end
