(* ===== verification/Sessions.thy ===== *)
theory Sessions
  imports Sensor_Guard Dual_Boot Offchip_Backend
begin

text \<open>
  Whole download sessions on the two real backends: the locale \<open>sensor_flow\<close> interpreted on the
  dual-onchip and the offchip backend with the sender's checksum, and what follows for each. The
  first properties say that a session whose datagrams arrive delivers the image, the later ones
  what no datagrams at all can do to the node.
\<close>

section \<open>The flow on the two backends\<close>

interpretation dual_flow: sensor_flow
    "\<lparr>se_backend = dual_backend (env\<lparr>de_driver := nor_driver\<rparr>), crc16_data = py_crc16_data,
      OTA_STAGE_RESET_AFTER_VERIFY = reset\<rparr>" dual_contents dual_tracked
  for env reset
  by (intro sensor_flow.intro) (simp_all add: dual_reliable.reliable_backend_axioms py.crc16_laws_axioms)

interpretation offchip_flow: sensor_flow
    "\<lparr>se_backend = offchip_backend (env\<lparr>oe_flash := nor_ext_flash\<rparr>), crc16_data = py_crc16_data,
      OTA_STAGE_RESET_AFTER_VERIFY = reset\<rparr>" "offchip_contents ed_mem" "\<lambda>_ _ _. False"
  for env reset
  by (intro sensor_flow.intro) (simp_all add: offchip_reliable.reliable_backend_axioms py.crc16_laws_axioms)

lemma dual_flow_general:
  assumes "driver_never_fails (de_driver env)" "se_backend E = dual_backend env" "crc16_laws (crc16_data E)"
  shows "sensor_flow E dual_contents dual_tracked"
  using dual_backend_reliable [OF assms(1)] assms(2,3) by (intro sensor_flow.intro) simp_all

lemma offchip_flow_general:
  assumes "ext_flash_ok (oe_flash env) cont is_open" "ext_never_fails (oe_flash env) is_open"
    "se_backend E = offchip_backend env" "crc16_laws (crc16_data E)"
  shows "sensor_flow E (offchip_contents cont) (\<lambda>_ _ _. False)"
  using offchip_backend_reliable [OF assms(1,2)] assms(3,4) by (intro sensor_flow.intro) simp_all

section \<open>A session delivers the image\<close>

lemma dual_start_ok:
  assumes "driver_never_fails (de_driver env)" "unat t \<le> 1" "t \<noteq> running_slot env"
    "0 < unat fsz" "unat fsz \<le> unat (ota_flash_slot_size t)"
    "sec = OTA_START_SEC_VER_UNKNOWN \<or> sec > dual_running_sec_ver env"
  obtains q s' where "dual_start env t fsz sec rej s = ((True, q), s')"
proof -
  have "fst (fst (dual_start env t fsz sec rej s))" using assms by (simp add: dual_start_accepts)
  then show ?thesis using that by (metis prod.collapse)
qed

lemma dual_session_result:
  fixes st :: "dual_state sensor_state"
  assumes drv: "driver_never_fails (de_driver env)" and E: "se_backend E = dual_backend env"
    and crc: "crc16_laws (crc16_data E)" and v: "valid_session E im t sec d0 trs"
    and adm: "unat t \<le> 1" "t \<noteq> running_slot env" "0 < im_size im" "im_size im \<le> unat (ota_flash_slot_size t)"
      "sec = OTA_START_SEC_VER_UNKNOWN \<or> sec > dual_running_sec_ver env"
  defines "st' \<equiv> fold (sensor_step E) (session_datagrams d0 trs) st"
  shows "ota_session_active st'" "ota_target_slot st' = t" "unat (current_file_size st') = im_size im"
    "running_fw_crc st' = crc16_data E (im_bytes im 0 (im_size im)) 0"
    "\<And>j. j < im_size im \<Longrightarrow> fmem (backend st') (ota_flash_slot_start t + of_nat j) = im_byte im j"
proof -
  have fsz: "unat (pk_offset (dgram_packet d0)) = im_size im" using v by (simp add: valid_session_def is_start_def)
  obtain q s' where ok: "be_start (se_backend E) t (pk_offset (dgram_packet d0)) sec
      OTA_START_STATUS_REJECTED_TARGET (backend st) = ((True, q), s')"
    using dual_start_ok [OF drv adm(1,2), of "pk_offset (dgram_packet d0)" sec OTA_START_STATUS_REJECTED_TARGET "backend st"]
      adm(3-5) fsz by (metis E dual_backend_def sensor_backend.select_convs(3))
  note res = sensor_flow.session_downloads [OF dual_flow_general [OF drv E crc] v ok]
  show "ota_session_active st'" "ota_target_slot st' = t" "unat (current_file_size st') = im_size im"
    "running_fw_crc st' = crc16_data E (im_bytes im 0 (im_size im)) 0"
    "\<And>j. j < im_size im \<Longrightarrow> fmem (backend st') (ota_flash_slot_start t + of_nat j) = im_byte im j"
    using res by (simp_all add: st'_def dual_contents_def)
qed

text \<open>C10. A download to the dual-onchip backend delivers the image. Take a node whose flash does not
  fail and a START for the slot that is not running, with a fitting size and an acceptable
  version. If then, page by page, every chunk of the page arrives at least once, in any order and
  with any duplicates, mixed with late packets of earlier pages, and the page's PAGE_END follows,
  then afterwards the session is active, every byte of the slot holds the image's byte, and the
  cumulative checksum is the checksum of the whole image.\<close>

theorem dual_session_delivers:
  assumes drv: "driver_never_fails (de_driver env)" and E: "se_backend E = dual_backend env"
    and crc: "crc16_laws (crc16_data E)" and v: "valid_session E im t sec d0 trs"
    and adm: "unat t \<le> 1" "t \<noteq> running_slot env" "0 < im_size im" "im_size im \<le> unat (ota_flash_slot_size t)"
      "sec = OTA_START_SEC_VER_UNKNOWN \<or> sec > dual_running_sec_ver env"
    and st': "st' = fold (sensor_step E) (session_datagrams d0 trs) st"
  shows "ota_session_active st' \<and> running_fw_crc st' = crc16_data E (im_bytes im 0 (im_size im)) 0 \<and>
    (\<forall>j < im_size im. fmem (backend st') (ota_flash_slot_start t + of_nat j) = im_byte im j)"
  unfolding st' using dual_session_result [OF drv E crc v adm] by simp

text \<open>A session small enough to write down: an image of five bytes in one chunk, sent by node 1 to a
  leaf node with no parent.\<close>

definition sample_net :: net_env where
  "sample_net =
     \<lparr>node_id = 2, root_ipaddr = None, defrt_choose = None, routes = [], tsch_is_associated = True, nbr_lladdr = (\<lambda>_. None),
      queue_get_nbr = (\<lambda>_. None), queue_global_count = 0, random_rand = 7, CLOCK_SECOND = 128\<rparr>"

definition sample_dgram :: "u8 \<Rightarrow> u32 \<Rightarrow> u16 \<Rightarrow> u8 \<Rightarrow> rx_buf \<Rightarrow> datagram" where
  "sample_dgram type offset len t data =
     (sample_net, replicate 16 0,
      (\<lambda>i. fw_packet_bytes \<lparr>pk_type = type, pk_offset = offset, pk_length = len, pk_target_slot = t, pk_data = data\<rparr> ! i),
      72)"

definition sample_image :: image where
  "sample_image = \<lparr>im_byte = (\<lambda>j. of_nat (j + 1)), im_size = 5\<rparr>"

lemma sample_dgram_packet:
  "dgram_complete (sample_dgram type offset len t data)"
  "pk_type (dgram_packet (sample_dgram type offset len t data)) = type"
  "pk_offset (dgram_packet (sample_dgram type offset len t data)) = offset"
  "pk_length (dgram_packet (sample_dgram type offset len t data)) = len"
  "pk_target_slot (dgram_packet (sample_dgram type offset len t data)) = t"
  "i < 64 \<Longrightarrow> pk_data (dgram_packet (sample_dgram type offset len t data)) i = data i"
proof -
  let ?p = "\<lparr>pk_type = type, pk_offset = offset, pk_length = len, pk_target_slot = t, pk_data = data\<rparr>"
  have d: "dgram_packet (sample_dgram type offset len t data) = fw_packet_at (\<lambda>i. fw_packet_bytes ?p ! i)"
    by (simp add: dgram_packet_def sample_dgram_def)
  show "dgram_complete (sample_dgram type offset len t data)"
    by (simp add: dgram_complete_def sample_dgram_def FW_PACKET_HEADER_LEN_def)
  note r = fw_packet_read [where p = ?p, OF holds_bytes_self]
  show "pk_type (dgram_packet (sample_dgram type offset len t data)) = type"
    "pk_offset (dgram_packet (sample_dgram type offset len t data)) = offset"
    "pk_length (dgram_packet (sample_dgram type offset len t data)) = len"
    "pk_target_slot (dgram_packet (sample_dgram type offset len t data)) = t"
    unfolding d by (subst r(1), simp)+
  show "i < 64 \<Longrightarrow> pk_data (dgram_packet (sample_dgram type offset len t data)) i = data i"
    unfolding d by (simp add: fw_packet_read(2) [OF holds_bytes_self])
qed

definition sample_start :: "u8 \<Rightarrow> datagram" where
  "sample_start t = sample_dgram PKT_TYPE_START 5 2 t (\<lambda>_. 0)"

definition sample_transfers :: "u8 \<Rightarrow> (datagram list \<times> datagram) list" where
  "sample_transfers t =
     [([sample_dgram PKT_TYPE_DATA 0 5 t (im_byte sample_image), sample_dgram PKT_TYPE_DATA 0 5 t (im_byte sample_image)],
       sample_dgram PKT_TYPE_PAGE_END 0 (py_crc16_data (im_bytes sample_image 0 5) 0) t (\<lambda>_. 0))]"

lemma sample_session:
  assumes "crc16_data E = py_crc16_data"
  shows "valid_session E sample_image t 2 (sample_start t) (sample_transfers t)"
proof -
  let ?d = "sample_dgram PKT_TYPE_DATA 0 5 t (im_byte sample_image)"
  have d: "is_event E sample_image t (Chunk 0) ?d"
    by (simp add: is_data_chunk_def sample_dgram_packet sample_image_def)
  have chunks: "page_chunks sample_image 0 = {0}" by (auto simp: page_chunks_def sample_image_def)
  have "page_transfer E sample_image t 0 (sample_transfers t ! 0)"
    unfolding page_transfer_def
  proof
    show "\<exists>evs. list_all2 (is_event E sample_image t) evs (fst (sample_transfers t ! 0)) \<and>
        list_all (event_due 0) evs \<and> page_chunks sample_image 0 \<subseteq> {q. Chunk q \<in> set evs}"
      by (intro exI [of _ "[Chunk 0, Chunk 0]"]) (use d in \<open>simp add: sample_transfers_def chunks\<close>)
    show "is_event E sample_image t (PageEnd 0) (snd (sample_transfers t ! 0))"
      by (simp add: sample_transfers_def is_page_end_def sample_dgram_packet page_end_offset_def assms)
        (simp add: sample_image_def)
  qed
  moreover have "im_size sample_image + 4096 \<le> 2 ^ 32" "length (sample_transfers t) = 1"
    "im_size sample_image \<le> 4096 * length (sample_transfers t)" "is_start sample_image t 2 (sample_start t)"
    by (simp_all add: sample_image_def sample_transfers_def is_start_def sample_start_def sample_dgram_packet)
  ultimately show ?thesis by (simp add: valid_session_def)
qed

definition sample_sensor_env :: "dual_state sensor_env" where
  "sample_sensor_env = \<lparr>se_backend = dual_backend sample_env, crc16_data = py_crc16_data, OTA_STAGE_RESET_AFTER_VERIFY = True\<rparr>"

lemma sample_env_facts:
  "driver_never_fails (de_driver sample_env)" "running_slot sample_env = 0" "dual_running_sec_ver sample_env = 1"
  by (simp_all add: nor_driver_never_fails running_slot_def ota_flash_current_slot_def dual_running_sec_ver_def
      sample_env_def sample_header_def layout_defs slot_defs)

theorem dual_session_delivers_witness:
  "let st' = fold (sensor_step sample_sensor_env)
       (session_datagrams (sample_start 1) (sample_transfers 1)) (sensor_initial sample_state)
   in fmem (backend st') (OTA_SLOT_B_START + 4) = 5"
proof -
  have "(\<forall>j < im_size sample_image. fmem (backend (fold (sensor_step sample_sensor_env)
      (session_datagrams (sample_start 1) (sample_transfers 1)) (sensor_initial sample_state)))
      (ota_flash_slot_start 1 + of_nat j) = im_byte sample_image j)"
    by (rule dual_session_delivers [where env = sample_env and sec = 2,
          OF _ _ _ sample_session _ _ _ _ _ refl, THEN conjunct2, THEN conjunct2])
      (simp_all add: sample_env_facts sample_sensor_env_def py.crc16_laws_axioms sample_image_def
        ota_flash_slot_size_def layout_defs slot_defs)
  from this [rule_format, of 4] show ?thesis
    by (simp add: sample_image_def Let_def ota_flash_slot_start_def slot_defs)
qed

lemma dual_stage_ok:
  assumes drv: "driver_never_fails (de_driver env)" and t: "t = slot_no s"
    and val: "validate_downloaded_image env fsz t st = Some (v, z, c)"
  shows "fst (dual_stage env fsz t st)"
proof -
  obtain known stored where rd: "ota_flash_read_metadata st = (known, stored)"
    by (cases "ota_flash_read_metadata st")
  define m0 where "m0 = (if known then stored
      else ota_metadata_init_factory stored (ucast (current_slot st))
             (dual_image_softver_to_u32 (softVer (fixedHdr (ota_image_header env))))
             (dual_running_size env) (crc32 (fixedHdr (ota_image_header env))))"
  have "magic m0 = OTA_IMAGE_MAGIC"
    using rd by (auto simp: m0_def ota_flash_read_metadata_def Let_def dest: crc_is_valid_magic)
  then obtain m1 m2 where ops: "ota_metadata_mark_verified m0 (slot_no s) v z c = (True, m1)"
      "ota_metadata_stage_verified_image m1 (slot_no s) = (True, m2)"
    by (rule mark_stage_seq)
  obtain st1 where "ota_flash_write_metadata (de_driver env) m2 st = (True, st1)"
    using write_metadata_never_fails [OF drv, of m2 st] by (metis prod.collapse)
  with val rd ops show ?thesis
    by (simp add: dual_stage_def Let_def t m0_def [symmetric])
qed

lemma slot_no_of_le_1: "unat (t :: u8) \<le> 1 \<Longrightarrow> \<exists>s. t = slot_no s"
proof -
  assume "unat t \<le> 1"
  then have "t = 0 \<or> t = 1" by (simp add: word_unat_eq_iff le_Suc_eq)
  then show "\<exists>s. t = slot_no s" by (auto simp: slot_defs intro: exI [of _ SlotA] exI [of _ SlotB])
qed

text \<open>The VERIFY at the end of a download, from the state the download left.\<close>

lemma dual_verify_result:
  assumes drv: "driver_never_fails (de_driver env)" and E: "se_backend E = dual_backend env"
    and crc: "crc16_laws (crc16_data E)" and t: "unat t \<le> 1" and size: "im_size im \<le> unat (ota_flash_slot_size t)"
    and dl: "ota_session_active st'" "ota_target_slot st' = t"
      "running_fw_crc st' = crc16_data E (im_bytes im 0 (im_size im)) 0"
      "\<And>j. j < im_size im \<Longrightarrow> fmem (backend st') (ota_flash_slot_start t + of_nat j) = im_byte im j"
    and vd: "is_verify E im t vd"
    and val: "validate_downloaded_image env (current_file_size st') t (backend st') = Some (ver, fsize, fcrc)"
  shows "\<not> ota_session_active (sensor_step E vd st') \<and>
    (\<exists>s m. t = slot_no s \<and> ota_flash_read_metadata (backend (sensor_step E vd st')) = (True, m) \<and>
      bv_candidate (boot_view_of m) = slot_no s \<and> bv_attempts (boot_view_of m) = 0 \<and>
      bv_image (boot_view_of m) s =
        \<lparr>img_state = OTA_IMAGE_STATE_PENDING, img_version = ver, img_size = fsize, img_crc = fcrc\<rparr>) \<and>
    (\<forall>j < im_size im. fmem (backend (sensor_step E vd st')) (ota_flash_slot_start t + of_nat j) = im_byte im j)"
proof -
  note vres = sensor_flow.verify_stages [OF dual_flow_general [OF drv E crc] vd dl(1-3)]
  have b: "backend (sensor_step E vd st') = snd (dual_stage env (current_file_size st') t (backend st'))"
    using vres(2) by (simp add: E dual_backend_def)
  obtain s where s: "t = slot_no s" using slot_no_of_le_1 [OF t] by blast
  obtain st2 where st2: "dual_stage env (current_file_size st') t (backend st') = (True, st2)"
    using dual_stage_ok [OF drv s val] by (metis prod.collapse)
  have "flash_driver_ok (de_driver env)" using drv by (simp add: driver_never_fails_def)
  from dual_stage_effect [OF this st2] val s obtain m where m: "ota_flash_read_metadata st2 = (True, m)"
    "bv_candidate (boot_view_of m) = slot_no s" "bv_attempts (boot_view_of m) = 0"
    "bv_image (boot_view_of m) s =
        \<lparr>img_state = OTA_IMAGE_STATE_PENDING, img_version = ver, img_size = fsize, img_crc = fcrc\<rparr>"
    and keep: "\<And>x. \<not> in_region NV_METADATA_PAGE_ADDRESS (unat OTA_FLASH_ERASE_SECTOR_SIZE) x \<Longrightarrow> fmem st2 x = fmem (backend st') x"
    by auto
  have "fmem st2 (ota_flash_slot_start t + of_nat j) = im_byte im j" if j: "j < im_size im" for j
  proof -
    have lt: "j < unat (ota_flash_slot_size t)" "j < 2 ^ 32"
      using j size unat_u32_less [of "ota_flash_slot_size t"] by linarith+
    then have "slot_region t (ota_flash_slot_start t + of_nat j)"
      unfolding slot_region_def by (intro in_region_of_nat)
    then have "\<not> in_region NV_METADATA_PAGE_ADDRESS (unat OTA_FLASH_ERASE_SECTOR_SIZE) (ota_flash_slot_start t + of_nat j)"
      using slot_regions_disjoint(2) by blast
    with keep dl(4) [OF j] show ?thesis by simp
  qed
  moreover have "backend (sensor_step E vd st') = st2" by (simp add: b st2)
  ultimately show ?thesis using vres(1) m s by auto
qed

text \<open>A complete update of the dual-onchip backend. After a delivered session, a VERIFY with the
  checksum of the image ends the session; and if the image carries a valid header for its slot,
  the metadata in flash is then valid, names the slot as the boot candidate with no boot attempts
  and a PENDING image with the version, size and CRC of that header, and the slot still holds the
  image.\<close>

theorem dual_update_staged:
  assumes drv: "driver_never_fails (de_driver env)" and E: "se_backend E = dual_backend env"
    and crc: "crc16_laws (crc16_data E)" and v: "valid_session E im t sec d0 trs"
    and adm: "unat t \<le> 1" "t \<noteq> running_slot env" "0 < im_size im" "im_size im \<le> unat (ota_flash_slot_size t)"
      "sec = OTA_START_SEC_VER_UNKNOWN \<or> sec > dual_running_sec_ver env"
    and st': "st' = fold (sensor_step E) (session_datagrams d0 trs) st"
    and vd: "is_verify E im t vd"
    and val: "validate_downloaded_image env (current_file_size st') t (backend st') = Some (ver, fsize, fcrc)"
  shows "\<not> ota_session_active (sensor_step E vd st') \<and>
    (\<exists>s m. t = slot_no s \<and> ota_flash_read_metadata (backend (sensor_step E vd st')) = (True, m) \<and>
      bv_candidate (boot_view_of m) = slot_no s \<and> bv_attempts (boot_view_of m) = 0 \<and>
      bv_image (boot_view_of m) s =
        \<lparr>img_state = OTA_IMAGE_STATE_PENDING, img_version = ver, img_size = fsize, img_crc = fcrc\<rparr>) \<and>
    (\<forall>j < im_size im. fmem (backend (sensor_step E vd st')) (ota_flash_slot_start t + of_nat j) = im_byte im j)"
proof -
  note res = dual_session_result [where st = st, OF drv E crc v adm, folded st']
  show ?thesis by (rule dual_verify_result [OF drv E crc adm(1,4) res(1,2,4,5) vd val])
qed

theorem dual_update_staged_witness:
  "let st' = fold (sensor_step sample_sensor_env)
         (session_datagrams (sample_start 1) (sample_transfers 1)) (sensor_initial sample_state);
       st'' = sensor_step sample_sensor_env
         (sample_dgram PKT_TYPE_VERIFY (ucast (py_crc16_data (im_bytes sample_image 0 5) 0)) 0 1 (\<lambda>_. 0)) st'
   in \<exists>m. ota_flash_read_metadata (backend st'') = (True, m) \<and> candidate_slot m = 1"
proof -
  let ?st' = "fold (sensor_step sample_sensor_env)
    (session_datagrams (sample_start 1) (sample_transfers 1)) (sensor_initial sample_state)"
  let ?vd = "sample_dgram PKT_TYPE_VERIFY (ucast (py_crc16_data (im_bytes sample_image 0 5) 0)) 0 1 (\<lambda>_. 0)"
  have E: "se_backend sample_sensor_env = dual_backend sample_env" "crc16_laws (crc16_data sample_sensor_env)"
    by (simp_all add: sample_sensor_env_def py.crc16_laws_axioms)
  have v: "valid_session sample_sensor_env sample_image 1 2 (sample_start 1) (sample_transfers 1)"
    by (rule sample_session) (simp add: sample_sensor_env_def)
  have adm: "unat (1 :: u8) \<le> 1" "(1 :: u8) \<noteq> running_slot sample_env" "0 < im_size sample_image"
    "im_size sample_image \<le> unat (ota_flash_slot_size 1)"
    "(2 :: u16) = OTA_START_SEC_VER_UNKNOWN \<or> 2 > dual_running_sec_ver sample_env"
    by (simp_all add: sample_env_facts sample_image_def ota_flash_slot_size_def layout_defs slot_defs)
  note res = dual_session_result [where st = "sensor_initial sample_state", OF sample_env_facts(1) E v adm]
  have u: "(ucast (ucast w :: u32) :: u16) = w" for w by (rule bit_word_eqI) (simp add: bit_simps)
  have vd: "is_verify sample_sensor_env sample_image 1 ?vd"
    by (simp add: is_verify_def sample_dgram_packet sample_sensor_env_def u) (simp add: sample_image_def)
  have "\<not> current_file_size ?st' < 5"
    using res(3) by (simp add: sample_image_def word_less_nat_alt)
  then have val: "validate_downloaded_image sample_env (current_file_size ?st') 1 (backend ?st') = Some (0x01000000, 5, 77)"
    using sample_validates [of "current_file_size ?st'" "backend ?st'"] by (simp add: slot_defs)
  from dual_update_staged [OF sample_env_facts(1) E v adm refl vd val] obtain s m where
    s: "(1 :: u8) = slot_no s" and m: "ota_flash_read_metadata (backend (sensor_step sample_sensor_env ?vd ?st')) = (True, m)"
    "bv_candidate (boot_view_of m) = slot_no s" by blast
  have "candidate_slot m = 1" using s m(2) by (cases s) (simp_all add: boot_view_of_def slot_defs)
  with m(1) show ?thesis by (auto simp: Let_def)
qed

lemma offchip_start_ok:
  assumes drv: "ext_flash_ok (oe_flash env) cont is_open" "ext_never_fails (oe_flash env) is_open"
    and E: "se_backend E = offchip_backend env" and fsz: "fsz \<noteq> 0"
    and sec: "sec = OTA_START_SEC_VER_UNKNOWN \<or> sec > OTA_RUNNING_SEC_VER env"
  obtains s' where "be_start (se_backend E) OTA_TARGET_OFFCHIP fsz sec OTA_START_STATUS_REJECTED_TARGET b =
    ((True, OTA_START_STATUS_REJECTED_TARGET), s')"
proof -
  obtain d1 where o: "ext_flash_open (oe_flash env) b = (True, d1)" "is_open d1"
    using ext_opens [OF drv] by blast
  have "fst (ext_flash_erase (oe_flash env) OTA_EXT_IMAGE_ADDR EXT_FLASH_ERASE_SECTOR_SIZE d1)"
    using drv(2) o(2) by (simp add: ext_never_fails_def)
  then obtain d2 where "ext_flash_erase (oe_flash env) OTA_EXT_IMAGE_ADDR EXT_FLASH_ERASE_SECTOR_SIZE d1 = (True, d2)"
    by (metis prod.collapse)
  with o fsz sec show ?thesis by (intro that) (auto simp: E offchip_backend_def offchip_start_def)
qed

text \<open>A download to the offchip backend delivers the image: under the same conditions on the
  datagrams, with a driver that keeps its contract and does not fail, the external flash holds the
  image from the image address on and the cumulative checksum is the image's.\<close>

theorem offchip_session_delivers:
  assumes drv: "ext_flash_ok (oe_flash env) cont is_open" "ext_never_fails (oe_flash env) is_open"
    and E: "se_backend E = offchip_backend env"
    and crc: "crc16_laws (crc16_data E)" and v: "valid_session E im OTA_TARGET_OFFCHIP sec d0 trs"
    and adm: "0 < im_size im" "sec = OTA_START_SEC_VER_UNKNOWN \<or> sec > OTA_RUNNING_SEC_VER env"
    and st': "st' = fold (sensor_step E) (session_datagrams d0 trs) st"
  shows "ota_session_active st' \<and> running_fw_crc st' = crc16_data E (im_bytes im 0 (im_size im)) 0 \<and>
    (\<forall>j < im_size im. cont (backend st') (OTA_EXT_IMAGE_ADDR + of_nat j) = im_byte im j)"
proof -
  have "pk_offset (dgram_packet d0) \<noteq> 0" using v adm(1) by (auto simp: valid_session_def is_start_def)
  from offchip_start_ok [OF drv E this adm(2), of "backend st"] obtain s' where
    ok: "be_start (se_backend E) OTA_TARGET_OFFCHIP (pk_offset (dgram_packet d0)) sec OTA_START_STATUS_REJECTED_TARGET (backend st) =
      ((True, OTA_START_STATUS_REJECTED_TARGET), s')" by blast
  show ?thesis
    using sensor_flow.session_downloads [OF offchip_flow_general [OF drv E crc] v ok]
    by (simp add: st' offchip_contents_def)
qed

definition sample_offchip_sensor_env :: "ext_dev sensor_env" where
  "sample_offchip_sensor_env =
     \<lparr>se_backend = offchip_backend sample_offchip_env, crc16_data = py_crc16_data, OTA_STAGE_RESET_AFTER_VERIFY = True\<rparr>"

theorem offchip_session_delivers_witness:
  "let st' = fold (sensor_step sample_offchip_sensor_env)
       (session_datagrams (sample_start 0x80) (sample_transfers 0x80)) (sensor_initial sample_ext_dev)
   in ed_mem (backend st') 0x10004 = 5"
proof -
  have v: "valid_session sample_offchip_sensor_env sample_image OTA_TARGET_OFFCHIP 2 (sample_start 0x80) (sample_transfers 0x80)"
    unfolding OTA_TARGET_OFFCHIP_def by (rule sample_session) (simp add: sample_offchip_sensor_env_def)
  have "\<forall>j < im_size sample_image. ed_mem (backend (fold (sensor_step sample_offchip_sensor_env)
       (session_datagrams (sample_start 0x80) (sample_transfers 0x80)) (sensor_initial sample_ext_dev)))
      (OTA_EXT_IMAGE_ADDR + of_nat j) = im_byte sample_image j"
    by (rule offchip_session_delivers [where env = sample_offchip_env and is_open = ed_open,
          OF _ _ _ _ v _ _ refl, THEN conjunct2, THEN conjunct2])
      (simp_all add: sample_offchip_sensor_env_def sample_offchip_env_def nor_ext_flash_ok nor_ext_never_fails
        py.crc16_laws_axioms sample_image_def)
  from this [rule_format, of 4] show ?thesis
    by (simp add: sample_image_def Let_def OTA_EXT_IMAGE_ADDR_def)
qed

section \<open>What no datagram can do\<close>

text \<open>The slot of the running image, and the facts that keep it safe: a session is only active for the
  other slot.\<close>

definition session_safe :: "dual_env \<Rightarrow> dual_state sensor_state \<Rightarrow> bool" where
  "session_safe env st \<longleftrightarrow>
     (ota_session_active st \<longrightarrow> unat (ota_target_slot st) \<le> 1 \<and> ota_target_slot st \<noteq> running_slot env)"

definition running_region :: "dual_env \<Rightarrow> u32 \<Rightarrow> bool" where
  "running_region env x \<longleftrightarrow> slot_region (running_slot env) x"

lemma running_region_other:
  assumes "running_region env x" "unat t \<le> 1" "t \<noteq> running_slot env"
  shows "\<not> slot_region t x"
proof -
  obtain s s' where "running_slot env = slot_no s" "t = slot_no s'"
    using slot_no_of_le_1 [OF assms(2)] running_slot_cases by metis
  with assms slot_regions_disjoint(1) [of x] show ?thesis
    by (cases s; cases s') (auto simp: running_region_def)
qed

lemma dual_stage_frame:
  assumes drv: "flash_driver_ok (de_driver env)" and x: "running_region env x"
  shows "fmem (snd (dual_stage env fsz t st)) x = fmem st x"
proof -
  have nx: "\<not> in_region NV_METADATA_PAGE_ADDRESS (unat OTA_FLASH_ERASE_SECTOR_SIZE) x"
    using x slot_regions_disjoint(2) by (auto simp: running_region_def)
  have w: "fmem (snd (ota_flash_write_metadata (de_driver env) m st)) x = fmem st x" for m
  proof -
    obtain r st1 where e: "ota_flash_write_metadata (de_driver env) m st = (r, st1)"
      by (cases "ota_flash_write_metadata (de_driver env) m st")
    from drv e show ?thesis
    proof (cases rule: write_metadata_cases)
      case written
      have "\<not> in_region NV_METADATA_PAGE_ADDRESS (length (metadata_bytes m)) x"
        using nx by (auto simp: in_region_def sizeof_metadata_def layout_defs)
      with written nx e show ?thesis by (simp add: mem_program_def mem_erase_def)
    qed (use nx e in simp_all)
  qed
  show ?thesis
    using w by (auto simp: dual_stage_def Let_def split: option.split prod.split bool.split) (metis snd_conv)+
qed

lemma target_ops_running_frame:
  assumes drv: "flash_driver_ok (de_driver env)" and x: "running_region env x"
    and t: "unat t \<le> 1" "t \<noteq> running_slot env"
  shows "fmem (snd (ota_flash_erase_target_sector (de_driver env) t so st)) x = fmem st x"
    and "length data = unat len \<Longrightarrow> fmem (snd (ota_flash_write_target (de_driver env) t off data len st)) x = fmem st x"
proof -
  note nx = running_region_other [OF x t]
  obtain r st' where e: "ota_flash_erase_target_sector (de_driver env) t so st = (r, st')"
    by (cases "ota_flash_erase_target_sector (de_driver env) t so st")
  from erase_target_frame(2) [OF drv e nx]
  show "fmem (snd (ota_flash_erase_target_sector (de_driver env) t so st)) x = fmem st x" by (simp add: e)
  obtain r2 st2 where w: "ota_flash_write_target (de_driver env) t off data len st = (r2, st2)"
    by (cases "ota_flash_write_target (de_driver env) t off data len st")
  from write_target_frame(2) [OF drv _ w nx]
  show "length data = unat len \<Longrightarrow> fmem (snd (ota_flash_write_target (de_driver env) t off data len st)) x = fmem st x"
    by (simp add: w)
qed

lemma dual_start_frame:
  assumes drv: "flash_driver_ok (de_driver env)" and x: "running_region env x"
  shows "fmem (snd (dual_start env t fsz sec rej st)) x = fmem st x"
    and "fst (fst (dual_start env t fsz sec rej st)) \<Longrightarrow> unat t \<le> 1 \<and> t \<noteq> running_slot env"
proof -
  have le: "t > OTA_SLOT_B \<longleftrightarrow> \<not> unat t \<le> 1" by (auto simp: slot_defs word_nat)
  let ?st = "(ota_flash_reset_erase_tracking (st\<lparr>rejected_same_slot := False\<rparr>))\<lparr>current_slot := running_slot env\<rparr>"
  obtain r st1 where e: "ota_flash_erase_target_sector (de_driver env) t 0 ?st = (r, st1)"
    by (cases "ota_flash_erase_target_sector (de_driver env) t 0 ?st")
  have "fmem st1 x = fmem st x" if "unat t \<le> 1" "t \<noteq> running_slot env"
    using target_ops_running_frame(1) [OF drv x that, of 0 ?st] e by (simp add: ota_flash_reset_erase_tracking_def)
  then show "fmem (snd (dual_start env t fsz sec rej st)) x = fmem st x"
    "fst (fst (dual_start env t fsz sec rej st)) \<Longrightarrow> unat t \<le> 1 \<and> t \<noteq> running_slot env"
    using e by (auto simp: dual_start_def Let_def le running_slot_def [symmetric] ota_flash_reset_erase_tracking_def
        split: bool.splits if_splits)
qed

definition keeps_running :: "dual_env \<Rightarrow> mem \<Rightarrow> dual_state \<Rightarrow> bool" where
  "keeps_running env m st \<longleftrightarrow> (\<forall>x. running_region env x \<longrightarrow> fmem st x = m x)"

definition other_target :: "dual_env \<Rightarrow> u8 \<Rightarrow> bool" where
  "other_target env t \<longleftrightarrow> unat t \<le> 1 \<and> t \<noteq> running_slot env"

lemma dual_guard_laws:
  assumes drv: "flash_driver_ok (de_driver env)" and E: "se_backend E = dual_backend env"
  shows "sensor_guard E (other_target env) (keeps_running env m)"
proof (unfold_locales, simp_all only: E dual_backend_def sensor_backend.simps)
  fix t fsz sec rej and s :: dual_state
  show "keeps_running env m s \<Longrightarrow> keeps_running env m (snd (dual_start env t fsz sec rej s))"
    by (simp add: keeps_running_def dual_start_frame(1) [OF drv])
next
  fix t :: u8 and fsz sec rej and s :: dual_state
  assume "fst (fst (dual_start env t fsz sec rej s))"
  moreover have "running_region env (ota_flash_slot_start (running_slot env))"
    by (simp add: running_region_def slot_region_def in_region_def)
      (simp add: ota_flash_slot_size_def layout_defs)
  ultimately show "other_target env t"
    using dual_start_frame(2) [OF drv] by (auto simp: other_target_def)
next
  fix t so and s :: dual_state
  assume "other_target env t" "keeps_running env m s"
  then show "keeps_running env m (snd (ota_flash_erase_target_sector (de_driver env) t so s))"
    by (simp add: other_target_def keeps_running_def target_ops_running_frame(1) [OF drv])
next
  fix t off and len :: u16 and data :: "u8 list" and s :: dual_state
  assume "other_target env t" "keeps_running env m s" "length data = unat len"
  then show "keeps_running env m (snd (ota_flash_write_target (de_driver env) t off data len s))"
    by (simp add: other_target_def keeps_running_def target_ops_running_frame(2) [OF drv])
next
  fix t off len and s :: dual_state
  assume "keeps_running env m s"
  then show "keeps_running env m (snd (dual_read t off len s))" by (simp add: dual_read_def)
next
  fix t fsz and s :: dual_state
  assume "keeps_running env m s"
  then show "keeps_running env m (snd (dual_stage env fsz t s))"
    by (simp add: keeps_running_def dual_stage_frame [OF drv])
qed

interpretation dual_guard: sensor_guard
    "\<lparr>se_backend = dual_backend (env\<lparr>de_driver := nor_driver\<rparr>), crc16_data = crc, OTA_STAGE_RESET_AFTER_VERIFY = reset\<rparr>"
    "other_target (env\<lparr>de_driver := nor_driver\<rparr>)" "keeps_running (env\<lparr>de_driver := nor_driver\<rparr>) m"
  for env crc reset m
  by (rule dual_guard_laws) (simp_all add: nor_driver_ok)

text \<open>C3. The running image cannot be overwritten over the air. Whatever datagrams a dual-onchip node
  receives, in any number and order, well formed or not, with whatever lengths and offsets, and
  whatever the flash driver reports, every byte of the slot the running image is in stays what it
  was, for a node that starts outside a session.\<close>

theorem running_slot_untouched:
  assumes drv: "flash_driver_ok (de_driver env)" and E: "se_backend E = dual_backend env"
    and idle: "\<not> ota_session_active st" and x: "slot_region (running_slot env) x"
  shows "fmem (backend (fold (sensor_step E) ds st)) x = fmem (backend st) x"
proof -
  note laws = dual_guard_laws [OF drv E, of "fmem (backend st)"]
  have "sensor_guard.guarded (other_target env) (keeps_running env (fmem (backend st))) st"
    using idle by (simp add: sensor_guard.guarded_def [OF laws] keeps_running_def)
  then have "sensor_guard.guarded (other_target env) (keeps_running env (fmem (backend st))) (fold (sensor_step E) ds st)"
    by (rule sensor_guard.guarded_run [OF laws])
  with x show ?thesis
    by (simp add: sensor_guard.guarded_def [OF laws] keeps_running_def running_region_def)
qed

theorem running_slot_untouched_witness:
  "fmem (backend (fold (sensor_step sample_sensor_env)
     [sample_start 1, sample_dgram PKT_TYPE_DATA 0xFFFFF000 0xFFFF 0 (\<lambda>_. 0), sample_start 0] (sensor_initial sample_state))) 0x100 = 0"
proof -
  have "flash_driver_ok (de_driver sample_env)" by (simp add: sample_running nor_driver_ok)
  moreover have "se_backend sample_sensor_env = dual_backend sample_env" by (simp add: sample_sensor_env_def)
  moreover have "\<not> ota_session_active (sensor_initial sample_state)" by (simp add: sensor_initial_def)
  moreover have "slot_region (running_slot sample_env) 0x100"
    by (simp add: sample_env_facts slot_region_def in_region_def ota_flash_slot_start_def
        ota_flash_slot_size_def layout_defs slot_defs)
  ultimately show ?thesis
    by (subst running_slot_untouched) (simp_all add: sensor_initial_def sample_state_def)
qed

lemma offchip_guard_laws:
  assumes ok: "ext_flash_ok (oe_flash env) cont is_open" and E: "se_backend E = offchip_backend env"
  shows "sensor_guard E (\<lambda>t. t = OTA_TARGET_OFFCHIP) (\<lambda>d. \<not> is_open d)"
proof (unfold_locales, simp_all only: E offchip_backend_def sensor_backend.simps)
  fix t fsz sec rej s
  assume "fst (fst (offchip_start env t fsz sec rej s))"
  then show "t = OTA_TARGET_OFFCHIP" by (simp add: offchip_start_def split: if_splits)
qed (use closes [OF ok] stage_closes [OF ok] in simp_all)

interpretation offchip_guard: sensor_guard
    "\<lparr>se_backend = offchip_backend (env\<lparr>oe_flash := nor_ext_flash\<rparr>), crc16_data = crc, OTA_STAGE_RESET_AFTER_VERIFY = reset\<rparr>"
    "\<lambda>t. t = OTA_TARGET_OFFCHIP" "\<lambda>d. \<not> ed_open d"
  for env crc reset
  by (rule offchip_guard_laws [where cont = ed_mem]) (simp_all add: nor_ext_flash_ok)

text \<open>C23. An offchip node never leaves the external flash open and never runs a session for another
  target: after any datagrams at all, with any driver failures, the flash is closed if it was
  closed at first, and an active session is one for the offchip target.\<close>

theorem offchip_always_closed:
  assumes ok: "ext_flash_ok (oe_flash env) cont is_open" and E: "se_backend E = offchip_backend env"
    and idle: "\<not> ota_session_active st" and closed: "\<not> is_open (backend st)"
  shows "\<not> is_open (backend (fold (sensor_step E) ds st)) \<and>
    (ota_session_active (fold (sensor_step E) ds st) \<longrightarrow>
       ota_target_slot (fold (sensor_step E) ds st) = OTA_TARGET_OFFCHIP)"
proof -
  note laws = offchip_guard_laws [OF ok E]
  have "sensor_guard.guarded (\<lambda>t. t = OTA_TARGET_OFFCHIP) (\<lambda>d. \<not> is_open d) st"
    using idle closed by (simp add: sensor_guard.guarded_def [OF laws])
  then have "sensor_guard.guarded (\<lambda>t. t = OTA_TARGET_OFFCHIP) (\<lambda>d. \<not> is_open d) (fold (sensor_step E) ds st)"
    by (rule sensor_guard.guarded_run [OF laws])
  then show ?thesis by (simp add: sensor_guard.guarded_def [OF laws])
qed

theorem offchip_always_closed_witness:
  "\<not> ed_open (backend (fold (sensor_step sample_offchip_sensor_env)
     [sample_start 0x80, sample_dgram PKT_TYPE_DATA 64 0xFFFF 0x80 (\<lambda>_. 0)] (sensor_initial sample_ext_dev)))"
proof -
  have "ext_flash_ok (oe_flash sample_offchip_env) ed_mem ed_open"
    by (simp add: sample_offchip_env_def nor_ext_flash_ok)
  moreover have "se_backend sample_offchip_sensor_env = offchip_backend sample_offchip_env"
    by (simp add: sample_offchip_sensor_env_def)
  ultimately show ?thesis
    by (rule offchip_always_closed [THEN conjunct1]) (simp_all add: sensor_initial_def sample_ext_dev_def)
qed

text \<open>The 32-bit sum of the offchip bounds check lets a range through that runs past the end of the
  offset space, and its sector is the metadata sector.\<close>

lemma offchip_bounds_wraps:
  "offchip_bounds_ok fsz t 0xFFFF0FC0 0xF040"
  "OTA_EXT_IMAGE_ADDR + (0xFFFF0FC0 - 0xFFFF0FC0 mod EXT_FLASH_ERASE_SECTOR_SIZE) = OTA_EXT_METADATA_ADDR"
proof -
  have "(0xFFFF0FC0 :: u32) + ucast (0xF040 :: u16) = 0" by (simp add: word_unat_eq_iff)
  moreover have "(0 :: u16) < 0xF040" by simp
  ultimately show "offchip_bounds_ok fsz t 0xFFFF0FC0 0xF040" by (simp only: offchip_bounds_ok_def word_zero_le simp_thms)
  show "OTA_EXT_IMAGE_ADDR + (0xFFFF0FC0 - 0xFFFF0FC0 mod EXT_FLASH_ERASE_SECTOR_SIZE) = OTA_EXT_METADATA_ADDR"
    by (simp add: ext_layout_defs word_unat_eq_iff)
qed

text \<open>C29. A single DATA datagram can destroy the boot metadata of an offchip node. The bounds check adds
  offset and length in 32 bits, so an offset close to the top of the range passes it; the sector
  the flow then erases is the metadata sector at the start of the external flash. In an active
  session at any regular page, a datagram with offset 0xFFFF0FC0 and length 0xF040 leaves the first
  0xFC0 bytes of the metadata sector erased.\<close>

theorem offchip_data_wipes_metadata:
  assumes drv: "ext_flash_ok (oe_flash env) cont is_open" "ext_never_fails (oe_flash env) is_open"
    and E: "se_backend E = offchip_backend env"
    and act: "ota_session_active st" "ota_target_slot st = t"
      "current_rx_page_offset st = NO_PAGE \<or> current_rx_page_offset st < 0xFFFF0000"
    and d: "dgram_complete d" "pk_type (dgram_packet d) = PKT_TYPE_DATA" "pk_target_slot (dgram_packet d) = t"
      "pk_offset (dgram_packet d) = 0xFFFF0FC0" "pk_length (dgram_packet d) = 0xF040"
    and x: "unat x < 0xFC0"
  shows "cont (backend (sensor_step E d st)) (OTA_EXT_METADATA_ADDR + x) = 0xFF"
proof -
  obtain net raw fwd where s: "sensor_step E d st = handle_data E net (dgram_packet d) raw fwd st"
    using d by (auto simp: sensor_step_def dgram_packet_def dgram_complete_def sensor_udp_rx_def Let_def
        fw_packet_at_def pkt_type_defs split: prod.splits)
  let ?p = "dgram_packet d" and ?st = "forward net fwd raw st"
  let ?data = "buf_bytes (pk_data ?p) 0 (unat (pk_length ?p))"
  have st: "ota_session_active ?st" "ota_target_slot ?st = t" "backend ?st = backend st"
    "current_rx_page_offset ?st = current_rx_page_offset st"
    using act by (simp_all add: forward_def emit_def)
  note laws = offchip_backend_laws [OF drv(1)] and rel = offchip_backend_reliable [OF drv]
  have sec: "(0xFFFF0FC0 :: u32) - 0xFFFF0FC0 mod of_nat PAGE_SIZE = 0xFFFF0000"
    "(0xFFFF0FC0 :: u32) - 0xFFFF0FC0 mod EXT_FLASH_ERASE_SECTOR_SIZE = 0xFFFF0000"
    "unat ((0xFFFF0FC0 :: u32) mod of_nat PAGE_SIZE) div 64 = 63"
    by (simp_all add: PAGE_SIZE_def EXT_FLASH_ERASE_SECTOR_SIZE_def unat_mod)
  obtain s1 where e: "offchip_erase_sector env t 0xFFFF0000 (backend st) = (True, s1)"
    using reliable_backend.erase_succeeds [OF rel, of "0xFFFF1000" t "0xFFFF0000" 1 "0xFFFF0000" "backend st"]
    by (simp add: offchip_backend_def offchip_bounds_ok_def sector_aligned_def EXT_FLASH_ERASE_SECTOR_SIZE_def
        word_le_nat_alt) (metis prod.collapse)
  obtain r s2 where w: "offchip_write env t 0xFFFF0FC0 ?data 0xF040 s1 = (r, s2)"
    by (cases "offchip_write env t 0xFFFF0FC0 ?data 0xF040 s1")
  have sel: "rx_select_page E ?p ?st = (True, ?st\<lparr>current_rx_page_offset := 0xFFFF0000,
      page_bitmap := replicate 8 0, backend := s1\<rparr>)"
    using act(3) e sec d(4) st by (auto simp: rx_select_page_def Let_def E offchip_backend_def)
  have "\<not> bitmap_bit (replicate 8 0) 63" by simp
  then have "backend (rx_store_chunk E ?p (snd (rx_select_page E ?p ?st))) = s2"
    using w sec d(4,5) st by (cases r) (simp_all add: sel rx_store_chunk_def Let_def E offchip_backend_def)
  then have b: "backend (sensor_step E d st) = s2"
    using st d sel by (simp add: s handle_data_def E offchip_backend_def offchip_bounds_wraps(1))
  have c1: "offchip_contents cont s1 t = mem_erase 0xFFFF0000 4096 (offchip_contents cont (backend st) t)"
    using sensor_backend_laws.erase_untracked [OF laws, of t "0xFFFF0000" "backend st" s1] e
    by (simp add: offchip_backend_def sector_aligned_def EXT_FLASH_ERASE_SECTOR_SIZE_def)
  have far: "\<not> in_region 0xFFFF0FC0 (unat (0xF040 :: u16) + 3) (0xFFFF0000 + x)"
  proof -
    have "(0xFFFF0000 + x) - 0xFFFF0FC0 = x - 0xFC0"
      using diff_diff_eq2 [of x "0xFFFF0FC0" "0xFFFF0000"] by (simp add: algebra_simps)
    moreover have "unat (x - 0xFC0) = unat x + 2 ^ 32 - 0xFC0"
      using x by (simp add: unat_sub_if_size word_size)
    ultimately show ?thesis by (simp add: in_region_def)
  qed
  have "offchip_contents cont s2 t (0xFFFF0000 + x) = offchip_contents cont s1 t (0xFFFF0000 + x)"
    using sensor_backend_laws.write_frame [OF laws, of t "0xFFFF0FC0" ?data "0xF040" s1 r s2, OF _ _ far] w d(5)
    by (simp add: offchip_backend_def)
  also have "\<dots> = 0xFF" using x by (simp add: c1 mem_erase_def in_region_def)
  finally have "cont s2 (OTA_EXT_IMAGE_ADDR + (0xFFFF0000 + x)) = 0xFF" by (simp add: offchip_contents_def)
  moreover have "OTA_EXT_IMAGE_ADDR + (0xFFFF0000 + x) = OTA_EXT_METADATA_ADDR + x"
    using offchip_bounds_wraps(2) sec(2) by (simp only: add.assoc [symmetric])
  ultimately show ?thesis by (simp add: b)
qed

theorem offchip_data_wipes_metadata_witness:
  "ed_mem (backend (fold (sensor_step sample_offchip_sensor_env)
     [sample_start 0x80, sample_dgram PKT_TYPE_DATA 0xFFFF0FC0 0xF040 0x80 (\<lambda>_. 0)]
     (sensor_initial sample_ext_dev))) (OTA_EXT_METADATA_ADDR + 0x10) = 0xFF"
proof -
  let ?st = "sensor_step sample_offchip_sensor_env (sample_start 0x80) (sensor_initial sample_ext_dev)"
  have drv: "ext_flash_ok (oe_flash sample_offchip_env) ed_mem ed_open" "ext_never_fails (oe_flash sample_offchip_env) ed_open"
    by (simp_all add: sample_offchip_env_def nor_ext_flash_ok nor_ext_never_fails)
  have E: "se_backend sample_offchip_sensor_env = offchip_backend sample_offchip_env"
    "crc16_laws (crc16_data sample_offchip_sensor_env)"
    by (simp_all add: sample_offchip_sensor_env_def py.crc16_laws_axioms)
  have s: "is_start sample_image 0x80 2 (sample_start 0x80)"
    by (simp add: is_start_def sample_start_def sample_dgram_packet sample_image_def)
  have "be_start (se_backend sample_offchip_sensor_env) 0x80 5 2 OTA_START_STATUS_REJECTED_TARGET (backend (sensor_initial sample_ext_dev)) =
    ((True, OTA_START_STATUS_REJECTED_TARGET), snd (offchip_start sample_offchip_env 0x80 5 2 OTA_START_STATUS_REJECTED_TARGET sample_ext_dev))"
    by (simp add: E offchip_backend_def offchip_start_def OTA_TARGET_OFFCHIP_def sensor_initial_def
        sample_offchip_env_def nor_ext_flash_def word_le_nat_alt split: prod.split)
  then have "pages_done sample_offchip_sensor_env (offchip_contents ed_mem) (\<lambda>_ _ _. False) sample_image 0x80 0 ?st"
    by (intro sensor_flow.start_begins [OF offchip_flow_general [OF drv E] s])
      (simp add: sample_start_def sample_dgram_packet)
  then have "ota_session_active ?st" "ota_target_slot ?st = 0x80" "current_rx_page_offset ?st = NO_PAGE"
    by (simp_all add: pages_done_def session_base_def)
  then have "ed_mem (backend (sensor_step sample_offchip_sensor_env
      (sample_dgram PKT_TYPE_DATA 0xFFFF0FC0 0xF040 0x80 (\<lambda>_. 0)) ?st)) (OTA_EXT_METADATA_ADDR + 0x10) = 0xFF"
    by (intro offchip_data_wipes_metadata [OF drv E(1)]) (simp_all add: sample_dgram_packet)
  then show ?thesis by simp
qed

end
