(* ===== verification/Libc.thy ===== *)
theory Libc
  imports Prelude "HOL-Library.Monad_Syntax"
begin

text \<open>
  What the coordinator uses of the C string library: \<open>strtoul\<close> with base 0, and the conversions of
  \<open>sscanf\<close> its formats contain (literal text, \<open>%lx\<close> and \<open>%x\<close>, \<open>%15[^:]\<close>, \<open>%15s\<close> and
  \<open>%128s\<close>). A C string is the list of the characters before its terminator; \<open>unsigned long\<close> and
  \<open>unsigned int\<close> are 32 bits wide. A scanner returns what it converted and the rest of the input,
  or \<open>None\<close> when the directive does not match.
\<close>

section \<open>Characters\<close>

definition isspace :: "char \<Rightarrow> bool" where
  "isspace c \<longleftrightarrow> c = CHR '' '' \<or> (let n = (of_char c :: nat) in 9 \<le> n \<and> n \<le> 13)"

text \<open>The value of a digit in the largest base.\<close>

definition digit_value :: "char \<Rightarrow> nat option" where
  "digit_value c =
     (let n = (of_char c :: nat)
      in if 0x30 \<le> n \<and> n \<le> 0x39 then Some (n - 0x30)
         else if 0x41 \<le> n \<and> n \<le> 0x5A then Some (n - 0x41 + 10)
         else if 0x61 \<le> n \<and> n \<le> 0x7A then Some (n - 0x61 + 10)
         else None)"

definition is_digit :: "nat \<Rightarrow> char \<Rightarrow> bool" where
  "is_digit base c \<longleftrightarrow> (case digit_value c of Some d \<Rightarrow> d < base | None \<Rightarrow> False)"

definition digits_value :: "nat \<Rightarrow> string \<Rightarrow> nat" where
  "digits_value base = foldl (\<lambda>v c. v * base + the (digit_value c)) 0"

section \<open>Numbers\<close>

fun split_sign :: "string \<Rightarrow> bool \<times> string" where
  "split_sign [] = (False, [])"
| "split_sign (c # s) =
     (if c = CHR ''-'' then (True, s) else if c = CHR ''+'' then (False, s) else (False, c # s))"

fun split_0x :: "string \<Rightarrow> bool \<times> string" where
  "split_0x (z # x # s) =
     (if z = CHR ''0'' \<and> (x = CHR ''x'' \<or> x = CHR ''X'') then (True, s) else (False, z # x # s))"
| "split_0x s = (False, s)"

text \<open>The value with its sign, saturated at \<open>ULONG_MAX\<close>; the boolean is \<open>errno = ERANGE\<close>.\<close>

definition unsigned_long :: "bool \<Rightarrow> nat \<Rightarrow> u32 \<times> bool" where
  "unsigned_long negative v =
     (if v > 0xFFFFFFFF then (0xFFFFFFFF, True)
      else (if negative then - of_nat v else of_nat v, False))"

text \<open>\<open>strtoul(s, &endptr, 0)\<close>: value, \<open>ERANGE\<close>, and the rest at \<open>endptr\<close> if anything was
  converted. A prefix \<open>0x\<close> counts only before a hexadecimal digit.\<close>

definition strtoul :: "string \<Rightarrow> u32 \<times> bool \<times> string option" where
  "strtoul s =
     (let (negative, b) = split_sign (dropWhile isspace s);
          (hex, h) = split_0x b;
          (base, ds) =
            (if hex \<and> h \<noteq> [] \<and> is_digit 16 (hd h) then (16, h)
             else if b \<noteq> [] \<and> hd b = CHR ''0'' then (8, b) else (10, b));
          digits = takeWhile (is_digit base) ds;
          (v, erange) = unsigned_long negative (digits_value base digits)
      in if digits = [] then (0, False, None) else (v, erange, Some (dropWhile (is_digit base) ds)))"

text \<open>\<open>%lx\<close> and \<open>%x\<close>.\<close>

definition scan_x :: "string \<Rightarrow> (u32 \<times> string) option" where
  "scan_x s =
     (let (negative, b) = split_sign (dropWhile isspace s);
          ds = snd (split_0x b);
          digits = takeWhile (is_digit 16) ds
      in if digits = [] then None
         else Some (fst (unsigned_long negative (digits_value 16 digits)), dropWhile (is_digit 16) ds))"

section \<open>Text\<close>

definition scan_literal :: "string \<Rightarrow> string \<Rightarrow> string option" where
  "scan_literal lit s = (if take (length lit) s = lit then Some (drop (length lit) s) else None)"

text \<open>\<open>%n[...]\<close> for the characters with \<open>P\<close>, and \<open>%ns\<close>.\<close>

definition scan_set :: "(char \<Rightarrow> bool) \<Rightarrow> nat \<Rightarrow> string \<Rightarrow> (string \<times> string) option" where
  "scan_set P n s =
     (let w = takeWhile P (take n s) in if w = [] then None else Some (w, drop (length w) s))"

definition scan_s :: "nat \<Rightarrow> string \<Rightarrow> (string \<times> string) option" where
  "scan_s n s = scan_set (\<lambda>c. \<not> isspace c) n (dropWhile isspace s)"

section \<open>Numbers in hexadecimal\<close>

text \<open>The digits Python's format \<open>{:0wX}\<close> prints, for a number below \<open>16 ^ w\<close>.\<close>

definition hex_digit :: "nat \<Rightarrow> char" where
  "hex_digit d = char_of (if d < 10 then 0x30 + d else 0x41 + (d - 10))"

fun to_hex :: "nat \<Rightarrow> nat \<Rightarrow> string" where
  "to_hex 0 n = []"
| "to_hex (Suc w) n = to_hex w (n div 16) @ [hex_digit (n mod 16)]"

lemma digit_value_hex_digit: "d < 16 \<Longrightarrow> digit_value (hex_digit d) = Some d"
  by (auto simp: digit_value_def hex_digit_def Let_def)

lemma length_to_hex [simp]: "length (to_hex w n) = w"
  by (induction w arbitrary: n) simp_all

lemma to_hex_digits: "c \<in> set (to_hex w n) \<Longrightarrow> \<exists>d < 16. c = hex_digit d"
proof (induction w arbitrary: n)
  case (Suc w)
  have "n mod 16 < 16" by simp
  with Suc show ?case by (auto simp del: mod_less_divisor)
qed simp

lemma to_hex_is_digit: "c \<in> set (to_hex w n) \<Longrightarrow> is_digit 16 c"
  using to_hex_digits [of c w n] by (auto simp: is_digit_def digit_value_hex_digit)

lemma digits_value_snoc: "digits_value b (s @ [c]) = digits_value b s * b + the (digit_value c)"
  by (simp add: digits_value_def)

lemma digits_value_to_hex: "n < 16 ^ w \<Longrightarrow> digits_value 16 (to_hex w n) = n"
proof (induction w arbitrary: n)
  case 0
  then show ?case by (simp add: digits_value_def)
next
  case (Suc w)
  have "n div 16 < 16 ^ w" using Suc.prems by (simp add: less_mult_imp_div_less)
  then show ?case by (simp add: digits_value_snoc Suc.IH digit_value_hex_digit)
qed

lemma digit_not_special:
  assumes "is_digit b c"
  shows "\<not> isspace c" "c \<noteq> CHR ''-''" "c \<noteq> CHR ''+''" "c \<noteq> CHR '':''"
proof -
  have "digit_value c \<noteq> None" using assms by (auto simp: is_digit_def split: option.splits)
  then show "\<not> isspace c" "c \<noteq> CHR ''-''" "c \<noteq> CHR ''+''" "c \<noteq> CHR '':''"
    by (auto simp: digit_value_def isspace_def Let_def split: if_splits)
qed

lemma x_not_digit: "\<not> is_digit 16 (CHR ''x'')" "\<not> is_digit 16 (CHR ''X'')" "\<not> is_digit 16 (CHR '':'')"
  by (simp_all add: is_digit_def digit_value_def)

lemma scan_x_digits:
  assumes ds: "ds \<noteq> []" "\<And>c. c \<in> set ds \<Longrightarrow> is_digit 16 c" and rest: "rest = [] \<or> \<not> is_digit 16 (hd rest)"
    and no_x: "rest = [] \<or> hd rest \<noteq> CHR ''x'' \<and> hd rest \<noteq> CHR ''X''" and v: "digits_value 16 ds < 2 ^ 32"
  shows "scan_x (ds @ rest) = Some (of_nat (digits_value 16 ds), rest)"
proof -
  obtain c cs where c: "ds = c # cs" using ds(1) by (cases ds) auto
  have d: "is_digit 16 c" using ds(2) c by simp
  have 1: "dropWhile isspace (ds @ rest) = ds @ rest" using digit_not_special(1) [OF d] by (simp add: c)
  have 2: "split_sign (ds @ rest) = (False, ds @ rest)" using digit_not_special [OF d] by (simp add: c)
  have 3: "snd (split_0x (ds @ rest)) = ds @ rest"
  proof (cases "cs @ rest")
    case Nil
    then show ?thesis by (simp add: c)
  next
    case (Cons x xs)
    have "x \<noteq> CHR ''x'' \<and> x \<noteq> CHR ''X''"
    proof (cases cs)
      case Nil
      then show ?thesis using no_x Cons by auto
    next
      case (Cons y ys)
      then show ?thesis using ds(2) [of y] x_not_digit c \<open>cs @ rest = x # xs\<close> by auto
    qed
    then show ?thesis by (simp add: c Cons)
  qed
  have 4: "takeWhile (is_digit 16) (ds @ rest) = ds" "dropWhile (is_digit 16) (ds @ rest) = rest"
    using ds(2) rest by (cases rest; simp add: takeWhile_append dropWhile_append)+
  show ?thesis
    using ds(1) v by (simp add: scan_x_def 1 2 3 4 unsigned_long_def)
qed

lemma scan_x_to_hex:
  assumes "0 < w" "n < 16 ^ w" "n < 2 ^ 32" "rest = [] \<or> hd rest = CHR '':''"
  shows "scan_x (to_hex w n @ rest) = Some (of_nat n, rest)"
proof -
  have "to_hex w n \<noteq> []" using assms(1) length_to_hex [of w n] by force
  with scan_x_digits [of "to_hex w n" rest] assms(2-4) show ?thesis
    by (auto simp: digits_value_to_hex to_hex_is_digit x_not_digit)
qed

lemma scan_literal_append [simp]: "scan_literal lit (lit @ s) = Some s"
  by (simp add: scan_literal_def)

lemma scan_literal_char [simp]: "scan_literal [c] (c # s) = Some s"
  by (simp add: scan_literal_def)

lemma scan_s_word:
  assumes "w \<noteq> []" "length w \<le> n" "\<And>c. c \<in> set w \<Longrightarrow> \<not> isspace c" "rest = [] \<or> isspace (hd rest)"
  shows "scan_s n (w @ rest) = Some (w, rest)"
proof -
  have 1: "dropWhile isspace (w @ rest) = w @ rest" using assms(1,3) by (cases w) auto
  have "takeWhile (\<lambda>c. \<not> isspace c) (take (n - length w) rest) = []"
    using assms(4) by (cases rest; cases "n - length w") auto
  then have "takeWhile (\<lambda>c. \<not> isspace c) (take n (w @ rest)) = w"
    using assms(2,3) by (simp add: takeWhile_append)
  with 1 assms(1) show ?thesis by (simp add: scan_s_def scan_set_def)
qed

end
