(* ===== verification/Coordinator_Session.thy ===== *)
theory Coordinator_Session
  imports Common Libc Backend
begin

text \<open>
  The coordinator's session, \<open>ota-coordinator-session.c\<close>, with the transfer state of
  \<open>ota-common.c\<close>: which nodes take part, which of them have answered, the bitmaps they reported, and
  the START admission window. The arrays of \<open>MAX_NODES\<close> elements are lists of that length;
  \<open>session_nodes_count\<close> and \<open>retry_count\<close>, 8-bit variables whose values stay below 17
  (\<open>session_ok\<close> is the invariant), are natural numbers. \<open>start_admission_timer\<close> says whether the
  callback timer is armed.
\<close>

definition MAX_NODES :: nat where "MAX_NODES = 16"

record session_state =
  current_file_size :: u32
  page_buffer :: "u8 list"
  page_start_offset :: u32
  page_bytes_received :: u16
  expected_page_size :: u16
  distribution_in_progress :: bool
  ota_target_slot :: u8
  session_nodes :: "ipaddr list"
  session_nodes_count :: nat
  node_replied :: "bool list"
  session_bitmaps :: "u8 list list"
  retry_count :: nat
  start_admission_in_progress :: bool
  session_start_accepted :: "bool list"
  start_admission_timer :: bool
  effects :: "effect list"

definition say :: "effect list \<Rightarrow> 'a session_state_scheme \<Rightarrow> 'a session_state_scheme" where
  "say es st = st\<lparr>effects := effects st @ es\<rparr>"

section \<open>Operations\<close>

definition ota_notify_uart_no_targets :: "'a session_state_scheme \<Rightarrow> 'a session_state_scheme" where
  "ota_notify_uart_no_targets st = say [Uart ''FW:NO_TARGETS''] st"

definition ota_coordinator_has_routes :: "net_env \<Rightarrow> bool" where
  "ota_coordinator_has_routes net \<longleftrightarrow> tsch_is_associated net \<and> routes net \<noteq> []"

definition ota_reset_transfer_state :: "u32 \<Rightarrow> 'a session_state_scheme \<Rightarrow> 'a session_state_scheme" where
  "ota_reset_transfer_state file_size st =
     st\<lparr>current_file_size := file_size, page_start_offset := 0, page_bytes_received := 0,
       expected_page_size := (if file_size > of_nat PAGE_SIZE then of_nat PAGE_SIZE else ucast file_size),
       distribution_in_progress := False\<rparr>"

fun populate_loop :: "ipaddr list \<Rightarrow> 'a session_state_scheme \<Rightarrow> 'a session_state_scheme" where
  "populate_loop [] st = st"
| "populate_loop (route_ip # rs) st =
     (if session_nodes_count st < MAX_NODES
      then populate_loop rs
             (st\<lparr>session_nodes := (session_nodes st)[session_nodes_count st := route_ip],
                session_nodes_count := session_nodes_count st + 1\<rparr>)
      else st)"

definition ota_populate_session_nodes_from_routes ::
    "net_env \<Rightarrow> 'a session_state_scheme \<Rightarrow> 'a session_state_scheme" where
  "ota_populate_session_nodes_from_routes net st =
     populate_loop (map fst (routes net)) (st\<lparr>session_nodes_count := 0\<rparr>)"

text \<open>\<open>None\<close> is the null pointer.\<close>

definition ota_parse_target :: "string option \<Rightarrow> u8" where
  "ota_parse_target target =
     (case target of
        None \<Rightarrow> OTA_TARGET_OFFCHIP
      | Some t \<Rightarrow>
          if t = '''' \<or> t = ''offchip'' \<or> t = ''OFFCHIP'' then OTA_TARGET_OFFCHIP
          else if t = ''A'' \<or> t = ''a'' then OTA_SLOT_A
          else if t = ''B'' \<or> t = ''b'' then OTA_SLOT_B
          else case strtoul t of
            (parsed, erange, endptr) \<Rightarrow>
              if \<not> erange \<and> endptr = Some '''' \<and> parsed \<le> OTA_SLOT_B then ucast parsed
              else OTA_TARGET_INVALID)"

definition ota_target_name :: "u8 \<Rightarrow> string" where
  "ota_target_name target =
     (if target = OTA_SLOT_A then ''A'' else if target = OTA_SLOT_B then ''B''
      else if target = OTA_TARGET_OFFCHIP then ''offchip'' else ''invalid'')"

text \<open>The interface identifier, the last eight bytes of an address.\<close>

definition iid :: "ipaddr \<Rightarrow> u8 list" where "iid ip = take 8 (drop 8 ip)"

definition find_session_node_by_addr :: "ipaddr \<Rightarrow> 'a session_state_scheme \<Rightarrow> nat option" where
  "find_session_node_by_addr addr st =
     List.find (\<lambda>i. iid (session_nodes st ! i) = iid addr) [0..<session_nodes_count st]"

definition remove_session_node :: "int \<Rightarrow> 'a session_state_scheme \<Rightarrow> 'a session_state_scheme" where
  "remove_session_node index st =
     (if index < 0 \<or> index \<ge> int (session_nodes_count st) then st
      else
        let st = fold (\<lambda>i st. st\<lparr>session_nodes := (session_nodes st)[i - 1 := session_nodes st ! i],
                                node_replied := (node_replied st)[i - 1 := node_replied st ! i],
                                session_bitmaps := (session_bitmaps st)[i - 1 := session_bitmaps st ! i]\<rparr>)
                   [nat index + 1..<session_nodes_count st] st;
            st = st\<lparr>session_nodes_count := session_nodes_count st - 1\<rparr>
        in if session_nodes_count st = 0 then ota_notify_uart_no_targets st else st)"

definition ota_page_is_complete :: "nat \<Rightarrow> 'a session_state_scheme \<Rightarrow> bool" where
  "ota_page_is_complete total_chunks st \<longleftrightarrow>
     session_nodes_count st = 0 \<or>
     list_all (\<lambda>i. list_all (\<lambda>chunk_idx. bitmap_bit (session_bitmaps st ! i) chunk_idx) [0..<total_chunks])
       [0..<session_nodes_count st]"

text \<open>The loop that compacts the node array in place: the nodes to keep move to the front, with
  their bitmaps. The admission and the recovery rounds both run it.\<close>

definition compact_step ::
    "(nat \<Rightarrow> bool) \<Rightarrow> nat \<Rightarrow> nat \<times> 'a session_state_scheme \<Rightarrow> nat \<times> 'a session_state_scheme" where
  "compact_step keep i = (\<lambda>(write_idx, st).
     if keep i then
       (write_idx + 1,
        if write_idx \<noteq> i
        then st\<lparr>session_nodes := (session_nodes st)[write_idx := session_nodes st ! i],
               session_bitmaps := (session_bitmaps st)[write_idx := session_bitmaps st ! i]\<rparr>
        else st)
     else (write_idx, st))"

definition compact_nodes :: "(nat \<Rightarrow> bool) \<Rightarrow> 'a session_state_scheme \<Rightarrow> 'a session_state_scheme" where
  "compact_nodes keep st =
     (let (write_idx, st) = fold (compact_step keep) [0..<session_nodes_count st] (0, st)
      in st\<lparr>session_nodes_count := write_idx\<rparr>)"

definition finish_start_admission :: "'a session_state_scheme \<Rightarrow> 'a session_state_scheme" where
  "finish_start_admission st =
     (let st = compact_nodes (\<lambda>i. node_replied st ! i \<and> session_start_accepted st ! i)
                 (st\<lparr>start_admission_in_progress := False\<rparr>)
      in if session_nodes_count st = 0
         then ota_notify_uart_no_targets (ota_reset_transfer_state 0 st)
         else say [Uart ''FW:ACK''] st)"

definition ota_start_admission_is_in_progress :: "'a session_state_scheme \<Rightarrow> bool" where
  "ota_start_admission_is_in_progress st = start_admission_in_progress st"

definition ota_start_admission_cancel :: "'a session_state_scheme \<Rightarrow> 'a session_state_scheme" where
  "ota_start_admission_cancel st =
     (if start_admission_in_progress st
      then say [StopTimer StartAdmissionTimer]
             (st\<lparr>start_admission_timer := False, start_admission_in_progress := False\<rparr>)
      else st)"

definition START_ADMISSION_TIMEOUT :: "net_env \<Rightarrow> nat" where
  "START_ADMISSION_TIMEOUT net = CLOCK_SECOND net * 8"

definition ota_start_admission_begin :: "net_env \<Rightarrow> 'a session_state_scheme \<Rightarrow> 'a session_state_scheme" where
  "ota_start_admission_begin net st =
     say [SetTimer StartAdmissionTimer (START_ADMISSION_TIMEOUT net)]
       (st\<lparr>node_replied := replicate MAX_NODES False,
          session_start_accepted := replicate MAX_NODES False,
          start_admission_in_progress := True, start_admission_timer := True\<rparr>)"

definition all_replied :: "'a session_state_scheme \<Rightarrow> bool" where
  "all_replied st \<longleftrightarrow> list_all (\<lambda>i. node_replied st ! i) [0..<session_nodes_count st]"

definition ota_coordinator_handle_start_report ::
    "start_report \<Rightarrow> ipaddr \<Rightarrow> 'a session_state_scheme \<Rightarrow> 'a session_state_scheme" where
  "ota_coordinator_handle_start_report report sender_addr st =
     (if \<not> start_admission_in_progress st then st
      else case find_session_node_by_addr sender_addr st of
        None \<Rightarrow> st
      | Some found \<Rightarrow>
          if node_replied st ! found then st
          else
            let st = st\<lparr>node_replied := (node_replied st)[found := True],
                       session_start_accepted :=
                         (session_start_accepted st)[found := sr_status report = OTA_START_STATUS_ACCEPTED]\<rparr>
            in if all_replied st
               then finish_start_admission
                      (say [StopTimer StartAdmissionTimer] (st\<lparr>start_admission_timer := False\<rparr>))
               else st)"

text \<open>The expiry of the admission timer.\<close>

definition start_admission_expired :: "'a session_state_scheme \<Rightarrow> 'a session_state_scheme" where
  "start_admission_expired st =
     (if start_admission_timer st then finish_start_admission (st\<lparr>start_admission_timer := False\<rparr>) else st)"

section \<open>The active nodes\<close>

definition active_nodes :: "'a session_state_scheme \<Rightarrow> ipaddr list" where
  "active_nodes st = take (session_nodes_count st) (session_nodes st)"

definition active_bitmaps :: "'a session_state_scheme \<Rightarrow> u8 list list" where
  "active_bitmaps st = take (session_nodes_count st) (session_bitmaps st)"

text \<open>The arrays have their declared sizes and the count stays within them.\<close>

definition session_ok :: "'a session_state_scheme \<Rightarrow> bool" where
  "session_ok st \<longleftrightarrow>
     session_nodes_count st \<le> MAX_NODES \<and> length (session_nodes st) = MAX_NODES \<and>
     length (node_replied st) = MAX_NODES \<and> length (session_start_accepted st) = MAX_NODES \<and>
     length (session_bitmaps st) = MAX_NODES \<and> list_all (\<lambda>bm. length bm = 8) (session_bitmaps st) \<and>
     length (page_buffer st) = PAGE_SIZE"

lemma say_simps [simp]:
  "session_nodes (say es st) = session_nodes st" "session_nodes_count (say es st) = session_nodes_count st"
  "node_replied (say es st) = node_replied st" "session_bitmaps (say es st) = session_bitmaps st"
  "session_start_accepted (say es st) = session_start_accepted st"
  "start_admission_in_progress (say es st) = start_admission_in_progress st"
  "start_admission_timer (say es st) = start_admission_timer st"
  "page_buffer (say es st) = page_buffer st" "effects (say es st) = effects st @ es"
  "current_file_size (say es st) = current_file_size st" "page_start_offset (say es st) = page_start_offset st"
  "page_bytes_received (say es st) = page_bytes_received st"
  "expected_page_size (say es st) = expected_page_size st"
  "distribution_in_progress (say es st) = distribution_in_progress st"
  "ota_target_slot (say es st) = ota_target_slot st" "retry_count (say es st) = retry_count st"
  by (simp_all add: say_def)

lemma session_ok_say [simp]: "session_ok (say es st) = session_ok st"
  by (simp add: session_ok_def)

lemma active_say [simp]: "active_nodes (say es st) = active_nodes st" "active_bitmaps (say es st) = active_bitmaps st"
  by (simp_all add: active_nodes_def active_bitmaps_def)

section \<open>Compaction\<close>

text \<open>After the first \<open>k\<close> rounds of the loop: the kept ones among the first \<open>k\<close> nodes are at the
  front, and nothing at or behind the write index has changed.\<close>

lemma compact_loop:
  fixes st :: "'a session_state_scheme"
  assumes "k \<le> length (session_nodes st)" "k \<le> length (session_bitmaps st)"
  shows "\<exists>ns bs. fold (compact_step keep) [0..<k] (0, st) =
       (length (filter keep [0..<k]), st\<lparr>session_nodes := ns, session_bitmaps := bs\<rparr>) \<and>
     length ns = length (session_nodes st) \<and> length bs = length (session_bitmaps st) \<and>
     take (length (filter keep [0..<k])) ns = map ((!) (session_nodes st)) (filter keep [0..<k]) \<and>
     take (length (filter keep [0..<k])) bs = map ((!) (session_bitmaps st)) (filter keep [0..<k]) \<and>
     drop (length (filter keep [0..<k])) ns = drop (length (filter keep [0..<k])) (session_nodes st) \<and>
     drop (length (filter keep [0..<k])) bs = drop (length (filter keep [0..<k])) (session_bitmaps st)"
  using assms
proof (induction k)
  case 0
  show ?case by (rule exI [of _ "session_nodes st"], rule exI [of _ "session_bitmaps st"]) simp
next
  case (Suc k)
  define w where "w = length (filter keep [0..<k])"
  have w: "w \<le> k" using length_filter_le [of keep "[0..<k]"] by (simp add: w_def)
  from Suc obtain ns bs where IH: "fold (compact_step keep) [0..<k] (0, st) =
       (w, st\<lparr>session_nodes := ns, session_bitmaps := bs\<rparr>)"
    "length ns = length (session_nodes st)" "length bs = length (session_bitmaps st)"
    "take w ns = map ((!) (session_nodes st)) (filter keep [0..<k])"
    "take w bs = map ((!) (session_bitmaps st)) (filter keep [0..<k])"
    "drop w ns = drop w (session_nodes st)" "drop w bs = drop w (session_bitmaps st)"
    unfolding w_def by (metis Suc_leD)
  have same: "ns ! k = session_nodes st ! k" "bs ! k = session_bitmaps st ! k"
    using IH(2,3,6,7) w Suc.prems nth_drop [of w ns "k - w"] nth_drop [of w "session_nodes st" "k - w"]
      nth_drop [of w bs "k - w"] nth_drop [of w "session_bitmaps st" "k - w"] by simp_all
  have drops: "drop (Suc w) ns = drop (Suc w) (session_nodes st)" "drop (Suc w) bs = drop (Suc w) (session_bitmaps st)"
    using IH(6,7) by (metis drop_drop plus_1_eq_Suc add.commute)+
  show ?case
  proof (cases "keep k")
    case False
    then have "fold (compact_step keep) [0..<Suc k] (0, st) = (w, st\<lparr>session_nodes := ns, session_bitmaps := bs\<rparr>)"
      "filter keep [0..<Suc k] = filter keep [0..<k]"
      using IH(1) by (simp_all add: compact_step_def [of keep k])
    then show ?thesis using IH by (auto simp: w_def)
  next
    case True
    have t: "take (Suc w) (xs[w := x]) = take w xs @ [x]" "drop (Suc w) (xs[w := x]) = drop (Suc w) xs"
      if "w < length xs" for xs :: "'b list" and x
      using that by (simp_all add: take_Suc_conv_app_nth)
    have l: "length (filter keep [0..<Suc k]) = Suc w" using True by (simp add: w_def)
    have "fold (compact_step keep) [0..<Suc k] (0, st) =
      (Suc w, st\<lparr>session_nodes := ns[w := ns ! k], session_bitmaps := bs[w := bs ! k]\<rparr>)"
      using True IH(1) by (auto simp: compact_step_def [of keep k])
    moreover have "w < length ns" "w < length bs" using w Suc.prems IH(2,3) by simp_all
    ultimately have "fold (compact_step keep) [0..<Suc k] (0, st) =
        (Suc w, st\<lparr>session_nodes := ns[w := ns ! k], session_bitmaps := bs[w := bs ! k]\<rparr>)"
      "take (Suc w) (ns[w := ns ! k]) = map ((!) (session_nodes st)) (filter keep [0..<Suc k])"
      "take (Suc w) (bs[w := bs ! k]) = map ((!) (session_bitmaps st)) (filter keep [0..<Suc k])"
      "drop (Suc w) (ns[w := ns ! k]) = drop (Suc w) (session_nodes st)"
      "drop (Suc w) (bs[w := bs ! k]) = drop (Suc w) (session_bitmaps st)"
      using IH True drops same by (simp_all only: t) simp_all
    then show ?thesis unfolding l using IH(2,3) by (metis length_list_update)
  qed
qed

lemma compact_nodes_result:
  assumes "session_ok st"
  shows "\<exists>ns bs. compact_nodes keep st =
       st\<lparr>session_nodes := ns, session_bitmaps := bs,
         session_nodes_count := length (filter keep [0..<session_nodes_count st])\<rparr>"
    and "active_nodes (compact_nodes keep st) =
       map ((!) (session_nodes st)) (filter keep [0..<session_nodes_count st])"
    and "active_bitmaps (compact_nodes keep st) =
       map ((!) (session_bitmaps st)) (filter keep [0..<session_nodes_count st])"
    and "session_ok (compact_nodes keep st)"
proof -
  let ?n = "session_nodes_count st"
  have n: "?n \<le> length (session_nodes st)" "?n \<le> length (session_bitmaps st)"
    using assms by (simp_all add: session_ok_def)
  from compact_loop [OF n, of keep] obtain ns bs where
    r: "fold (compact_step keep) [0..<?n] (0, st) =
       (length (filter keep [0..<?n]), st\<lparr>session_nodes := ns, session_bitmaps := bs\<rparr>)"
    "length ns = length (session_nodes st)" "length bs = length (session_bitmaps st)"
    "take (length (filter keep [0..<?n])) ns = map ((!) (session_nodes st)) (filter keep [0..<?n])"
    "take (length (filter keep [0..<?n])) bs = map ((!) (session_bitmaps st)) (filter keep [0..<?n])"
    "drop (length (filter keep [0..<?n])) bs = drop (length (filter keep [0..<?n])) (session_bitmaps st)"
    by blast
  have c: "compact_nodes keep st = st\<lparr>session_nodes := ns, session_bitmaps := bs,
         session_nodes_count := length (filter keep [0..<?n])\<rparr>"
    by (simp add: compact_nodes_def r(1))
  then show "\<exists>ns bs. compact_nodes keep st =
       st\<lparr>session_nodes := ns, session_bitmaps := bs,
         session_nodes_count := length (filter keep [0..<session_nodes_count st])\<rparr>" by blast
  show "active_nodes (compact_nodes keep st) = map ((!) (session_nodes st)) (filter keep [0..<?n])"
    "active_bitmaps (compact_nodes keep st) = map ((!) (session_bitmaps st)) (filter keep [0..<?n])"
    using r by (simp_all add: c active_nodes_def active_bitmaps_def)
  have len: "length (filter keep [0..<?n]) \<le> ?n" using length_filter_le [of keep "[0..<?n]"] by simp
  have "set (take (length (filter keep [0..<?n])) bs) \<subseteq> set (session_bitmaps st)"
    using n(2) unfolding r(5) by auto
  moreover have "set (drop (length (filter keep [0..<?n])) bs) \<subseteq> set (session_bitmaps st)"
    unfolding r(6) by (rule set_drop_subset)
  ultimately have "set bs \<subseteq> set (session_bitmaps st)"
    by (metis append_take_drop_id set_append Un_least)
  then show "session_ok (compact_nodes keep st)"
    using assms r(2,3) len by (auto simp: c session_ok_def list_all_iff)
qed

section \<open>Finding and removing nodes, complete pages\<close>

lemma active_nodes_map:
  "session_ok st \<Longrightarrow> active_nodes st = map ((!) (session_nodes st)) [0..<session_nodes_count st]"
  by (rule nth_equalityI) (simp_all add: active_nodes_def session_ok_def)

lemma length_active_nodes [simp]: "session_ok st \<Longrightarrow> length (active_nodes st) = session_nodes_count st"
  by (simp add: active_nodes_map)

lemma find_session_node_Some:
  "find_session_node_by_addr addr st = Some i \<longleftrightarrow>
     i < session_nodes_count st \<and> iid (session_nodes st ! i) = iid addr \<and>
     (\<forall>j < i. iid (session_nodes st ! j) \<noteq> iid addr)"
  by (auto simp: find_session_node_by_addr_def find_Some_iff)

lemma find_session_node_None:
  "find_session_node_by_addr addr st = None \<longleftrightarrow>
     (\<forall>i < session_nodes_count st. iid (session_nodes st ! i) \<noteq> iid addr)"
  by (auto simp: find_session_node_by_addr_def find_None_iff)

lemma page_is_complete_iff:
  "ota_page_is_complete n st \<longleftrightarrow>
     (\<forall>i < session_nodes_count st. \<forall>c < n. bitmap_bit (session_bitmaps st ! i) c)"
  by (auto simp: ota_page_is_complete_def list_all_iff)

lemma shift_loop:
  fixes st :: "'a session_state_scheme"
  assumes "index < k" "k \<le> length (session_nodes st)" "k \<le> length (node_replied st)" "k \<le> length (session_bitmaps st)"
  shows "fold (\<lambda>i st. st\<lparr>session_nodes := (session_nodes st)[i - 1 := session_nodes st ! i],
                     node_replied := (node_replied st)[i - 1 := node_replied st ! i],
                     session_bitmaps := (session_bitmaps st)[i - 1 := session_bitmaps st ! i]\<rparr>)
             [index + 1..<k] st =
      st\<lparr>session_nodes := take index (session_nodes st) @ drop (Suc index) (take k (session_nodes st)) @
            drop (k - 1) (session_nodes st),
         node_replied := take index (node_replied st) @ drop (Suc index) (take k (node_replied st)) @
            drop (k - 1) (node_replied st),
         session_bitmaps := take index (session_bitmaps st) @ drop (Suc index) (take k (session_bitmaps st)) @
            drop (k - 1) (session_bitmaps st)\<rparr>"
  using assms
proof (induction k)
  case 0
  from \<open>index < 0\<close> have False by (simp only: not_less0)
  then show ?case by (rule FalseE)
next
  case (Suc k)
  have move: "(take index xs @ drop (Suc index) (take k xs) @ drop (k - 1) xs)
        [k - 1 := (take index xs @ drop (Suc index) (take k xs) @ drop (k - 1) xs) ! k] =
      take index xs @ drop (Suc index) (take (Suc k) xs) @ drop k xs"
    if "index < k" "k < length xs" for xs :: "'b list"
  proof -
    define P where "P = take index xs @ drop (Suc index) (take k xs)"
    have k: "k = Suc (length P)" using that by (simp add: P_def)
    have d: "drop (k - 1) xs = xs ! (k - 1) # xs ! k # drop (Suc k) xs" "drop k xs = xs ! k # drop (Suc k) xs"
      using that Cons_nth_drop_Suc [of "k - 1" xs] by (simp_all add: Cons_nth_drop_Suc)
    have "(P @ drop (k - 1) xs)[k - 1 := (P @ drop (k - 1) xs) ! k] = P @ xs ! k # drop k xs"
      unfolding d unfolding k by (simp add: nth_append)
    moreover have "take index xs @ drop (Suc index) (take (Suc k) xs) = P @ [xs ! k]"
      using that by (simp add: P_def take_Suc_conv_app_nth)
    ultimately show ?thesis by (metis P_def append.assoc append_Cons append_Nil)
  qed
  show ?case
  proof (cases "index = k")
    case True
    have same: "take k xs @ drop k xs = xs" for xs :: "'b list" by simp
    show ?thesis by (simp add: True)
  next
    case False
    with Suc.prems have k: "index < k" by simp
    show ?thesis
      using Suc.IH Suc.prems k by (simp add: move [unfolded One_nat_def])
  qed
qed

text \<open>Removing a node by index deletes it from the list of active nodes.\<close>

lemma remove_session_node_active:
  assumes ok: "session_ok st" and i: "i < session_nodes_count st"
  shows "active_nodes (remove_session_node (int i) st) =
      take i (active_nodes st) @ drop (Suc i) (active_nodes st)"
    and "session_ok (remove_session_node (int i) st)"
proof -
  let ?k = "session_nodes_count st"
  have lens: "?k \<le> length (session_nodes st)" "?k \<le> length (node_replied st)" "?k \<le> length (session_bitmaps st)"
    using ok by (simp_all add: session_ok_def)
  define ns where "ns = take i (session_nodes st) @ drop (Suc i) (take ?k (session_nodes st)) @ drop (?k - 1) (session_nodes st)"
  define nr where "nr = take i (node_replied st) @ drop (Suc i) (take ?k (node_replied st)) @ drop (?k - 1) (node_replied st)"
  define bs where "bs = take i (session_bitmaps st) @ drop (Suc i) (take ?k (session_bitmaps st)) @ drop (?k - 1) (session_bitmaps st)"
  have r: "remove_session_node (int i) st =
      (let st = st\<lparr>session_nodes := ns, node_replied := nr, session_bitmaps := bs, session_nodes_count := ?k - 1\<rparr>
       in if ?k - 1 = 0 then ota_notify_uart_no_targets st else st)"
    using i unfolding remove_session_node_def nat_int shift_loop [OF i lens] ns_def [symmetric] nr_def [symmetric] bs_def [symmetric]
    by (simp add: Let_def)
  have "take (?k - 1) ns = take i (active_nodes st) @ drop (Suc i) (active_nodes st)"
    using i lens by (simp add: ns_def active_nodes_def)
  then show "active_nodes (remove_session_node (int i) st) = take i (active_nodes st) @ drop (Suc i) (active_nodes st)"
    using i by (simp add: r ota_notify_uart_no_targets_def Let_def) (auto simp: active_nodes_def)
  have "length ns = MAX_NODES" "length nr = MAX_NODES" "length bs = MAX_NODES"
    using i ok by (simp_all add: ns_def nr_def bs_def session_ok_def)
  moreover have "set bs \<subseteq> set (session_bitmaps st)"
    unfolding bs_def by (auto dest: in_set_takeD in_set_dropD)
  moreover have "?k - 1 \<le> MAX_NODES" using ok unfolding session_ok_def by linarith
  ultimately show "session_ok (remove_session_node (int i) st)"
    using ok by (auto simp: r session_ok_def ota_notify_uart_no_targets_def Let_def list_all_iff)
qed

text \<open>Targets are named consistently: parsing the printed name of a target gives the target back, the
  name of anything else parses as invalid, and parsing never yields a value other than slot A, slot
  B, the offchip target or invalid.\<close>

theorem target_names:
  "ota_parse_target s \<in> {OTA_SLOT_A, OTA_SLOT_B, OTA_TARGET_OFFCHIP, OTA_TARGET_INVALID} \<and>
   ota_parse_target (Some (ota_target_name t)) =
     (if t \<in> {OTA_SLOT_A, OTA_SLOT_B, OTA_TARGET_OFFCHIP} then t else OTA_TARGET_INVALID)"
proof
  have le: "p \<le> 1 \<Longrightarrow> p = 0 \<or> p = 1" for p :: u32
    by (metis linorder_not_le order_antisym word_less_1)
  show "ota_parse_target s \<in> {OTA_SLOT_A, OTA_SLOT_B, OTA_TARGET_OFFCHIP, OTA_TARGET_INVALID}"
    by (auto simp: ota_parse_target_def OTA_SLOT_A_def OTA_SLOT_B_def split: option.splits prod.splits dest: le)
  have "strtoul ''invalid'' = (0, False, None)"
    by (simp add: strtoul_def isspace_def is_digit_def digit_value_def unsigned_long_def)
  then show "ota_parse_target (Some (ota_target_name t)) =
     (if t \<in> {OTA_SLOT_A, OTA_SLOT_B, OTA_TARGET_OFFCHIP} then t else OTA_TARGET_INVALID)"
    by (simp add: ota_parse_target_def ota_target_name_def)
qed

text \<open>A page counts as complete exactly when every active node has reported every chunk of it; in
  particular when no node is active.\<close>

theorem page_complete_exact:
  "ota_page_is_complete total_chunks st \<longleftrightarrow>
     (\<forall>i < session_nodes_count st. \<forall>c < total_chunks. bitmap_bit (session_bitmaps st ! i) c)"
  by (rule page_is_complete_iff)

text \<open>Removing a session node deletes exactly that node and keeps the order of the others and the
  invariant of the arrays.\<close>

theorem remove_session_node_deletes:
  assumes "session_ok st" "i < session_nodes_count st"
  shows "active_nodes (remove_session_node (int i) st) =
      take i (active_nodes st) @ drop (Suc i) (active_nodes st) \<and>
    session_ok (remove_session_node (int i) st)"
  using remove_session_node_active [OF assms] by blast

section \<open>START admission\<close>

text \<open>The specification: a node is admitted when the first report it sent in the window, recognised by
  the interface identifier of the sender, accepts.\<close>

definition first_report :: "(start_report \<times> ipaddr) list \<Rightarrow> ipaddr \<Rightarrow> start_report option" where
  "first_report rs ip = map_option fst (List.find (\<lambda>(r, a). iid a = iid ip) rs)"

definition admits :: "(start_report \<times> ipaddr) list \<Rightarrow> ipaddr \<Rightarrow> bool" where
  "admits rs ip \<longleftrightarrow>
     (case first_report rs ip of Some r \<Rightarrow> sr_status r = OTA_START_STATUS_ACCEPTED | None \<Rightarrow> False)"

lemma first_report_append:
  "first_report (rs @ rs') ip = (case first_report rs ip of Some r \<Rightarrow> Some r | None \<Rightarrow> first_report rs' ip)"
  by (induction rs) (auto simp: first_report_def split: option.splits)

lemma first_report_snoc:
  "first_report (rs @ [(r, a)]) ip =
     (case first_report rs ip of Some r' \<Rightarrow> Some r' | None \<Rightarrow> if iid a = iid ip then Some r else None)"
  by (induction rs) (auto simp: first_report_def split: option.splits)

text \<open>While the window is open, with the reports \<open>rs\<close> received so far.\<close>

definition admission_open ::
    "'a session_state_scheme \<Rightarrow> (start_report \<times> ipaddr) list \<Rightarrow> 'a session_state_scheme \<Rightarrow> bool" where
  "admission_open st0 rs st \<longleftrightarrow>
     session_ok st \<and> start_admission_in_progress st \<and> start_admission_timer st \<and>
     active_nodes st = active_nodes st0 \<and> session_nodes_count st = session_nodes_count st0 \<and>
     (\<forall>i < session_nodes_count st.
        (node_replied st ! i \<longleftrightarrow> first_report rs (session_nodes st ! i) \<noteq> None) \<and>
        (session_start_accepted st ! i \<longleftrightarrow> admits rs (session_nodes st ! i)))"

definition admission_closed ::
    "'a session_state_scheme \<Rightarrow> (start_report \<times> ipaddr) list \<Rightarrow> 'a session_state_scheme \<Rightarrow> bool" where
  "admission_closed st0 rs st \<longleftrightarrow>
     session_ok st \<and> \<not> start_admission_in_progress st \<and> \<not> start_admission_timer st \<and>
     active_nodes st = filter (admits rs) (active_nodes st0) \<and>
     (if active_nodes st = []
      then last (effects st) = Uart ''FW:NO_TARGETS'' \<and> expected_page_size st = 0
      else last (effects st) = Uart ''FW:ACK'')"

lemma finish_start_admission_closes:
  assumes ok: "session_ok st" and n: "active_nodes st = active_nodes st0" and t: "\<not> start_admission_timer st"
    and s: "\<And>i. i < session_nodes_count st \<Longrightarrow>
      node_replied st ! i \<and> session_start_accepted st ! i \<longleftrightarrow> admits rs (session_nodes st ! i)"
  shows "admission_closed st0 rs (finish_start_admission st)"
proof -
  let ?s = "st\<lparr>start_admission_in_progress := False\<rparr>"
  let ?k = "\<lambda>i. node_replied st ! i \<and> session_start_accepted st ! i"
  have ok': "session_ok ?s" using ok by (simp add: session_ok_def)
  from compact_nodes_result(1) [OF ok', of ?k] obtain ns bs where
    c: "compact_nodes ?k ?s = ?s\<lparr>session_nodes := ns, session_bitmaps := bs,
         session_nodes_count := length (filter ?k [0..<session_nodes_count st])\<rparr>" by auto
  have "active_nodes (compact_nodes ?k ?s) = map ((!) (session_nodes st)) (filter ?k [0..<session_nodes_count st])"
    using compact_nodes_result(2) [OF ok', of ?k] by simp
  also have "\<dots> = filter (admits rs) (active_nodes st)"
    unfolding active_nodes_map [OF ok] filter_map comp_def by (rule arg_cong [OF filter_cong]) (auto simp: s)
  finally have a: "active_nodes (compact_nodes ?k ?s) = filter (admits rs) (active_nodes st0)" by (simp add: n)
  have f: "finish_start_admission st =
      (let st = compact_nodes ?k ?s
       in if session_nodes_count st = 0 then ota_notify_uart_no_targets (ota_reset_transfer_state 0 st)
          else say [Uart ''FW:ACK''] st)"
    by (simp add: finish_start_admission_def)
  have "session_nodes_count (compact_nodes ?k ?s) = 0 \<longleftrightarrow> active_nodes (compact_nodes ?k ?s) = []"
    using compact_nodes_result(4) [OF ok', of ?k] by (metis length_0_conv length_active_nodes)
  moreover have "active_nodes (ota_reset_transfer_state 0 s) = active_nodes s"
    "session_ok (ota_reset_transfer_state 0 s) = session_ok s" for s :: "'a session_state_scheme"
    by (simp_all add: ota_reset_transfer_state_def active_nodes_def session_ok_def)
  ultimately show ?thesis
    using compact_nodes_result(4) [OF ok', of ?k] a t
    by (auto simp: f Let_def admission_closed_def ota_notify_uart_no_targets_def c)
      (auto simp: ota_reset_transfer_state_def)
qed

lemma admission_step:
  assumes o: "admission_open st0 rs st" and d: "distinct (map iid (active_nodes st0))"
  shows "admission_open st0 (rs @ [(r, a)]) (ota_coordinator_handle_start_report r a st) \<or>
      (admission_closed st0 (rs @ [(r, a)]) (ota_coordinator_handle_start_report r a st) \<and>
       (\<forall>ip \<in> set (active_nodes st0). first_report (rs @ [(r, a)]) ip \<noteq> None))"
proof -
  let ?n = "session_nodes_count st"
  have ok: "session_ok st" and p: "start_admission_in_progress st" "start_admission_timer st"
    and an: "active_nodes st = active_nodes st0" and cn: "?n = session_nodes_count st0"
    and nr: "\<And>i. i < ?n \<Longrightarrow> node_replied st ! i \<longleftrightarrow> first_report rs (session_nodes st ! i) \<noteq> None"
    and sa: "\<And>i. i < ?n \<Longrightarrow> session_start_accepted st ! i \<longleftrightarrow> admits rs (session_nodes st ! i)"
    using o by (auto simp: admission_open_def)
  have unchanged: "admission_open st0 (rs @ [(r, a)]) st"
    if new: "\<And>i. i < ?n \<Longrightarrow> iid a = iid (session_nodes st ! i) \<Longrightarrow> first_report rs (session_nodes st ! i) \<noteq> None"
  proof -
    have "first_report (rs @ [(r, a)]) (session_nodes st ! i) = first_report rs (session_nodes st ! i)"
      if "i < ?n" for i
      using that new [of i] by (cases "first_report rs (session_nodes st ! i)") (auto simp: first_report_snoc)
    then show ?thesis using o by (simp add: admission_open_def admits_def)
  qed
  show ?thesis
  proof (cases "find_session_node_by_addr a st")
    case None
    then have "\<And>i. i < ?n \<Longrightarrow> iid a \<noteq> iid (session_nodes st ! i)"
      by (auto simp: find_session_node_None)
    with unchanged None p show ?thesis by (auto simp: ota_coordinator_handle_start_report_def)
  next
    case (Some f)
    then have f: "f < ?n" "iid (session_nodes st ! f) = iid a" by (simp_all add: find_session_node_Some)
    have only: "i = f" if "i < ?n" "iid a = iid (session_nodes st ! i)" for i
    proof -
      have l: "length (map iid (active_nodes st)) = ?n" by (simp add: length_active_nodes [OF ok])
      have "map iid (active_nodes st) ! j = iid (session_nodes st ! j)" if "j < ?n" for j
        using that by (simp add: active_nodes_map [OF ok])
      then have "map iid (active_nodes st) ! i = map iid (active_nodes st) ! f" using that f by simp
      moreover have "distinct (map iid (active_nodes st))" unfolding an by (rule d)
      ultimately show ?thesis
        using nth_eq_iff_index_eq [of "map iid (active_nodes st)" i f] that(1) f(1) unfolding l by blast
    qed
    show ?thesis
    proof (cases "node_replied st ! f")
      case True
      then have "first_report rs (session_nodes st ! i) \<noteq> None"
        if "i < ?n" "iid a = iid (session_nodes st ! i)" for i
        using only [OF that] nr f(1) by simp
      with unchanged True Some p show ?thesis by (auto simp: ota_coordinator_handle_start_report_def)
    next
      case False
      define s1 where "s1 = st\<lparr>node_replied := (node_replied st)[f := True],
          session_start_accepted := (session_start_accepted st)[f := sr_status r = OTA_START_STATUS_ACCEPTED]\<rparr>"
      have len: "f < length (node_replied st)" "f < length (session_start_accepted st)"
        using ok f(1) by (simp_all add: session_ok_def)
      have none: "first_report rs (session_nodes st ! f) = None" using nr [OF f(1)] False by simp
      have nr1: "node_replied s1 ! i \<longleftrightarrow> first_report (rs @ [(r, a)]) (session_nodes st ! i) \<noteq> None"
        and sa1: "session_start_accepted s1 ! i \<longleftrightarrow> admits (rs @ [(r, a)]) (session_nodes st ! i)"
        if "i < ?n" for i
      proof -
        have "first_report (rs @ [(r, a)]) (session_nodes st ! i) =
            (if i = f then Some r else first_report rs (session_nodes st ! i))"
        proof (cases "i = f")
          case True
          then show ?thesis by (simp add: first_report_snoc none f(2))
        next
          case False
          then have "iid a \<noteq> iid (session_nodes st ! i)" using only [OF that] by blast
          then show ?thesis using False by (simp add: first_report_snoc split: option.splits)
        qed
        then show "node_replied s1 ! i \<longleftrightarrow> first_report (rs @ [(r, a)]) (session_nodes st ! i) \<noteq> None"
          "session_start_accepted s1 ! i \<longleftrightarrow> admits (rs @ [(r, a)]) (session_nodes st ! i)"
          using nr [OF that] sa [OF that] len by (simp_all add: s1_def admits_def nth_list_update)
      qed
      have ok1: "session_ok s1" using ok by (simp add: s1_def session_ok_def)
      have s1: "session_nodes s1 = session_nodes st" "session_nodes_count s1 = ?n" "active_nodes s1 = active_nodes st0"
        "start_admission_in_progress s1" "start_admission_timer s1"
        using p by (simp_all add: s1_def active_nodes_def an [unfolded active_nodes_def])
      have step: "ota_coordinator_handle_start_report r a st =
          (if all_replied s1
           then finish_start_admission (say [StopTimer StartAdmissionTimer] (s1\<lparr>start_admission_timer := False\<rparr>))
           else s1)"
        using Some False p by (simp add: ota_coordinator_handle_start_report_def s1_def Let_def)
      show ?thesis
      proof (cases "all_replied s1")
        case False
        then show ?thesis using ok1 s1 nr1 sa1 cn by (simp add: step admission_open_def)
      next
        case True
        let ?s = "say [StopTimer StartAdmissionTimer] (s1\<lparr>start_admission_timer := False\<rparr>)"
        have all: "\<And>i. i < ?n \<Longrightarrow> node_replied s1 ! i"
          using True by (simp add: all_replied_def list_all_iff s1)
        have "admission_closed st0 (rs @ [(r, a)]) (finish_start_admission ?s)"
          using ok1 s1 sa1 all
          by (intro finish_start_admission_closes) (simp_all add: session_ok_def active_nodes_def)
        moreover have "first_report (rs @ [(r, a)]) ip \<noteq> None" if "ip \<in> set (active_nodes st0)" for ip
          using that nr1 all unfolding an [symmetric] active_nodes_map [OF ok] by auto
        ultimately show ?thesis using True by (simp add: step)
      qed
    qed
  qed
qed

abbreviation (input) receive_start_reports where
  "receive_start_reports \<equiv> fold (\<lambda>(r, a). ota_coordinator_handle_start_report r a)"

lemma admission_run:
  assumes o: "admission_open st0 rs st" and d: "distinct (map iid (active_nodes st0))"
  shows "admission_open st0 (rs @ rs') (receive_start_reports rs' st) \<or>
      admission_closed st0 (rs @ rs') (receive_start_reports rs' st)"
  using o
proof (induction rs' arbitrary: rs st)
  case Nil
  then show ?case by simp
next
  case (Cons ra rs')
  obtain r a where ra: "ra = (r, a)" by (cases ra)
  let ?s = "ota_coordinator_handle_start_report r a st"
  have app: "(rs @ [ra]) @ rs' = rs @ ra # rs'" by simp
  consider "admission_open st0 (rs @ [ra]) ?s"
    | "admission_closed st0 (rs @ [ra]) ?s"
      "\<forall>ip \<in> set (active_nodes st0). first_report (rs @ [ra]) ip \<noteq> None"
    using admission_step [OF Cons.prems d, of r a] unfolding ra by blast
  then show ?case
  proof cases
    case 1
    from Cons.IH [OF this] show ?thesis unfolding app by (simp add: ra)
  next
    case 2
    have idle: "receive_start_reports rs' s = s" if "\<not> start_admission_in_progress s" for s :: "'a session_state_scheme"
      using that by (induction rs') (auto simp: ota_coordinator_handle_start_report_def)
    have "first_report ((rs @ [ra]) @ xs) ip = first_report (rs @ [ra]) ip"
      if mem: "ip \<in> set (active_nodes st0)" for ip xs
    proof -
      obtain r' where "first_report (rs @ [ra]) ip = Some r'"
        using bspec [OF 2(2) mem] by (cases "first_report (rs @ [ra]) ip") simp_all
      then show ?thesis by (simp only: first_report_append [of "rs @ [ra]" xs] option.case)
    qed
    then have "filter (admits ((rs @ [ra]) @ rs')) (active_nodes st0) = filter (admits (rs @ [ra])) (active_nodes st0)"
      by (intro filter_cong refl) (simp only: admits_def)
    then have "admission_closed st0 ((rs @ [ra]) @ rs') ?s" using 2(1) by (simp add: admission_closed_def)
    moreover have "receive_start_reports (ra # rs') st = ?s"
      using idle [of ?s] 2(1) by (simp add: ra admission_closed_def)
    ultimately show ?thesis unfolding app by simp
  qed
qed

lemma admission_begins:
  assumes "session_ok st"
  shows "admission_open st [] (ota_start_admission_begin net st)"
  using assms
  by (simp add: admission_open_def ota_start_admission_begin_def session_ok_def active_nodes_def first_report_def
      admits_def)

lemma admission_expires:
  assumes "admission_open st0 rs st \<or> admission_closed st0 rs st"
  shows "admission_closed st0 rs (start_admission_expired st)"
  using assms
proof
  assume o: "admission_open st0 rs st"
  then have "admission_closed st0 rs (finish_start_admission (st\<lparr>start_admission_timer := False\<rparr>))"
    by (intro finish_start_admission_closes)
      (auto simp: admission_open_def session_ok_def active_nodes_def admits_def split: option.splits)
  with o show ?thesis by (simp add: start_admission_expired_def admission_open_def)
qed (simp add: start_admission_expired_def admission_closed_def)

text \<open>C14. The admission window decides exactly by first answers. Open the window for the session's nodes,
  receive any START reports from anybody in any order, and let the timer expire (it fires only if it
  is still armed, that is, if not all nodes answered before). The session then continues with
  precisely the nodes whose first report accepted, in their order; silent and rejecting nodes are
  dropped, later reports of a node and reports of strangers change nothing. The UART hears
  \<open>FW:ACK\<close> if a node is left, and otherwise \<open>FW:NO_TARGETS\<close>, and no page is
  expected any more. No two nodes of the session share an interface identifier.\<close>

theorem start_admission_result:
  assumes "session_ok st" "distinct (map iid (active_nodes st))"
    and "st' = start_admission_expired (receive_start_reports rs (ota_start_admission_begin net st))"
  shows "active_nodes st' = filter (admits rs) (active_nodes st) \<and>
    session_ok st' \<and> \<not> start_admission_in_progress st' \<and> \<not> start_admission_timer st' \<and>
    (if active_nodes st' = []
     then last (effects st') = Uart ''FW:NO_TARGETS'' \<and> expected_page_size st' = 0
     else last (effects st') = Uart ''FW:ACK'')"
  using admission_expires [OF admission_run [OF admission_begins [OF assms(1), of net] assms(2), of rs]]
  by (simp add: assms(3) admission_closed_def)

definition sample_ip :: "u8 \<Rightarrow> ipaddr" where
  "sample_ip n = [0xfd, 0, 0, 0, 0, 0, 0, 0, 0, 0, 0, 0, 0, 0, 0, n]"

text \<open>A coordinator with two routed nodes behind the same next hop and an idle radio.\<close>

definition sample_routes :: net_env where
  "sample_routes =
     \<lparr>node_id = 1, root_ipaddr = None, defrt_choose = None,
      routes = [(sample_ip 2, Some (sample_ip 2)), (sample_ip 3, Some (sample_ip 2))], tsch_is_associated = True,
      nbr_lladdr = (\<lambda>_. None), queue_get_nbr = (\<lambda>_. None), queue_global_count = 0, random_rand = 7,
      CLOCK_SECOND = 128\<rparr>"

definition sample_session :: session_state where
  "sample_session =
     \<lparr>current_file_size = 5, page_buffer = replicate PAGE_SIZE 0, page_start_offset = 0, page_bytes_received = 0,
      expected_page_size = 5, distribution_in_progress = False, ota_target_slot = 1,
      session_nodes = sample_ip 2 # sample_ip 3 # sample_ip 4 # replicate 13 (replicate 16 0),
      session_nodes_count = 3, node_replied = replicate MAX_NODES False,
      session_bitmaps = replicate MAX_NODES (replicate 8 0), retry_count = 0,
      start_admission_in_progress = False, session_start_accepted = replicate MAX_NODES False,
      start_admission_timer = False, effects = []\<rparr>"

definition sample_report :: "u8 \<Rightarrow> start_report" where
  "sample_report status =
     \<lparr>sr_type = PKT_TYPE_START_REPORT, sr_status = status, sr_image_sec_ver = 2, sr_running_sec_ver = 1,
      sr_target_slot = 1\<rparr>"

lemma sample_session_ok: "session_ok sample_session" "active_nodes sample_session = [sample_ip 2, sample_ip 3, sample_ip 4]"
  by (simp_all add: session_ok_def sample_session_def MAX_NODES_def active_nodes_def list_all_iff)

theorem start_admission_result_witness:
  "active_nodes (start_admission_expired (receive_start_reports
       [(sample_report 0, sample_ip 3), (sample_report 1, sample_ip 2), (sample_report 0, sample_ip 2)]
       (ota_start_admission_begin sample_routes sample_session))) = [sample_ip 3]"
proof -
  let ?rs = "[(sample_report 0, sample_ip 3), (sample_report 1, sample_ip 2), (sample_report 0, sample_ip 2)]"
  have "distinct (map iid (active_nodes sample_session))"
    by (simp add: sample_session_ok iid_def sample_ip_def)
  from start_admission_result [OF sample_session_ok(1) this refl, of ?rs sample_routes]
  show ?thesis
    by (simp add: sample_session_ok admits_def first_report_def sample_report_def iid_def sample_ip_def start_status_defs)
qed

theorem remove_session_node_deletes_witness:
  "active_nodes (remove_session_node 1 sample_session) = [sample_ip 2, sample_ip 4]"
proof -
  have "1 < session_nodes_count sample_session" by (simp add: sample_session_def)
  from remove_session_node_deletes [OF sample_session_ok(1) this] show ?thesis
    by (simp add: sample_session_ok(2) eval_nat_numeral)
qed

theorem page_complete_exact_witness:
  "ota_page_is_complete 3 (sample_session\<lparr>session_bitmaps := replicate MAX_NODES (7 # replicate 7 0)\<rparr>) \<and>
   \<not> ota_page_is_complete 4 (sample_session\<lparr>session_bitmaps := replicate MAX_NODES (7 # replicate 7 0)\<rparr>)"
proof -
  let ?st = "sample_session\<lparr>session_bitmaps := replicate MAX_NODES (7 # replicate 7 0)\<rparr>"
  have n: "session_nodes_count ?st = 3" and b: "i < 3 \<Longrightarrow> session_bitmaps ?st ! i = 7 # replicate 7 0" for i
    by (simp_all add: sample_session_def MAX_NODES_def)
  have "c < 3 \<Longrightarrow> bitmap_bit (7 # replicate 7 0) c" for c
    by (auto simp: bitmap_bit_def numeral_3_eq_3 less_Suc_eq)
  then have "ota_page_is_complete 3 ?st" by (simp only: page_complete_exact n b) (simp add: MAX_NODES_def)
  moreover have "\<not> ota_page_is_complete 4 ?st"
  proof
    assume "ota_page_is_complete 4 ?st"
    then have "bitmap_bit (session_bitmaps ?st ! 0) 3" unfolding page_complete_exact n by simp
    then show False by (simp add: MAX_NODES_def bitmap_bit_def)
  qed
  ultimately show ?thesis by blast
qed

end
