(* ===== verification/Coordinator.thy ===== *)
theory Coordinator
  imports Coordinator_Session
begin

text \<open>
  The coordinator, \<open>ota-coordinator.c\<close>, and the coordinator side of \<open>udp_rx_callback\<close>
  (\<open>handle_coordinator_report\<close> of \<open>ota-sensor.c\<close>). The process thread \<open>distribute_process\<close> is a
  state machine: \<open>pc\<close> says at which of its blocking points it waits (\<open>Idle\<close>: it does not run), its
  static variables are fields, and each function below runs the code from one blocking point to
  the next. The 16-bit and 8-bit loop counters \<open>dist_chunk_idx\<close>, \<open>total_chunks\<close> and
  \<open>recovery_round\<close>, which stay small (\<open>coord_ok\<close>), are natural numbers. A copy that would leave its
  buffers has undefined behaviour in C: \<open>pc\<close> becomes \<open>Undefined\<close> and nothing follows.
  \<open>crc\<close> is the operating system's \<open>crc16_data\<close>.
\<close>

datatype dist_pc =
    Idle
  | QueueFirst      \<comment> \<open>first pass, waiting for the queue to drain\<close>
  | PaceFirst       \<comment> \<open>first pass, pacing after a chunk\<close>
  | QueueEnd        \<comment> \<open>before the PAGE_END of a recovery round\<close>
  | WaitReports     \<comment> \<open>waiting for bitmap reports\<close>
  | QueueResend     \<comment> \<open>before repeating the PAGE_END\<close>
  | QueueRecover    \<comment> \<open>retransmission pass, waiting for the queue to drain\<close>
  | PaceRecover     \<comment> \<open>retransmission pass, pacing after a chunk\<close>
  | Undefined

record coord_state = session_state +
  pc :: dist_pc
  dist_chunk_idx :: nat
  total_chunks :: nat
  end_pkt :: fw_packet
  recovery_round :: nat
  page_crc :: u16
  shell_running :: bool

definition OTA_DISTRIBUTION_INTERVAL_MS :: nat where "OTA_DISTRIBUTION_INTERVAL_MS = 400"
definition OTA_RECOVERY_INTERVAL_MS :: nat where "OTA_RECOVERY_INTERVAL_MS = 600"
definition OTA_PAGE_REPORT_TIMEOUT_SECONDS :: nat where "OTA_PAGE_REPORT_TIMEOUT_SECONDS = 20"
definition OTA_MAX_PAGE_RECOVERY_ROUNDS :: nat where "OTA_MAX_PAGE_RECOVERY_ROUNDS = 10"
definition OTA_QUEUE_DRAIN_CHECK_MS :: nat where "OTA_QUEUE_DRAIN_CHECK_MS = 100"

definition ms_to_ticks :: "net_env \<Rightarrow> nat \<Rightarrow> nat" where
  "ms_to_ticks net ms =
     (let ticks = CLOCK_SECOND net * ms div 1000 in if ticks = 0 then 1 else ticks)"

section \<open>The distribution process\<close>

text \<open>One round of \<open>WAIT_FOR_DOWNSTREAM_QUEUE\<close> with a full queue: check again later.\<close>

definition wait_queue :: "net_env \<Rightarrow> dist_pc \<Rightarrow> coord_state \<Rightarrow> coord_state" where
  "wait_queue net k st =
     say [SetTimer DistTimer (ms_to_ticks net OTA_QUEUE_DRAIN_CHECK_MS)] (st\<lparr>pc := k\<rparr>)"

text \<open>Building and sending the DATA packet of the current chunk. Of the 64 data bytes only the copied
  ones are sent.\<close>

definition chunk_abs_offset :: "coord_state \<Rightarrow> u32" where
  "chunk_abs_offset st = page_start_offset st + of_nat (dist_chunk_idx st * 64)"

definition chunk_len :: "coord_state \<Rightarrow> u16" where
  "chunk_len st =
     (if chunk_abs_offset st + 64 > page_start_offset st + ucast (expected_page_size st)
      then ucast (page_start_offset st + ucast (expected_page_size st) - chunk_abs_offset st)
      else 64)"

definition chunk_packet :: "coord_state \<Rightarrow> fw_packet" where
  "chunk_packet st =
     \<lparr>pk_type = PKT_TYPE_DATA, pk_offset = chunk_abs_offset st,
      pk_length = chunk_len st, pk_target_slot = ota_target_slot st,
      pk_data = (\<lambda>i. if i < unat (chunk_len st) then page_buffer st ! (dist_chunk_idx st * 64 + i) else 0)\<rparr>"

definition send_packet :: "net_env \<Rightarrow> fw_packet \<Rightarrow> nat \<Rightarrow> effect list" where
  "send_packet net pkt n = send_to_all net (take n (fw_packet_bytes pkt))"

definition send_chunk :: "net_env \<Rightarrow> coord_state \<Rightarrow> coord_state" where
  "send_chunk net st =
     (if unat (chunk_len st) > 64 \<or> dist_chunk_idx st * 64 + unat (chunk_len st) > PAGE_SIZE
      then st\<lparr>pc := Undefined\<rparr>
      else say (send_packet net (chunk_packet st) (FW_PACKET_HEADER_LEN + unat (chunk_len st))) st)"

text \<open>Sending a chunk and waiting for the pacing timer.\<close>

definition send_paced :: "net_env \<Rightarrow> nat \<Rightarrow> dist_pc \<Rightarrow> coord_state \<Rightarrow> coord_state" where
  "send_paced net ms k st =
     (let st = send_chunk net st
      in if pc st = Undefined then st else say [SetTimer DistTimer (ms_to_ticks net ms)] (st\<lparr>pc := k\<rparr>))"

text \<open>The end of the process: on to the next page.\<close>

definition finish_page :: "coord_state \<Rightarrow> coord_state" where
  "finish_page st =
     (let page_start = page_start_offset st + ucast (expected_page_size st)
      in say [Uart ''FW:PAGE_OK'']
           (st\<lparr>page_start_offset := page_start, page_bytes_received := 0,
              expected_page_size :=
                (if page_start < current_file_size st
                 then if current_file_size st - page_start > of_nat PAGE_SIZE then of_nat PAGE_SIZE
                      else ucast (current_file_size st - page_start)
                 else 0),
              distribution_in_progress := False, pc := Idle\<rparr>))"

definition send_page_end :: "net_env \<Rightarrow> coord_state \<Rightarrow> coord_state" where
  "send_page_end net st =
     say (send_packet net (end_pkt st) FW_PACKET_HEADER_LEN @
          [SetTimer DistTimer (CLOCK_SECOND net * OTA_PAGE_REPORT_TIMEOUT_SECONDS)])
       (st\<lparr>pc := WaitReports\<rparr>)"

text \<open>The head of the recovery loop: done, or one more round, which begins with a PAGE_END.\<close>

definition recovery_head :: "net_env \<Rightarrow> coord_state \<Rightarrow> coord_state" where
  "recovery_head net st =
     (if session_nodes_count st = 0 \<or> ota_page_is_complete (total_chunks st) st \<or>
         recovery_round st \<ge> OTA_MAX_PAGE_RECOVERY_ROUNDS
      then finish_page st
      else
        let st = st\<lparr>recovery_round := recovery_round st + 1, node_replied := replicate MAX_NODES False,
                   retry_count := 0,
                   end_pkt := (end_pkt st)\<lparr>pk_type := PKT_TYPE_PAGE_END, pk_offset := page_start_offset st,
                                pk_length := page_crc st, pk_target_slot := ota_target_slot st\<rparr>\<rparr>
        in if ota_downstream_queue_ready net then send_page_end net st else wait_queue net QueueEnd st)"

text \<open>The first pass, from the queue check of the current chunk and from the head of its loop.\<close>

definition first_pass_chunk :: "net_env \<Rightarrow> coord_state \<Rightarrow> coord_state" where
  "first_pass_chunk net st =
     (if ota_downstream_queue_ready net then send_paced net OTA_DISTRIBUTION_INTERVAL_MS PaceFirst st
      else wait_queue net QueueFirst st)"

definition first_pass :: "net_env \<Rightarrow> coord_state \<Rightarrow> coord_state" where
  "first_pass net st =
     (if dist_chunk_idx st < total_chunks st then first_pass_chunk net st
      else recovery_head net (st\<lparr>recovery_round := 0\<rparr>))"

text \<open>The retransmission pass: chunks no active node misses are skipped.\<close>

definition missed_count :: "nat \<Rightarrow> coord_state \<Rightarrow> nat" where
  "missed_count chunk_idx st =
     length (filter (\<lambda>i. \<not> bitmap_bit (session_bitmaps st ! i) chunk_idx) [0..<session_nodes_count st])"

function recover_pass :: "net_env \<Rightarrow> coord_state \<Rightarrow> coord_state" where
  "recover_pass net st =
     (if dist_chunk_idx st < total_chunks st then
        if \<not> ota_downstream_queue_ready net then wait_queue net QueueRecover st
        else if missed_count (dist_chunk_idx st) st > 0
        then send_paced net OTA_RECOVERY_INTERVAL_MS PaceRecover st
        else recover_pass net (st\<lparr>dist_chunk_idx := dist_chunk_idx st + 1\<rparr>)
      else recovery_head net st)"
  by auto
termination by (relation "measure (\<lambda>(net, st). total_chunks st - dist_chunk_idx st)") auto

declare recover_pass.simps [simp del]

definition after_wait :: "net_env \<Rightarrow> coord_state \<Rightarrow> coord_state" where
  "after_wait net st =
     (if ota_page_is_complete (total_chunks st) st then finish_page st
      else recover_pass net (st\<lparr>dist_chunk_idx := 0\<rparr>))"

definition resend_page_end :: "net_env \<Rightarrow> coord_state \<Rightarrow> coord_state" where
  "resend_page_end net st =
     (if ota_downstream_queue_ready net then send_page_end net st else wait_queue net QueueResend st)"

text \<open>A report timeout. The third one drops the silent nodes if any node has answered.\<close>

definition report_timeout :: "net_env \<Rightarrow> coord_state \<Rightarrow> coord_state" where
  "report_timeout net st =
     (let st = st\<lparr>retry_count := retry_count st + 1\<rparr>
      in if retry_count st \<ge> 3 then
           if list_ex (\<lambda>i. node_replied st ! i) [0..<session_nodes_count st]
           then after_wait net (compact_nodes (\<lambda>i. node_replied st ! i) st)
           else resend_page_end net (st\<lparr>retry_count := 0\<rparr>)
         else resend_page_end net st)"

definition reports_posted :: "net_env \<Rightarrow> coord_state \<Rightarrow> coord_state" where
  "reports_posted net st = (if all_replied st then after_wait net st else st)"

definition distribute_start :: "(u8 list \<Rightarrow> u16 \<Rightarrow> u16) \<Rightarrow> net_env \<Rightarrow> coord_state \<Rightarrow> coord_state" where
  "distribute_start crc net st =
     (let st = st\<lparr>total_chunks := (unat (expected_page_size st) + 63) div 64,
                page_crc := crc (take (unat (expected_page_size st)) (page_buffer st)) 0,
                session_bitmaps := replicate MAX_NODES (replicate 8 0)\<rparr>
      in if session_nodes_count st = 0
         then ota_notify_uart_no_targets (st\<lparr>distribution_in_progress := False\<rparr>)
         else first_pass net (st\<lparr>dist_chunk_idx := 0\<rparr>))"

text \<open>The events the process can be resumed with: its timer, the posted event, anything else.\<close>

datatype proc_event = TimerEvent | BitmapEvent | OtherEvent

definition distribute_resume :: "net_env \<Rightarrow> proc_event \<Rightarrow> coord_state \<Rightarrow> coord_state" where
  "distribute_resume net ev st =
     (case (pc st, ev) of
        (QueueFirst, TimerEvent) \<Rightarrow> first_pass_chunk net st
      | (PaceFirst, TimerEvent) \<Rightarrow> first_pass net (st\<lparr>dist_chunk_idx := dist_chunk_idx st + 1\<rparr>)
      | (QueueEnd, TimerEvent) \<Rightarrow>
          if ota_downstream_queue_ready net then send_page_end net st else wait_queue net QueueEnd st
      | (WaitReports, TimerEvent) \<Rightarrow> report_timeout net st
      | (WaitReports, BitmapEvent) \<Rightarrow> reports_posted net st
      | (QueueResend, TimerEvent) \<Rightarrow> resend_page_end net st
      | (QueueRecover, TimerEvent) \<Rightarrow> recover_pass net st
      | (PaceRecover, TimerEvent) \<Rightarrow> recover_pass net (st\<lparr>dist_chunk_idx := dist_chunk_idx st + 1\<rparr>)
      | _ \<Rightarrow> st)"

text \<open>\<open>process_start\<close> runs the process up to its first blocking point, and does nothing when it is
  running already.\<close>

definition start_distribute :: "(u8 list \<Rightarrow> u16 \<Rightarrow> u16) \<Rightarrow> net_env \<Rightarrow> coord_state \<Rightarrow> coord_state" where
  "start_distribute crc net st = (if pc st = Idle then distribute_start crc net st else st)"

section \<open>UART commands\<close>

text \<open>\<open>sscanf(str, "FW:S:%lx:%15[^:]:%15s", ...)\<close> with at least two fields assigned: size, first
  argument and, if assigned, second argument.\<close>

definition scan_start_command :: "string \<Rightarrow> (u32 \<times> string \<times> string option) option" where
  "scan_start_command str = do {
     r \<leftarrow> scan_literal ''FW:S:'' str;
     (offset, r) \<leftarrow> scan_x r;
     r \<leftarrow> scan_literal '':'' r;
     (arg1, r) \<leftarrow> scan_set (\<lambda>c. c \<noteq> CHR '':'') 15 r;
     Some (offset, arg1, do {
       r \<leftarrow> scan_literal '':'' r;
       (arg2, r) \<leftarrow> scan_s 15 r;
       Some arg2 })
   }"

definition uart_start :: "net_env \<Rightarrow> string \<Rightarrow> coord_state \<Rightarrow> coord_state" where
  "uart_start net str st =
     (let st = st\<lparr>shell_running := False\<rparr>
      in case scan_start_command str of
        None \<Rightarrow> st
      | Some (offset, start_arg1, arg2) \<Rightarrow>
          let (image_sec_ver, target_arg) =
                (case arg2 of
                   Some start_arg2 \<Rightarrow> (ucast (fst (strtoul start_arg1)) :: u16, start_arg2)
                 | None \<Rightarrow> (OTA_START_SEC_VER_UNKNOWN, start_arg1));
              target_slot = ota_parse_target (Some target_arg)
          in if target_slot = OTA_TARGET_INVALID
             then ota_notify_uart_no_targets (ota_reset_transfer_state 0 st)
             else
               let st = ota_populate_session_nodes_from_routes net (ota_start_admission_cancel st)
               in if session_nodes_count st = 0
                  then ota_notify_uart_no_targets (ota_reset_transfer_state 0 st)
                  else
                    let pkt = \<lparr>pk_type = PKT_TYPE_START, pk_offset = offset, pk_length = image_sec_ver,
                               pk_target_slot = target_slot, pk_data = (\<lambda>_. 0)\<rparr>
                    in ota_start_admission_begin net
                         (ota_reset_transfer_state offset
                           (say (send_packet net pkt FW_PACKET_HEADER_LEN) (st\<lparr>ota_target_slot := target_slot\<rparr>))))"

text \<open>\<open>sscanf(str, "FW:D:%lx:%x:%128s", ...)\<close> with all three fields assigned.\<close>

definition scan_data_command :: "string \<Rightarrow> (u32 \<times> u32 \<times> string) option" where
  "scan_data_command str = do {
     r \<leftarrow> scan_literal ''FW:D:'' str;
     (offset, r) \<leftarrow> scan_x r;
     r \<leftarrow> scan_literal '':'' r;
     (len, r) \<leftarrow> scan_x r;
     r \<leftarrow> scan_literal '':'' r;
     (hexdata, r) \<leftarrow> scan_s 128 r;
     Some (offset, len, hexdata)
   }"

text \<open>The loop that decodes \<open>n\<close> bytes of hex digits into the page buffer from position \<open>rel\<close>.\<close>

definition decode_hex :: "nat \<Rightarrow> nat \<Rightarrow> string \<Rightarrow> u8 list \<Rightarrow> u8 list" where
  "decode_hex rel n hexdata buf =
     fold (\<lambda>i buf. buf[rel + i := push_bit 4 (hex2val (hexdata ! (i * 2))) OR hex2val (hexdata ! (i * 2 + 1))])
       [0..<n] buf"

text \<open>Storing and acknowledging a chunk that passed the checks.\<close>

definition store_chunk :: "u32 \<Rightarrow> u32 \<Rightarrow> string \<Rightarrow> coord_state \<Rightarrow> coord_state" where
  "store_chunk rel_offset len hexdata st =
     say [Uart ''FW:ACK'']
       (st\<lparr>page_buffer := decode_hex (unat rel_offset) (unat len) hexdata (page_buffer st),
          page_bytes_received := page_bytes_received st + ucast len\<rparr>)"

definition uart_data :: "(u8 list \<Rightarrow> u16 \<Rightarrow> u16) \<Rightarrow> net_env \<Rightarrow> string \<Rightarrow> coord_state \<Rightarrow> coord_state" where
  "uart_data crc net str st =
     (case scan_data_command str of
        None \<Rightarrow> st
      | Some (offset, len, hexdata) \<Rightarrow>
          if ota_start_admission_is_in_progress st then st
          else if session_nodes_count st = 0 then ota_notify_uart_no_targets st
          else if distribution_in_progress st then st
          else if offset \<ge> page_start_offset st \<and>
                  offset < page_start_offset st + ucast (expected_page_size st) then
            let rel_offset = offset - page_start_offset st
            in if rel_offset + len \<le> ucast (expected_page_size st) then
                 if of_nat (length hexdata) \<noteq> len * 2 then st
                 else
                   let st = store_chunk rel_offset len hexdata st
                   in if page_bytes_received st = expected_page_size st
                      then start_distribute crc net (st\<lparr>distribution_in_progress := True\<rparr>)
                      else st
               else st
          else st)"

definition uart_verify :: "net_env \<Rightarrow> string \<Rightarrow> coord_state \<Rightarrow> coord_state" where
  "uart_verify net str st =
     (case do { r \<leftarrow> scan_literal ''FW:V:'' str; scan_x r } of
        None \<Rightarrow> st
      | Some (offset, _) \<Rightarrow>
          if session_nodes_count st = 0 then ota_notify_uart_no_targets st
          else
            let pkt = \<lparr>pk_type = PKT_TYPE_VERIFY, pk_offset = offset, pk_length = 0,
                       pk_target_slot = ota_target_slot st, pk_data = (\<lambda>_. 0)\<rparr>
            in say (send_packet net pkt FW_PACKET_HEADER_LEN @ [Uart ''FW:ACK'']) (st\<lparr>shell_running := True\<rparr>))"

text \<open>The command letter is the fourth character.\<close>

definition ota_coordinator_handle_uart ::
    "(u8 list \<Rightarrow> u16 \<Rightarrow> u16) \<Rightarrow> net_env \<Rightarrow> string \<Rightarrow> coord_state \<Rightarrow> coord_state" where
  "ota_coordinator_handle_uart crc net str st =
     (case drop 3 str of
        c # _ \<Rightarrow>
          if c = CHR ''S'' then uart_start net str st
          else if c = CHR ''D'' then uart_data crc net str st
          else if c = CHR ''V'' then uart_verify net str st
          else st
      | [] \<Rightarrow> st)"

section \<open>Reports from the sensor nodes\<close>

definition handle_bitmap_report :: "bitmap_report \<Rightarrow> ipaddr \<Rightarrow> coord_state \<Rightarrow> coord_state" where
  "handle_bitmap_report report sender_addr st =
     (if br_page_offset report = page_start_offset st then
        case find_session_node_by_addr sender_addr st of
          None \<Rightarrow> st
        | Some found \<Rightarrow>
            if node_replied st ! found then st
            else
              let st = st\<lparr>node_replied := (node_replied st)[found := True],
                         session_bitmaps := (session_bitmaps st)[found := br_bitmap report]\<rparr>
              in if all_replied st then say [PostBitmapReceived] st else st
      else st)"

text \<open>A stage report is only logged.\<close>

definition handle_coordinator_report :: "rx_buf \<Rightarrow> u16 \<Rightarrow> ipaddr \<Rightarrow> coord_state \<Rightarrow> coord_state" where
  "handle_coordinator_report data datalen sender_addr st =
     (if unat datalen \<ge> sizeof_start_report \<and> data 0 = PKT_TYPE_START_REPORT
      then ota_coordinator_handle_start_report (start_report_at data) sender_addr st
      else if unat datalen \<ge> sizeof_stage_report \<and> data 0 = PKT_TYPE_STAGE_REPORT then st
      else if unat datalen \<ge> sizeof_bitmap_report \<and> data 0 = PKT_TYPE_BITMAP_REPORT
      then handle_bitmap_report (bitmap_report_at data) sender_addr st
      else st)"

section \<open>Runs\<close>

text \<open>What happens to a coordinator: a line on the UART, a datagram, the expiry of the admission timer,
  a resumption of the distribution process. After undefined behaviour nothing is known.\<close>

datatype coord_event =
    UartLine string
  | Datagram ipaddr rx_buf u16
  | AdmissionTimer
  | Resume proc_event

definition coord_step ::
    "(u8 list \<Rightarrow> u16 \<Rightarrow> u16) \<Rightarrow> net_env \<times> coord_event \<Rightarrow> coord_state \<Rightarrow> coord_state" where
  "coord_step crc e st =
     (if pc st = Undefined then st
      else case e of
        (net, UartLine str) \<Rightarrow> ota_coordinator_handle_uart crc net str st
      | (net, Datagram sender data datalen) \<Rightarrow> handle_coordinator_report data datalen sender st
      | (net, AdmissionTimer) \<Rightarrow> start_admission_expired st
      | (net, Resume ev) \<Rightarrow> distribute_resume net ev st)"

definition coord_initial :: coord_state where
  "coord_initial =
     \<lparr>current_file_size = 0, page_buffer = replicate PAGE_SIZE 0, page_start_offset = 0, page_bytes_received = 0,
      expected_page_size = 0, distribution_in_progress = False, ota_target_slot = OTA_SLOT_INVALID,
      session_nodes = replicate MAX_NODES (replicate 16 0), session_nodes_count = 0,
      node_replied = replicate MAX_NODES False, session_bitmaps = replicate MAX_NODES (replicate 8 0),
      retry_count = 0, start_admission_in_progress = False,
      session_start_accepted = replicate MAX_NODES False, start_admission_timer = False, effects = [],
      pc = Idle, dist_chunk_idx = 0, total_chunks = 0,
      end_pkt = \<lparr>pk_type = 0, pk_offset = 0, pk_length = 0, pk_target_slot = 0, pk_data = (\<lambda>_. 0)\<rparr>,
      recovery_round = 0, page_crc = 0, shell_running = True\<rparr>"

end
