(* ===== verification/Coordinator_Inv.thy ===== *)
theory Coordinator_Inv
  imports Coordinator Crc16
begin

text \<open>
  The coordinator's invariant: the arrays have their sizes, the page being transferred lies inside
  the file, the page buffer and the bitmaps are only accessed inside their bounds, and the
  recovery counters stay in range. It holds in every state the coordinator reaches as long as no
  START command arrives while a page is being distributed; what happens otherwise is the last
  theorem.
\<close>

section \<open>The length of a chunk\<close>

lemma say_coord_simps [simp]:
  "pc (say es st) = pc st" "dist_chunk_idx (say es st) = dist_chunk_idx st"
  "total_chunks (say es st) = total_chunks st" "end_pkt (say es st) = end_pkt st"
  "recovery_round (say es st) = recovery_round st" "page_crc (say es st) = page_crc st"
  "shell_running (say es st) = shell_running st"
  by (simp_all add: say_def)

text \<open>The page lies inside the file; sums of offsets and sizes do not wrap.\<close>

definition transfer_ok :: "'a session_state_scheme \<Rightarrow> bool" where
  "transfer_ok st \<longleftrightarrow>
     unat (expected_page_size st) \<le> PAGE_SIZE \<and>
     unat (page_start_offset st) + unat (expected_page_size st) \<le> unat (current_file_size st)"

lemma transfer_ok_no_wrap:
  "transfer_ok st \<Longrightarrow> unat (page_start_offset st) + unat (expected_page_size st) < 2 ^ 32"
  using unat_u32_less [of "current_file_size st"] unfolding transfer_ok_def by linarith

definition chunk_count :: "nat \<Rightarrow> nat" where "chunk_count n = (n + 63) div 64"

lemma chunk_count_le: "n \<le> 4096 \<Longrightarrow> chunk_count n \<le> 64"
  by (simp add: chunk_count_def)

lemma chunk_count_less: "i < chunk_count n \<longleftrightarrow> 64 * i < n"
  by (auto simp: chunk_count_def less_eq_div_iff_mult_less_eq Suc_le_eq [symmetric])

lemma page_end_unat:
  "transfer_ok st \<Longrightarrow>
     unat (page_start_offset st + ucast (expected_page_size st)) =
     unat (page_start_offset st) + unat (expected_page_size st)"
  using transfer_ok_no_wrap [of st] by (simp add: unat_plus_u32)

lemma chunk_offset_unat:
  assumes "transfer_ok st" "64 * dist_chunk_idx st < unat (expected_page_size st)"
  shows "unat (chunk_abs_offset st) = unat (page_start_offset st) + 64 * dist_chunk_idx st"
proof -
  have "64 * dist_chunk_idx st < 2 ^ 32" "unat (page_start_offset st) + 64 * dist_chunk_idx st < 2 ^ 32"
    using assms transfer_ok_no_wrap [OF assms(1)] by (simp_all add: transfer_ok_def PAGE_SIZE_def)
  then show ?thesis
    using unat_plus_u32 [of "page_start_offset st" "of_nat (dist_chunk_idx st * 64)"]
      unat_of_nat_u32 [of "dist_chunk_idx st * 64"]
    by (simp only: chunk_abs_offset_def mult.commute)
qed

text \<open>A chunk has 64 bytes or is the rest of the page; only in the last 64 bytes of the 32-bit range
  may it be longer than the rest.\<close>

lemma chunk_len_value:
  assumes t: "transfer_ok st" and i: "64 * dist_chunk_idx st < unat (expected_page_size st)"
  shows "unat (chunk_len st) =
      (if unat (page_start_offset st) + 64 * dist_chunk_idx st + 64 < 2 ^ 32
       then min 64 (unat (expected_page_size st) - 64 * dist_chunk_idx st) else 64)"
proof -
  let ?p = "unat (page_start_offset st)" and ?e = "unat (expected_page_size st)" and ?i = "dist_chunk_idx st"
  let ?a = "chunk_abs_offset st"
  let ?b = "page_start_offset st + ucast (expected_page_size st)"
  note ua = chunk_offset_unat [OF t i] and ub = page_end_unat [OF t]
  have lt: "?p + ?e < 2 ^ 32" by (rule transfer_ok_no_wrap [OF t])
  have le: "?a \<le> ?b" using i by (simp add: word_le_nat_alt ua ub)
  have ud: "unat (?b - ?a) = ?e - 64 * ?i" using unat_sub [OF le] by (simp add: ua ub)
  show ?thesis
  proof (cases "?p + 64 * ?i + 64 < 2 ^ 32")
    case True
    then have s: "unat (?a + 64) = ?p + 64 * ?i + 64" using unat_plus_u32 [of ?a 64] by (simp add: ua)
    have c: "?a + 64 > ?b \<longleftrightarrow> ?e < 64 * ?i + 64" by (simp add: word_less_nat_alt s ub)
    show ?thesis
    proof (cases "?e < 64 * ?i + 64")
      case True
      then have "unat (ucast (?b - ?a) :: u16) = ?e - 64 * ?i"
        using ud by (simp add: unsigned_ucast_eq take_bit_nat_eq_self)
      then show ?thesis
        using True c \<open>?p + 64 * ?i + 64 < 2 ^ 32\<close> by (simp add: chunk_len_def min_def)
    next
      case False
      then show ?thesis
        using c \<open>?p + 64 * ?i + 64 < 2 ^ 32\<close> by (simp add: chunk_len_def min_def)
    qed
  next
    case False
    have "unat (?a + 64) = (?p + 64 * ?i + 64) mod 2 ^ 32" by (simp add: unat_word_ariths ua)
    also have "\<dots> < 64" using False i lt by (simp add: le_mod_geq)
    finally have "\<not> ?a + 64 > ?b" using False i lt by (simp add: word_less_nat_alt ub)
    then show ?thesis using False by (simp add: chunk_len_def)
  qed
qed

section \<open>The invariant of the distribution process\<close>

definition counters_ok :: "coord_state \<Rightarrow> bool" where
  "counters_ok st \<longleftrightarrow>
     total_chunks st \<le> 64 \<and> recovery_round st \<le> OTA_MAX_PAGE_RECOVERY_ROUNDS \<and> retry_count st \<le> 3 \<and>
     start_admission_timer st = start_admission_in_progress st"

text \<open>While the process runs it works on the page the transfer state describes, no admission window is
  open, and where a chunk is in progress its index is one of the page's.\<close>

definition running_ok :: "coord_state \<Rightarrow> bool" where
  "running_ok st \<longleftrightarrow>
     total_chunks st = chunk_count (unat (expected_page_size st)) \<and> 0 < unat (expected_page_size st) \<and>
     \<not> start_admission_in_progress st"

definition in_chunk :: "dist_pc \<Rightarrow> bool" where
  "in_chunk k \<longleftrightarrow> k \<in> {QueueFirst, PaceFirst, QueueRecover, PaceRecover}"

text \<open>While reports are awaited fewer than three timeouts have been counted.\<close>

definition awaits_reports :: "dist_pc \<Rightarrow> bool" where
  "awaits_reports k \<longleftrightarrow> k \<in> {QueueEnd, WaitReports, QueueResend}"

lemma pc_classes [simp]:
  "in_chunk QueueFirst" "in_chunk PaceFirst" "in_chunk QueueRecover" "in_chunk PaceRecover"
  "\<not> in_chunk Idle" "\<not> in_chunk QueueEnd" "\<not> in_chunk WaitReports" "\<not> in_chunk QueueResend" "\<not> in_chunk Undefined"
  "awaits_reports QueueEnd" "awaits_reports WaitReports" "awaits_reports QueueResend"
  "\<not> awaits_reports Idle" "\<not> awaits_reports QueueFirst" "\<not> awaits_reports PaceFirst"
  "\<not> awaits_reports QueueRecover" "\<not> awaits_reports PaceRecover" "\<not> awaits_reports Undefined"
  by (simp_all add: in_chunk_def awaits_reports_def)

definition page_ok :: "coord_state \<Rightarrow> bool" where
  "page_ok st \<longleftrightarrow> session_ok st \<and> transfer_ok st \<and> counters_ok st"

definition coord_ok :: "coord_state \<Rightarrow> bool" where
  "coord_ok st \<longleftrightarrow>
     page_ok st \<and> pc st \<noteq> Undefined \<and> (pc st \<noteq> Idle \<longrightarrow> running_ok st) \<and>
     (in_chunk (pc st) \<longrightarrow> dist_chunk_idx st < total_chunks st) \<and>
     (awaits_reports (pc st) \<longrightarrow> retry_count st \<le> 2)"

lemmas coord_inv_defs = page_ok_def session_ok_def transfer_ok_def counters_ok_def running_ok_def

lemma page_ok_say [simp]: "page_ok (say es st) = page_ok st" "running_ok (say es st) = running_ok st"
  by (simp_all add: coord_inv_defs)

lemma coord_ok_say [simp]: "coord_ok (say es st) = coord_ok st"
  by (simp add: coord_ok_def)

lemma page_ok_update [simp]:
  "page_ok (st\<lparr>pc := k\<rparr>) = page_ok st" "running_ok (st\<lparr>pc := k\<rparr>) = running_ok st"
  "page_ok (st\<lparr>dist_chunk_idx := i\<rparr>) = page_ok st" "running_ok (st\<lparr>dist_chunk_idx := i\<rparr>) = running_ok st"
  "page_ok (st\<lparr>shell_running := sh\<rparr>) = page_ok st" "running_ok (st\<lparr>shell_running := sh\<rparr>) = running_ok st"
  "running_ok (st\<lparr>recovery_round := r\<rparr>) = running_ok st"
  "page_ok (st\<lparr>distribution_in_progress := d\<rparr>) = page_ok st"
  "running_ok (st\<lparr>distribution_in_progress := d\<rparr>) = running_ok st"
  by (simp_all add: coord_inv_defs)

lemma wait_queue_ok:
  assumes "page_ok st" "running_ok st" "k \<noteq> Idle" "k \<noteq> Undefined" "in_chunk k \<longrightarrow> dist_chunk_idx st < total_chunks st"
    "awaits_reports k \<longrightarrow> retry_count st \<le> 2"
  shows "coord_ok (wait_queue net k st)"
  using assms by (simp add: wait_queue_def coord_ok_def)

lemma chunk_in_buffers:
  assumes "page_ok st" "running_ok st" "dist_chunk_idx st < total_chunks st"
  shows "unat (chunk_len st) \<le> 64" "dist_chunk_idx st * 64 + unat (chunk_len st) \<le> PAGE_SIZE"
proof -
  have i: "64 * dist_chunk_idx st < unat (expected_page_size st)"
    using assms by (simp add: running_ok_def chunk_count_less)
  have t: "transfer_ok st" and e: "unat (expected_page_size st) \<le> 4096"
    using assms(1) by (simp_all add: page_ok_def transfer_ok_def PAGE_SIZE_def)
  have c: "dist_chunk_idx st < 64" using i e by simp
  show "unat (chunk_len st) \<le> 64" using chunk_len_value [OF t i] by (simp split: if_splits)
  then show "dist_chunk_idx st * 64 + unat (chunk_len st) \<le> PAGE_SIZE" using c by (simp add: PAGE_SIZE_def)
qed

lemma send_paced_eq:
  assumes "page_ok st" "running_ok st" "dist_chunk_idx st < total_chunks st" "pc st \<noteq> Undefined"
  shows "send_paced net ms k st =
      say (send_packet net (chunk_packet st) (FW_PACKET_HEADER_LEN + unat (chunk_len st)) @
           [SetTimer DistTimer (ms_to_ticks net ms)]) (st\<lparr>pc := k\<rparr>)"
  using chunk_in_buffers [OF assms(1-3)] assms(4)
  by (simp add: send_paced_def send_chunk_def Let_def say_def)

lemma send_paced_ok:
  assumes "page_ok st" "running_ok st" "dist_chunk_idx st < total_chunks st" "pc st \<noteq> Undefined"
    and "in_chunk k"
  shows "coord_ok (send_paced net ms k st)"
  using assms by (auto simp: send_paced_eq coord_ok_def in_chunk_def)

lemma finish_page_next:
  assumes t: "transfer_ok st"
  shows "unat (page_start_offset (finish_page st)) = unat (page_start_offset st) + unat (expected_page_size st)"
    "unat (expected_page_size (finish_page st)) =
       min 4096 (unat (current_file_size st) - unat (page_start_offset (finish_page st)))"
proof -
  let ?p = "page_start_offset st + ucast (expected_page_size st)"
  have s: "page_start_offset (finish_page st) = ?p" by (simp add: finish_page_def Let_def)
  note up = page_end_unat [OF t]
  show "unat (page_start_offset (finish_page st)) = unat (page_start_offset st) + unat (expected_page_size st)"
    by (simp only: s up)
  have le: "unat ?p \<le> unat (current_file_size st)" using t by (simp add: up transfer_ok_def)
  have d: "?p < current_file_size st \<Longrightarrow> unat (current_file_size st - ?p) = unat (current_file_size st) - unat ?p"
    by (intro unat_sub) simp
  have "unat (ucast w :: u16) = unat w" if "\<not> w > (0x1000 :: u32)" for w :: u32
    using that by (simp add: unsigned_ucast_eq take_bit_nat_eq_self word_less_nat_alt)
  then have "unat (if ?p < current_file_size st
        then if current_file_size st - ?p > of_nat PAGE_SIZE then of_nat PAGE_SIZE
             else ucast (current_file_size st - ?p) else (0::u16)) =
      min 4096 (unat (current_file_size st) - unat ?p)"
    using d le by (auto simp: PAGE_SIZE_def word_less_nat_alt min_def)
  then show "unat (expected_page_size (finish_page st)) =
      min 4096 (unat (current_file_size st) - unat (page_start_offset (finish_page st)))"
    unfolding s by (simp add: finish_page_def Let_def PAGE_SIZE_def del: if_split_asm split del: if_split)
qed

lemma finish_page_ok:
  assumes p: "page_ok st" shows "coord_ok (finish_page st)"
proof -
  have t: "transfer_ok st" using p by (simp add: page_ok_def)
  have s: "session_ok (finish_page st)" using p by (simp add: finish_page_def Let_def coord_inv_defs)
  have "current_file_size (finish_page st) = current_file_size st" by (simp add: finish_page_def Let_def)
  moreover have "m + min 4096 (n - m) \<le> n" if "m \<le> n" for m n :: nat using that by arith
  ultimately have "transfer_ok (finish_page st)"
    using t unfolding transfer_ok_def finish_page_next [OF t] by (simp add: PAGE_SIZE_def)
  moreover note s
  moreover have "counters_ok (finish_page st)" using p by (simp add: finish_page_def Let_def coord_inv_defs)
  moreover have "pc (finish_page st) = Idle" by (simp add: finish_page_def Let_def)
  ultimately show ?thesis by (simp add: coord_ok_def page_ok_def)
qed

lemma send_page_end_ok:
  "page_ok st \<Longrightarrow> running_ok st \<Longrightarrow> retry_count st \<le> 2 \<Longrightarrow> coord_ok (send_page_end net st)"
  by (simp add: send_page_end_def coord_ok_def)

lemma recovery_head_ok:
  assumes "page_ok st" "running_ok st"
  shows "coord_ok (recovery_head net st)"
proof -
  have "page_ok (st\<lparr>recovery_round := recovery_round st + 1, node_replied := replicate MAX_NODES False,
        retry_count := 0, end_pkt := pkt\<rparr>)" if "recovery_round st < OTA_MAX_PAGE_RECOVERY_ROUNDS" for pkt
    using assms that by (simp add: coord_inv_defs)
  moreover have "running_ok (st\<lparr>recovery_round := r, node_replied := n, retry_count := c, end_pkt := pkt\<rparr>)" for r n c pkt
    using assms by (simp add: running_ok_def)
  ultimately show ?thesis
    using assms by (simp add: recovery_head_def Let_def finish_page_ok send_page_end_ok wait_queue_ok not_le)
qed

lemma first_pass_chunk_ok:
  assumes "page_ok st" "running_ok st" "dist_chunk_idx st < total_chunks st" "pc st \<noteq> Undefined"
  shows "coord_ok (first_pass_chunk net st)"
  using assms by (simp add: first_pass_chunk_def send_paced_ok wait_queue_ok)

lemma first_pass_ok:
  assumes "page_ok st" "running_ok st" "pc st \<noteq> Undefined"
  shows "coord_ok (first_pass net st)"
proof -
  have "page_ok (st\<lparr>recovery_round := 0\<rparr>)" using assms(1) by (simp add: coord_inv_defs)
  then show ?thesis using assms by (simp add: first_pass_def first_pass_chunk_ok recovery_head_ok)
qed

lemma recover_pass_ok:
  assumes "page_ok st" "running_ok st" "pc st \<noteq> Undefined"
  shows "coord_ok (recover_pass net st)"
  using assms
proof (induction net st rule: recover_pass.induct)
  case (1 net st)
  then show ?case
    by (subst recover_pass.simps) (simp add: wait_queue_ok send_paced_ok recovery_head_ok)
qed

lemma after_wait_ok:
  assumes "page_ok st" "running_ok st" "pc st \<noteq> Undefined"
  shows "coord_ok (after_wait net st)"
  using assms by (simp add: after_wait_def finish_page_ok recover_pass_ok)

lemma resend_page_end_ok:
  assumes "page_ok st" "running_ok st" "retry_count st \<le> 2"
  shows "coord_ok (resend_page_end net st)"
  using assms by (simp add: resend_page_end_def send_page_end_ok wait_queue_ok)

lemma report_timeout_ok:
  assumes "page_ok st" "running_ok st" "pc st \<noteq> Undefined" "retry_count st \<le> 2"
  shows "coord_ok (report_timeout net st)"
proof -
  define s where "s = st\<lparr>retry_count := Suc (retry_count st)\<rparr>"
  define c where "c = compact_nodes ((!) (node_replied st)) s"
  have r: "report_timeout net st =
      (if retry_count st \<ge> 2 then
         if list_ex (\<lambda>i. node_replied st ! i) [0..<session_nodes_count st] then after_wait net c
         else resend_page_end net (st\<lparr>retry_count := 0\<rparr>)
       else resend_page_end net s)"
    by (simp add: report_timeout_def Let_def s_def c_def numeral_3_eq_3 numeral_2_eq_2)
  have s: "page_ok s" "running_ok s" using assms by (simp_all add: s_def coord_inv_defs)
  have s0: "page_ok (st\<lparr>retry_count := 0\<rparr>)" "running_ok (st\<lparr>retry_count := 0\<rparr>)"
    using assms by (simp_all add: coord_inv_defs)
  have ok: "session_ok s" using s by (simp add: page_ok_def)
  obtain ns bs n where c: "c = s\<lparr>session_nodes := ns, session_bitmaps := bs, session_nodes_count := n\<rparr>"
    unfolding c_def using compact_nodes_result(1) [OF ok] by blast
  have "session_ok c" unfolding c_def by (rule compact_nodes_result(4) [OF ok])
  with s have "page_ok c" "running_ok c" "pc c = pc st"
    by (simp_all add: c s_def page_ok_def transfer_ok_def counters_ok_def running_ok_def)
  then show ?thesis
    using assms s s0 by (simp add: r after_wait_ok resend_page_end_ok s_def)
qed

lemma distribute_resume_ok:
  assumes "coord_ok st" shows "coord_ok (distribute_resume net ev st)"
  using assms
  by (cases "pc st"; cases ev)
    (auto simp: coord_ok_def [of st] distribute_resume_def first_pass_chunk_ok first_pass_ok send_page_end_ok
      wait_queue_ok report_timeout_ok reports_posted_def after_wait_ok resend_page_end_ok recover_pass_ok
      intro: assms)

lemma distribute_start_ok:
  assumes "page_ok st" "pc st = Idle" "0 < unat (expected_page_size st)" "\<not> start_admission_in_progress st"
  shows "coord_ok (distribute_start crc net st)"
proof -
  define s where "s = st\<lparr>total_chunks := (unat (expected_page_size st) + 63) div 64,
      page_crc := crc (take (unat (expected_page_size st)) (page_buffer st)) 0,
      session_bitmaps := replicate MAX_NODES (replicate 8 0)\<rparr>"
  have s: "page_ok s" "running_ok s" "pc s = Idle"
    using assms chunk_count_le [of "unat (expected_page_size st)"]
    by (simp_all add: s_def coord_inv_defs chunk_count_def PAGE_SIZE_def list_all_iff)
  have "distribute_start crc net st =
      (if session_nodes_count s = 0 then ota_notify_uart_no_targets (s\<lparr>distribution_in_progress := False\<rparr>)
       else first_pass net (s\<lparr>dist_chunk_idx := 0\<rparr>))"
    by (simp add: distribute_start_def s_def Let_def)
  moreover have "coord_ok (ota_notify_uart_no_targets (s\<lparr>distribution_in_progress := False\<rparr>))"
    using s by (simp add: ota_notify_uart_no_targets_def coord_ok_def)
  moreover have "coord_ok (first_pass net (s\<lparr>dist_chunk_idx := 0\<rparr>))"
    using s by (intro first_pass_ok) simp_all
  ultimately show ?thesis by simp
qed

section \<open>UART commands and reports keep the invariant\<close>

lemma idle_ok: "page_ok st \<Longrightarrow> pc st = Idle \<Longrightarrow> coord_ok st"
  by (simp add: coord_ok_def)

lemma coord_ok_page_ok: "coord_ok st \<Longrightarrow> page_ok st"
  by (simp add: coord_ok_def)

lemma reset_transfer_state_ok:
  assumes "page_ok st" shows "page_ok (ota_reset_transfer_state n st)"
proof -
  have "unat (if n > of_nat PAGE_SIZE then of_nat PAGE_SIZE else ucast n :: u16) = min 4096 (unat n)"
    by (auto simp: PAGE_SIZE_def word_less_nat_alt min_def unsigned_ucast_eq take_bit_nat_eq_self)
  then have "transfer_ok (ota_reset_transfer_state n st)"
    by (simp add: transfer_ok_def ota_reset_transfer_state_def PAGE_SIZE_def split del: if_split)
  with assms show ?thesis by (simp add: ota_reset_transfer_state_def page_ok_def session_ok_def counters_ok_def)
qed

lemma reset_transfer_state_pc [simp]: "pc (ota_reset_transfer_state n st) = pc st"
  by (simp add: ota_reset_transfer_state_def)

lemma no_targets_ok [simp]:
  "page_ok (ota_notify_uart_no_targets st) = page_ok st" "pc (ota_notify_uart_no_targets st) = pc st"
  "coord_ok (ota_notify_uart_no_targets st) = coord_ok st"
  by (simp_all add: ota_notify_uart_no_targets_def)

lemma populate_loop_keeps:
  fixes st :: coord_state
  assumes "page_ok st"
  shows "page_ok (populate_loop rs st) \<and> pc (populate_loop rs st) = pc st \<and>
    start_admission_in_progress (populate_loop rs st) = start_admission_in_progress st"
  using assms
proof (induction rs arbitrary: st)
  case (Cons r rs)
  then have "page_ok (st\<lparr>session_nodes := (session_nodes st)[session_nodes_count st := r],
        session_nodes_count := session_nodes_count st + 1\<rparr>)" if "session_nodes_count st < MAX_NODES"
    using that by (simp add: coord_inv_defs)
  from Cons.IH [OF this] Cons.prems show ?case by simp
qed simp

lemma populate_ok:
  fixes st :: coord_state
  assumes "page_ok st"
  shows "page_ok (ota_populate_session_nodes_from_routes net st)"
    "pc (ota_populate_session_nodes_from_routes net st) = pc st"
proof -
  have "page_ok (st\<lparr>session_nodes_count := 0\<rparr>)" using assms by (simp add: coord_inv_defs)
  from populate_loop_keeps [OF this, of "map fst (routes net)"]
  show "page_ok (ota_populate_session_nodes_from_routes net st)"
    "pc (ota_populate_session_nodes_from_routes net st) = pc st"
    by (simp_all add: ota_populate_session_nodes_from_routes_def)
qed

lemma admission_cancel_ok:
  fixes st :: coord_state
  assumes "page_ok st"
  shows "page_ok (ota_start_admission_cancel st)" "pc (ota_start_admission_cancel st) = pc st"
  using assms by (simp_all add: ota_start_admission_cancel_def coord_inv_defs)

lemma admission_begin_ok:
  fixes st :: coord_state
  assumes "page_ok st"
  shows "page_ok (ota_start_admission_begin net st)" "pc (ota_start_admission_begin net st) = pc st"
  using assms by (simp_all add: ota_start_admission_begin_def coord_inv_defs)

lemma uart_start_ok:
  assumes "coord_ok st" "pc st = Idle"
  shows "coord_ok (uart_start net str st)"
proof -
  have p: "page_ok (st\<lparr>shell_running := False\<rparr>)" using assms by (simp add: coord_ok_def)
  define s where "s = ota_populate_session_nodes_from_routes net
    (ota_start_admission_cancel (st\<lparr>shell_running := False\<rparr>))"
  have s: "page_ok s" "pc s = Idle"
    unfolding s_def using populate_ok admission_cancel_ok [OF p] assms(2) by simp_all
  have s': "page_ok (s\<lparr>ota_target_slot := t\<rparr>)" for t using s by (simp add: coord_inv_defs)
  have "coord_ok (ota_start_admission_begin net (ota_reset_transfer_state n (say es (s\<lparr>ota_target_slot := t\<rparr>))))" for n es t
    using s s' by (intro idle_ok) (simp_all add: admission_begin_ok reset_transfer_state_ok)
  moreover have "coord_ok (ota_notify_uart_no_targets (ota_reset_transfer_state 0 s))"
    using s by (intro idle_ok) (simp_all add: reset_transfer_state_ok)
  moreover have "coord_ok (ota_notify_uart_no_targets (ota_reset_transfer_state 0 (st\<lparr>shell_running := False\<rparr>)))"
    "coord_ok (st\<lparr>shell_running := False\<rparr>)"
    using p assms(2) by (auto intro!: idle_ok simp: reset_transfer_state_ok)
  ultimately show ?thesis
    by (auto simp: uart_start_def Let_def s_def [symmetric] split: option.splits prod.splits)
qed

text \<open>A chunk that gets past the checks lies inside the page, and the hex digits are exactly its bytes: the
  32-bit sums and products of the checks cannot be fooled.\<close>

lemma uart_chunk_bounds:
  assumes t: "transfer_ok st"
    and o: "offset \<ge> page_start_offset st" "offset < page_start_offset st + ucast (expected_page_size st)"
    and l: "offset - page_start_offset st + len \<le> ucast (expected_page_size st)"
    and h: "of_nat (length hexdata) = len * (2 :: u32)" "length hexdata \<le> 128"
  shows "unat (offset - page_start_offset st) + unat len \<le> unat (expected_page_size st)"
    "length hexdata = 2 * unat len"
proof -
  let ?r = "offset - page_start_offset st"
  have r: "unat ?r = unat offset - unat (page_start_offset st)" using o(1) by (rule unat_sub)
  have e: "unat (expected_page_size st) \<le> 4096" using t by (simp add: transfer_ok_def PAGE_SIZE_def)
  have rlt: "unat ?r < unat (expected_page_size st)"
    using o by (simp add: r word_less_nat_alt word_le_nat_alt page_end_unat [OF t])
  have "unat (of_nat (length hexdata) :: u32) = length hexdata"
    using h(2) by (intro unat_of_nat_u32) simp
  then have hl: "length hexdata = unat len * 2 mod 2 ^ 32" unfolding h(1) by (simp add: unat_word_ariths)
  have sum: "(unat ?r + unat len) mod 2 ^ 32 \<le> unat (expected_page_size st)"
    using l by (simp add: word_le_nat_alt unat_word_ariths)
  show len: "unat ?r + unat len \<le> unat (expected_page_size st)"
  proof (cases "unat len < 2 ^ 31")
    case True
    then have "unat ?r + unat len < 2 ^ 32" using rlt e by simp
    then show ?thesis using sum by simp
  next
    case False
    then have "unat len * 2 mod 2 ^ 32 = unat len * 2 - 2 ^ 32"
      using unat_u32_less [of len] by (simp add: le_mod_geq)
    with hl h(2) have "unat len \<le> 2 ^ 31 + 64" by simp
    then have "(unat ?r + unat len) mod 2 ^ 32 = unat ?r + unat len" using rlt e by simp
    then show ?thesis using sum by simp
  qed
  then show "length hexdata = 2 * unat len" using hl e by simp
qed

lemma scan_set_length: "scan_set P n s = Some (w, r) \<Longrightarrow> length w \<le> n"
  using length_takeWhile_le [of P "take n s"] by (auto simp: scan_set_def Let_def split: if_splits)

lemma scan_data_hex_length: "scan_data_command str = Some (offset, len, hexdata) \<Longrightarrow> length hexdata \<le> 128"
  by (auto simp: scan_data_command_def scan_s_def bind_eq_Some_conv dest: scan_set_length)

lemma length_decode_hex [simp]: "length (decode_hex rel n hexdata buf) = length buf"
  unfolding decode_hex_def by (induction n) simp_all

lemma start_distribute_ok:
  assumes "coord_ok st" "0 < unat (expected_page_size st)" "\<not> start_admission_in_progress st"
  shows "coord_ok (start_distribute crc net st)"
  using assms by (simp add: start_distribute_def distribute_start_ok coord_ok_page_ok)

lemma uart_data_ok:
  assumes ok: "coord_ok st"
  shows "coord_ok (uart_data crc net str st)"
proof -
  have u: "coord_ok (store_chunk r len hexdata st)" for r len hexdata
    using ok by (simp add: store_chunk_def coord_ok_def coord_inv_defs)
  have "coord_ok (start_distribute crc net ((store_chunk r len hexdata st)\<lparr>distribution_in_progress := True\<rparr>))"
    if "\<not> start_admission_in_progress st"
      "offset \<ge> page_start_offset st" "offset < page_start_offset st + ucast (expected_page_size st)"
    for offset r len hexdata
  proof (rule start_distribute_ok)
    show "coord_ok ((store_chunk r len hexdata st)\<lparr>distribution_in_progress := True\<rparr>)"
      using u [of r len hexdata] by (simp add: coord_ok_def)
    have "expected_page_size st \<noteq> 0" using that by auto
    then show "0 < unat (expected_page_size ((store_chunk r len hexdata st)\<lparr>distribution_in_progress := True\<rparr>))"
      by (simp add: store_chunk_def unat_gt_0)
  qed (use that in \<open>simp add: store_chunk_def\<close>)
  then show ?thesis
    using ok u
    by (auto simp: uart_data_def ota_start_admission_is_in_progress_def Let_def split: option.splits prod.splits)
qed

lemma uart_verify_ok:
  assumes "coord_ok st" shows "coord_ok (uart_verify net str st)"
proof -
  have "coord_ok (st\<lparr>shell_running := True\<rparr>)" using assms by (simp add: coord_ok_def)
  with assms show ?thesis by (simp add: uart_verify_def Let_def split: option.splits prod.splits)
qed

lemma finish_start_admission_ok:
  fixes st :: coord_state
  assumes p: "page_ok (st\<lparr>start_admission_timer := True\<rparr>)" and i: "start_admission_in_progress st" "\<not> start_admission_timer st"
  shows "page_ok (finish_start_admission st)" "pc (finish_start_admission st) = pc st"
proof -
  define s where "s = st\<lparr>start_admission_in_progress := False\<rparr>"
  define k where "k = (\<lambda>i. node_replied st ! i \<and> session_start_accepted st ! i)"
  have s: "page_ok s" using p i by (simp add: s_def coord_inv_defs)
  then have ok: "session_ok s" by (simp add: page_ok_def)
  obtain ns bs n where c: "compact_nodes k s = s\<lparr>session_nodes := ns, session_bitmaps := bs, session_nodes_count := n\<rparr>"
    using compact_nodes_result(1) [OF ok] by blast
  have "page_ok (compact_nodes k s)"
    using s compact_nodes_result(4) [OF ok, of k] unfolding page_ok_def
    by (simp add: c transfer_ok_def counters_ok_def)
  moreover have "pc (compact_nodes k s) = pc st" unfolding c by (simp add: s_def)
  moreover have "finish_start_admission st =
      (let st = compact_nodes k s in if session_nodes_count st = 0
         then ota_notify_uart_no_targets (ota_reset_transfer_state 0 st) else say [Uart ''FW:ACK''] st)"
    by (simp add: finish_start_admission_def s_def k_def)
  ultimately show "page_ok (finish_start_admission st)" "pc (finish_start_admission st) = pc st"
    by (simp_all add: Let_def reset_transfer_state_ok)
qed

lemma start_report_ok:
  assumes "coord_ok st"
  shows "coord_ok (ota_coordinator_handle_start_report r a st)"
proof (cases "start_admission_in_progress st")
  case True
  then have idle: "pc st = Idle" using assms by (auto simp: coord_ok_def running_ok_def)
  have tm: "start_admission_timer st" using True assms by (simp add: coord_ok_def page_ok_def counters_ok_def)
  show ?thesis
  proof (cases "find_session_node_by_addr a st")
    case (Some f)
    define s where "s = st\<lparr>node_replied := (node_replied st)[f := True],
        session_start_accepted := (session_start_accepted st)[f := sr_status r = OTA_START_STATUS_ACCEPTED]\<rparr>"
    have s: "page_ok s" "pc s = Idle" "start_admission_in_progress s"
      using assms idle True by (simp_all add: s_def coord_ok_def coord_inv_defs)
    have tm': "s\<lparr>start_admission_timer := True\<rparr> = s" using tm by (simp add: s_def)
    let ?f = "say [StopTimer StartAdmissionTimer] (s\<lparr>start_admission_timer := False\<rparr>)"
    have "?f\<lparr>start_admission_timer := True\<rparr> = say [StopTimer StartAdmissionTimer] (s\<lparr>start_admission_timer := True\<rparr>)"
      by (simp add: say_def)
    then have "page_ok (?f\<lparr>start_admission_timer := True\<rparr>)" using s tm' by simp
    then have "coord_ok (finish_start_admission ?f)"
      using finish_start_admission_ok [of ?f] s by (intro idle_ok) simp_all
    with assms s True Some show ?thesis
      by (simp add: ota_coordinator_handle_start_report_def Let_def s_def [symmetric] idle_ok)
  qed (use assms True in \<open>simp add: ota_coordinator_handle_start_report_def\<close>)
qed (use assms in \<open>simp add: ota_coordinator_handle_start_report_def\<close>)

lemma start_admission_expired_ok:
  assumes "coord_ok st"
  shows "coord_ok (start_admission_expired st)"
proof (cases "start_admission_timer st")
  case True
  then have i: "start_admission_in_progress st" using assms by (simp add: coord_ok_def page_ok_def counters_ok_def)
  then have idle: "pc st = Idle" using assms by (auto simp: coord_ok_def running_ok_def)
  have "st\<lparr>start_admission_timer := True\<rparr> = st" using True by simp
  then have "page_ok (st\<lparr>start_admission_timer := False, start_admission_timer := True\<rparr>)"
    using coord_ok_page_ok [OF assms] by simp
  then have "coord_ok (finish_start_admission (st\<lparr>start_admission_timer := False\<rparr>))"
    using i idle finish_start_admission_ok [of "st\<lparr>start_admission_timer := False\<rparr>"] by (intro idle_ok) simp_all
  then show ?thesis using True by (simp add: start_admission_expired_def)
qed (use assms in \<open>simp add: start_admission_expired_def\<close>)

lemma bitmap_report_ok:
  assumes "coord_ok st" "length (br_bitmap r) = 8"
  shows "coord_ok (handle_bitmap_report r a st)"
proof -
  have "coord_ok (st\<lparr>node_replied := (node_replied st)[f := True], session_bitmaps := (session_bitmaps st)[f := br_bitmap r]\<rparr>)" for f
    using assms set_update_subset_insert [of "session_bitmaps st" f "br_bitmap r"]
    by (auto simp: coord_ok_def coord_inv_defs list_all_iff)
  with assms(1) show ?thesis by (simp add: handle_bitmap_report_def Let_def split: option.splits)
qed

lemma coordinator_report_ok: "coord_ok st \<Longrightarrow> coord_ok (handle_coordinator_report data datalen a st)"
  by (simp add: handle_coordinator_report_def start_report_ok bitmap_report_ok bitmap_report_at_def)

section \<open>Every reachable state is safe\<close>

text \<open>A START command on the UART while the distribution process runs.\<close>

definition start_while_distributing :: "net_env \<times> coord_event \<Rightarrow> coord_state \<Rightarrow> bool" where
  "start_while_distributing e st \<longleftrightarrow>
     pc st \<noteq> Idle \<and> (case snd e of UartLine str \<Rightarrow> take 1 (drop 3 str) = ''S'' | _ \<Rightarrow> False)"

lemma uart_ok:
  assumes "coord_ok st" "\<not> start_while_distributing (net, UartLine str) st"
  shows "coord_ok (ota_coordinator_handle_uart crc net str st)"
  using assms
  by (auto simp: ota_coordinator_handle_uart_def start_while_distributing_def uart_start_ok uart_data_ok uart_verify_ok
      split: list.splits)

lemma coord_step_ok:
  assumes "coord_ok st" "\<not> start_while_distributing e st"
  shows "coord_ok (coord_step crc e st)"
  using assms
  by (auto simp: coord_step_def uart_ok coordinator_report_ok start_admission_expired_ok distribute_resume_ok
      split: prod.splits coord_event.splits)

inductive coord_reachable :: "(u8 list \<Rightarrow> u16 \<Rightarrow> u16) \<Rightarrow> coord_state \<Rightarrow> bool" for crc where
  initial: "coord_reachable crc coord_initial"
| step: "coord_reachable crc st \<Longrightarrow> \<not> start_while_distributing e st \<Longrightarrow> coord_reachable crc (coord_step crc e st)"

lemma coord_initial_ok: "coord_ok coord_initial"
  by (simp add: coord_ok_def coord_inv_defs coord_initial_def list_all_iff PAGE_SIZE_def MAX_NODES_def chunk_count_def)

lemma reachable_coord_ok: "coord_reachable crc st \<Longrightarrow> coord_ok st"
  by (induction rule: coord_reachable.induct) (simp_all add: coord_initial_ok coord_step_ok)

text \<open>C9. Every state a coordinator reaches, whatever lines, datagrams, timer expiries and process events
  arrive in whatever order, provided that no START command arrives during a page distribution, is
  safe: no packet copy leaves the 64-byte packet or the 4096-byte page buffer, the node arrays are
  used within their 16 elements and bitmaps have 8 bytes, the current page lies inside the file, at
  most 10 recovery rounds and 3 timeouts are counted, and the admission window is never open while
  a page is being distributed.\<close>

theorem coordinator_safe:
  assumes "coord_reachable crc st"
  shows "pc st \<noteq> Undefined \<and> session_nodes_count st \<le> MAX_NODES \<and> session_ok st \<and>
    unat (expected_page_size st) \<le> PAGE_SIZE \<and>
    unat (page_start_offset st) + unat (expected_page_size st) \<le> unat (current_file_size st) \<and>
    total_chunks st \<le> 64 \<and> recovery_round st \<le> OTA_MAX_PAGE_RECOVERY_ROUNDS \<and> retry_count st \<le> 3 \<and>
    (pc st \<noteq> Idle \<longrightarrow> \<not> start_admission_in_progress st \<and>
       total_chunks st = (unat (expected_page_size st) + 63) div 64)"
  using reachable_coord_ok [OF assms]
  by (simp add: coord_ok_def page_ok_def transfer_ok_def counters_ok_def running_ok_def chunk_count_def session_ok_def)

lemma sample_start_line:
  "scan_start_command ''FW:S:00000005:2:B'' = Some (5, ''2'', Some ''B'')"
  "drop 3 ''FW:S:00000005:2:B'' = ''S:00000005:2:B''"
  by (simp_all add: scan_start_command_def scan_literal_def scan_x_def scan_set_def scan_s_def isspace_def is_digit_def
      digit_value_def digits_value_def unsigned_long_def)

theorem coordinator_safe_witness:
  "active_nodes (coord_step py_crc16_data (sample_routes, UartLine ''FW:S:00000005:2:B'') coord_initial) = [sample_ip 2, sample_ip 3] \<and>
   session_ok (coord_step py_crc16_data (sample_routes, UartLine ''FW:S:00000005:2:B'') coord_initial)"
proof -
  have "\<not> start_while_distributing (sample_routes, UartLine ''FW:S:00000005:2:B'') coord_initial"
    by (simp add: start_while_distributing_def coord_initial_def)
  note r = coord_reachable.step [OF coord_reachable.initial this, of py_crc16_data]
  have "ota_parse_target (Some ''B'') \<noteq> OTA_TARGET_INVALID"
    by (simp add: ota_parse_target_def OTA_SLOT_B_def OTA_TARGET_INVALID_def)
  then have "active_nodes (coord_step py_crc16_data (sample_routes, UartLine ''FW:S:00000005:2:B'') coord_initial) =
      [sample_ip 2, sample_ip 3]"
    by (simp add: coord_step_def ota_coordinator_handle_uart_def sample_start_line uart_start_def coord_initial_def
        ota_populate_session_nodes_from_routes_def sample_routes_def ota_start_admission_cancel_def MAX_NODES_def Let_def
        ota_start_admission_begin_def ota_reset_transfer_state_def active_nodes_def say_def) (simp add: numeral_eq_Suc)
  then show ?thesis using coordinator_safe [OF r] by blast
qed

text \<open>C30. A START command during a page distribution is not refused and leads to undefined behaviour: if the
  new file is shorter than the position the running distribution has reached, the process computes a
  negative chunk length for the new file, and copies more than 60 kilobytes into a 64-byte packet
  as soon as its pacing timer fires.\<close>

theorem start_mid_page_undefined:
  assumes ok: "coord_ok st" and p: "pc st = PaceFirst" and i: "dist_chunk_idx st + 1 < total_chunks st"
    and s: "take 1 (drop 3 str) = ''S''" "scan_start_command str = Some (file_size, arg1, Some arg2)"
      "ota_parse_target (Some arg2) \<noteq> OTA_TARGET_INVALID" "routes net \<noteq> []"
    and n: "0 < unat file_size" "unat file_size < 64 * (dist_chunk_idx st + 1)" and r: "ota_downstream_queue_ready net'"
  shows "pc (distribute_resume net' TimerEvent (ota_coordinator_handle_uart crc net str st)) = Undefined"
proof -
  obtain rt rts where rts: "map fst (routes net) = rt # rts" using s(4) by (cases "routes net") auto
  define c where "c = ota_start_admission_cancel (st\<lparr>shell_running := False\<rparr>)"
  define q where "q = ota_populate_session_nodes_from_routes net c"
  have keep: "pc (populate_loop xs u) = pc u \<and> dist_chunk_idx (populate_loop xs u) = dist_chunk_idx u \<and>
      total_chunks (populate_loop xs u) = total_chunks u \<and> session_nodes_count u \<le> session_nodes_count (populate_loop xs u)"
    for xs and u :: coord_state
  proof (induction xs arbitrary: u)
    case (Cons x xs)
    from Cons.IH [of "u\<lparr>session_nodes := (session_nodes u)[session_nodes_count u := x],
        session_nodes_count := session_nodes_count u + 1\<rparr>"]
    show ?case by auto
  qed simp
  have c: "pc c = PaceFirst" "dist_chunk_idx c = dist_chunk_idx st" "total_chunks c = total_chunks st"
    using p by (simp_all add: c_def ota_start_admission_cancel_def)
  have q: "pc q = PaceFirst" "dist_chunk_idx q = dist_chunk_idx st" "total_chunks q = total_chunks st"
    using keep [of "map fst (routes net)" "c\<lparr>session_nodes_count := 0\<rparr>"] c
    by (simp_all add: q_def ota_populate_session_nodes_from_routes_def)
  have "0 < session_nodes_count q"
    using keep [of rts "c\<lparr>session_nodes := (session_nodes c)[0 := rt], session_nodes_count := Suc 0\<rparr>"]
    by (simp add: q_def ota_populate_session_nodes_from_routes_def rts MAX_NODES_def)
  moreover obtain rest where "drop 3 str = CHR ''S'' # rest" using s(1) by (cases "drop 3 str") auto
  ultimately obtain es t where u: "ota_coordinator_handle_uart crc net str st =
      ota_start_admission_begin net (ota_reset_transfer_state file_size (say es (q\<lparr>ota_target_slot := t\<rparr>)))"
    using s by (simp add: ota_coordinator_handle_uart_def uart_start_def Let_def c_def [symmetric] q_def [symmetric])
  define v where "v = (ota_coordinator_handle_uart crc net str st)\<lparr>dist_chunk_idx := Suc (dist_chunk_idx st)\<rparr>"
  have small: "unat file_size < 4096"
    using n(2) i ok by (simp add: coord_ok_def page_ok_def counters_ok_def)
  have "unat (expected_page_size v) = unat file_size"
    using small
    by (simp add: v_def u ota_start_admission_begin_def ota_reset_transfer_state_def PAGE_SIZE_def word_less_nat_alt
        unsigned_ucast_eq take_bit_nat_eq_self)
  then have v: "unat (expected_page_size v) = unat file_size"
    "dist_chunk_idx v = Suc (dist_chunk_idx st)" "total_chunks v = total_chunks st" "page_start_offset v = 0"
    using q by (simp_all only:) (simp_all add: v_def u ota_start_admission_begin_def ota_reset_transfer_state_def)
  have idx: "64 * Suc (dist_chunk_idx st) < 4096" using i ok by (simp add: coord_ok_def page_ok_def counters_ok_def)
  then have a: "unat (chunk_abs_offset v) = 64 * Suc (dist_chunk_idx st)"
    using unat_of_nat_u32 [of "dist_chunk_idx v * 64"] by (simp only: chunk_abs_offset_def v mult.commute) simp
  let ?d = "64 * Suc (dist_chunk_idx st) - unat file_size"
  have gt: "chunk_abs_offset v + 64 > ucast (expected_page_size v)"
    using n(2) idx a unat_plus_u32 [of "chunk_abs_offset v" 64] by (simp add: word_less_nat_alt v)
  have "unat (ucast (expected_page_size v) - chunk_abs_offset v) = 2 ^ 32 - ?d"
    using n(2) idx unfolding unat_sub_if_size by (simp add: a v word_size)
  moreover have "0 < ?d" "?d < 4096" using n idx by simp_all
  moreover have "(2 ^ 32 - ?d) mod 2 ^ 16 = 2 ^ 16 - ?d" if "0 < ?d" "?d < 4096"
  proof -
    have "2 ^ 32 - ?d = (2 ^ 16 - ?d) + (2 ^ 16 - 1) * 2 ^ 16" using that by simp
    then show ?thesis using that by (simp only: mod_mult_self1) simp
  qed
  ultimately have "unat (chunk_len v) > 64"
    using gt by (simp add: chunk_len_def v unsigned_ucast_eq take_bit_eq_mod)
  then have "pc (first_pass net' v) = Undefined"
    using i r by (simp add: first_pass_def first_pass_chunk_def send_paced_def send_chunk_def v Let_def)
  moreover have "pc (ota_coordinator_handle_uart crc net str st) = PaceFirst"
    "dist_chunk_idx (ota_coordinator_handle_uart crc net str st) = dist_chunk_idx st"
    using q by (simp_all add: u ota_start_admission_begin_def ota_reset_transfer_state_def)
  ultimately show ?thesis by (simp add: distribute_resume_def v_def)
qed

definition sample_distributing :: coord_state where
  "sample_distributing =
     coord_initial\<lparr>current_file_size := 4096, expected_page_size := 4096, distribution_in_progress := True,
       ota_target_slot := 1, session_nodes := sample_ip 2 # replicate 15 (replicate 16 0), session_nodes_count := 1,
       pc := PaceFirst, dist_chunk_idx := 2, total_chunks := 64\<rparr>"

theorem start_mid_page_undefined_witness:
  "pc (distribute_resume sample_routes TimerEvent
        (ota_coordinator_handle_uart py_crc16_data sample_routes ''FW:S:00000005:2:B'' sample_distributing)) = Undefined"
proof (rule start_mid_page_undefined [OF _ _ _ _ sample_start_line(1)])
  show "coord_ok sample_distributing"
    by (simp add: coord_ok_def coord_inv_defs sample_distributing_def coord_initial_def list_all_iff PAGE_SIZE_def
        MAX_NODES_def chunk_count_def)
  show "ota_parse_target (Some ''B'') \<noteq> OTA_TARGET_INVALID"
    by (simp add: ota_parse_target_def OTA_SLOT_B_def OTA_TARGET_INVALID_def)
  show "ota_downstream_queue_ready sample_routes"
    by (simp add: ota_downstream_queue_ready_def sample_routes_def line_next_hop_def OTA_QUEUE_MAX_GLOBAL_PENDING_def)
qed (simp_all add: sample_distributing_def sample_routes_def)

end
