(* ===== verification/Uart.thy ===== *)
theory Uart
  imports Coordinator_Inv
begin

text \<open>
  The two ends of the serial line: the command lines \<open>uart_sender.py\<close> writes (without the newline the
  serial-line driver strips) and what the coordinator makes of them.
\<close>

section \<open>The sender\<close>

definition hex_bytes :: "u8 list \<Rightarrow> string" where
  "hex_bytes bs = concat (map (\<lambda>b. to_hex 2 (unat b)) bs)"

definition py_start_line :: "nat \<Rightarrow> string \<Rightarrow> string \<Rightarrow> string" where
  "py_start_line file_size image_sec_ver target =
     ''FW:S:'' @ to_hex 8 file_size @ '':'' @ image_sec_ver @ '':'' @ target"

definition py_data_line :: "nat \<Rightarrow> u8 list \<Rightarrow> string" where
  "py_data_line chunk_offset chunk =
     ''FW:D:'' @ to_hex 8 chunk_offset @ '':'' @ to_hex 4 (length chunk) @ '':'' @ hex_bytes chunk"

definition py_verify_line :: "nat \<Rightarrow> string" where
  "py_verify_line checksum = ''FW:V:'' @ to_hex 8 checksum"

text \<open>The chunks of a page: 32 bytes each, the last one what is left.\<close>

function py_page_lines :: "nat \<Rightarrow> u8 list \<Rightarrow> string list" where
  "py_page_lines offset bytes =
     (if bytes = [] then [] else py_data_line offset (take 32 bytes) # py_page_lines (offset + 32) (drop 32 bytes))"
  by auto
termination by (relation "measure (\<lambda>(offset, bytes). length bytes)") auto

declare py_page_lines.simps [simp del]

section \<open>Decoding\<close>

lemma hex_bytes_simps [simp]:
  "hex_bytes [] = ''''" "hex_bytes (b # bs) = hex_digit (unat b div 16 mod 16) # hex_digit (unat b mod 16) # hex_bytes bs"
  by (simp_all add: hex_bytes_def numeral_2_eq_2)

lemma length_hex_bytes [simp]: "length (hex_bytes bs) = 2 * length bs"
  by (induction bs) simp_all

lemma hex_bytes_not_space: "c \<in> set (hex_bytes bs) \<Longrightarrow> \<not> isspace c"
  by (auto simp: hex_bytes_def dest!: to_hex_is_digit dest: digit_not_special(1))

lemma hex2val_hex_digit: "d < 16 \<Longrightarrow> hex2val (hex_digit d) = of_nat d"
  by (auto simp: hex2val_def hex_digit_def Let_def)

lemma hex_pair: "push_bit 4 (hex2val (hex_digit (unat b div 16 mod 16))) OR hex2val (hex_digit (unat b mod 16)) = (b :: u8)"
proof -
  have b: "unat b < 256" using unat_u8_less [of b] by simp
  have "push_bit 4 (of_nat (unat b div 16 mod 16)) OR of_nat (unat b mod 16) = (b :: u8)"
  proof -
    have "unat b div 16 mod 16 = unat b div 16" using b by simp
    moreover have "of_nat (unat b div 16) = drop_bit 4 b"
      using b by (simp add: word_unat_eq_iff drop_bit_eq_div unat_of_nat take_bit_eq_mod unat_div)
    moreover have "of_nat (unat b mod 16) = take_bit 4 b"
      using b by (simp add: word_unat_eq_iff unat_of_nat take_bit_eq_mod unat_mod)
    moreover have "push_bit 4 (drop_bit 4 b) OR take_bit 4 b = b"
      by (rule bit_word_eqI) (auto simp: bit_simps)
    ultimately show ?thesis by simp
  qed
  then show ?thesis by (simp add: hex2val_hex_digit)
qed

lemma hex_bytes_nth:
  "i < length bs \<Longrightarrow>
     push_bit 4 (hex2val (hex_bytes bs ! (i * 2))) OR hex2val (hex_bytes bs ! (i * 2 + 1)) = bs ! i"
proof (induction bs arbitrary: i)
  case (Cons b bs)
  then show ?case by (cases i) (simp_all add: hex_pair)
qed simp

lemma decode_hex_bytes:
  assumes "rel + length bs \<le> length buf"
  shows "decode_hex rel (length bs) (hex_bytes bs) buf = take rel buf @ bs @ drop (rel + length bs) buf"
proof -
  have "fold (\<lambda>i buf. buf[rel + i := push_bit 4 (hex2val (hex_bytes bs ! (i * 2))) OR hex2val (hex_bytes bs ! (i * 2 + 1))])
       [0..<k] buf = take rel buf @ take k bs @ drop (rel + k) buf" if "k \<le> length bs" for k
    using that
  proof (induction k)
    case (Suc k)
    then have "drop (rel + k) buf = buf ! (rel + k) # drop (Suc (rel + k)) buf"
      using assms by (simp add: Cons_nth_drop_Suc)
    with Suc assms show ?case
      by (simp add: hex_bytes_nth [simplified] list_update_append take_Suc_conv_app_nth)
  qed simp
  from this [of "length bs"] show ?thesis by (simp add: decode_hex_def)
qed

lemma scan_py_data_line:
  assumes "offset < 2 ^ 32" "chunk \<noteq> []" "length chunk \<le> 64"
  shows "scan_data_command (py_data_line offset chunk) = Some (of_nat offset, of_nat (length chunk), hex_bytes chunk)"
proof -
  have 1: "scan_x (to_hex 8 offset @ CHR '':'' # r) = Some (of_nat offset, CHR '':'' # r)" for r
    using assms(1) by (intro scan_x_to_hex) simp_all
  have 2: "scan_x (to_hex 4 (length chunk) @ CHR '':'' # r) = Some (of_nat (length chunk), CHR '':'' # r)" for r
    using assms(3) by (intro scan_x_to_hex) simp_all
  have 3: "scan_s 128 (hex_bytes chunk) = Some (hex_bytes chunk, [])"
  proof -
    have "hex_bytes chunk \<noteq> []" using assms(2) length_hex_bytes [of chunk] by (metis length_0_conv mult_eq_0_iff numeral_neq_zero)
    from scan_s_word [OF this, of 128 "[]"] show ?thesis using assms(3) hex_bytes_not_space by simp
  qed
  show ?thesis
    unfolding scan_data_command_def py_data_line_def scan_literal_append by (simp add: 1 2 3)
qed

section \<open>A chunk at the coordinator\<close>

text \<open>When UART data is taken: nodes were admitted, the window is closed and no page is on its way.\<close>

definition takes_data :: "coord_state \<Rightarrow> bool" where
  "takes_data st \<longleftrightarrow>
     coord_ok st \<and> \<not> start_admission_in_progress st \<and> 0 < session_nodes_count st \<and> \<not> distribution_in_progress st"

definition write_at :: "nat \<Rightarrow> u8 list \<Rightarrow> u8 list \<Rightarrow> u8 list" where
  "write_at rel chunk buf = take rel buf @ chunk @ drop (rel + length chunk) buf"

definition chunk_stored :: "nat \<Rightarrow> u8 list \<Rightarrow> coord_state \<Rightarrow> coord_state" where
  "chunk_stored rel chunk st =
     say [Uart ''FW:ACK'']
       (st\<lparr>page_buffer := write_at rel chunk (page_buffer st),
          page_bytes_received := page_bytes_received st + of_nat (length chunk)\<rparr>)"

lemma uart_data_line:
  "ota_coordinator_handle_uart crc net (py_data_line off chunk) st = uart_data crc net (py_data_line off chunk) st"
  by (simp add: ota_coordinator_handle_uart_def py_data_line_def)

lemma uart_chunk:
  assumes ready: "takes_data st" and c: "chunk \<noteq> []" "length chunk \<le> 64"
    and r: "rel + length chunk \<le> unat (expected_page_size st)"
  shows "ota_coordinator_handle_uart crc net (py_data_line (unat (page_start_offset st) + rel) chunk) st =
    (if page_bytes_received st + of_nat (length chunk) = expected_page_size st
     then start_distribute crc net ((chunk_stored rel chunk st)\<lparr>distribution_in_progress := True\<rparr>)
     else chunk_stored rel chunk st)"
proof -
  let ?p = "page_start_offset st" and ?off = "unat (page_start_offset st) + rel"
  have t: "transfer_ok st" and buf: "length (page_buffer st) = 4096" and e: "unat (expected_page_size st) \<le> 4096"
    using ready by (simp_all add: takes_data_def coord_ok_def page_ok_def session_ok_def transfer_ok_def PAGE_SIZE_def)
  have c0: "0 < length chunk" using c(1) by simp
  have lt: "?off < 2 ^ 32" using transfer_ok_no_wrap [OF t] r by simp
  define o32 where "o32 = (of_nat ?off :: u32)"
  have uo: "unat o32 = ?off" unfolding o32_def by (rule unat_of_nat_u32 [OF lt])
  have ge: "o32 \<ge> ?p" by (simp add: word_le_nat_alt uo)
  have in_page: "o32 < ?p + ucast (expected_page_size st)"
    using r c0 by (simp only: word_less_nat_alt uo page_end_unat [OF t])
  have ur: "unat (o32 - ?p) = rel" using unat_sub [OF ge] by (simp add: uo)
  have ul: "unat (of_nat (length chunk) :: u32) = length chunk" using c(2) by (intro unat_of_nat_u32) simp
  have fits: "o32 - ?p + of_nat (length chunk) \<le> ucast (expected_page_size st)"
    using r e unat_plus_u32 [of "o32 - ?p" "of_nat (length chunk)"] by (simp add: word_le_nat_alt ur ul)
  have len: "of_nat (length (hex_bytes chunk)) = of_nat (length chunk) * (2 :: u32)"
    by (simp add: mult.commute)
  have "decode_hex rel (length chunk) (hex_bytes chunk) (page_buffer st) = write_at rel chunk (page_buffer st)"
    using r e buf by (simp add: decode_hex_bytes write_at_def)
  moreover have "ucast (of_nat (length chunk) :: u32) = (of_nat (length chunk) :: u16)"
    using c(2) by (simp add: word_unat_eq_iff unsigned_ucast_eq ul unat_of_nat take_bit_eq_mod)
  ultimately have store: "store_chunk (o32 - ?p) (of_nat (length chunk)) (hex_bytes chunk) st = chunk_stored rel chunk st"
    by (simp add: store_chunk_def chunk_stored_def ur ul)
  have stored: "page_bytes_received (chunk_stored rel chunk st) = page_bytes_received st + of_nat (length chunk)"
    "expected_page_size (chunk_stored rel chunk st) = expected_page_size st"
    by (simp_all add: chunk_stored_def)
  have scan: "scan_data_command (py_data_line ?off chunk) = Some (o32, of_nat (length chunk), hex_bytes chunk)"
    unfolding o32_def by (rule scan_py_data_line [OF lt c])
  then show ?thesis
    using ready ge in_page fits len
    by (simp add: uart_data_line uart_data_def scan takes_data_def ota_start_admission_is_in_progress_def Let_def
        store stored del: length_hex_bytes)
qed

text \<open>A chunk the sender transmits is stored as sent. While the coordinator takes data, the line
  \<open>uart_sender.py\<close> prints for up to 64 bytes anywhere inside the expected page is acknowledged, and
  the page buffer then holds exactly those bytes at that position and is otherwise unchanged; the
  number of received bytes grows by the length of the chunk, and the distribution of the page
  starts when it reaches the size of the page.\<close>

theorem uart_chunk_stored:
  assumes "takes_data st" "chunk \<noteq> []" "length chunk \<le> 64" "rel + length chunk \<le> unat (expected_page_size st)"
  shows "ota_coordinator_handle_uart crc net (py_data_line (unat (page_start_offset st) + rel) chunk) st =
    (let st' = say [Uart ''FW:ACK'']
         (st\<lparr>page_buffer := take rel (page_buffer st) @ chunk @ drop (rel + length chunk) (page_buffer st),
            page_bytes_received := page_bytes_received st + of_nat (length chunk)\<rparr>)
     in if page_bytes_received st' = expected_page_size st
        then start_distribute crc net (st'\<lparr>distribution_in_progress := True\<rparr>) else st')"
  using uart_chunk [OF assms] by (simp add: chunk_stored_def write_at_def Let_def)

section \<open>A whole page\<close>

text \<open>The chunks of a page with their positions in it.\<close>

function page_split :: "nat \<Rightarrow> u8 list \<Rightarrow> (nat \<times> u8 list) list" where
  "page_split rel bytes = (if bytes = [] then [] else (rel, take 32 bytes) # page_split (rel + 32) (drop 32 bytes))"
  by auto
termination by (relation "measure (\<lambda>(rel, bytes). length bytes)") auto

declare page_split.simps [simp del]

lemma py_page_lines_split:
  "py_page_lines (p + rel) bytes = map (\<lambda>(r, c). py_data_line (p + r) c) (page_split rel bytes)"
proof (induction rel bytes rule: page_split.induct)
  case (1 rel bytes)
  then show ?case by (simp add: py_page_lines.simps [of "p + rel"] page_split.simps [of rel] add.assoc)
qed

definition send_chunks where
  "send_chunks crc net p cs = fold (\<lambda>(r, c). ota_coordinator_handle_uart crc net (py_data_line (p + r) c)) cs"

definition write_chunks :: "(nat \<times> u8 list) list \<Rightarrow> u8 list \<Rightarrow> u8 list" where
  "write_chunks cs = fold (\<lambda>(r, c). write_at r c) cs"

definition chunks_size :: "(nat \<times> u8 list) list \<Rightarrow> nat" where
  "chunks_size cs = sum_list (map (length \<circ> snd) cs)"

definition chunk_fits :: "nat \<Rightarrow> nat \<times> u8 list \<Rightarrow> bool" where
  "chunk_fits e rc \<longleftrightarrow> snd rc \<noteq> [] \<and> length (snd rc) \<le> 64 \<and> fst rc + length (snd rc) \<le> e"

lemma chunk_stored_keeps:
  assumes "takes_data st" "chunk_fits (unat (expected_page_size st)) (r, c)"
  shows "takes_data (chunk_stored r c st)" "expected_page_size (chunk_stored r c st) = expected_page_size st"
    "page_start_offset (chunk_stored r c st) = page_start_offset st"
proof -
  have "length (write_at r c (page_buffer st)) = PAGE_SIZE"
    using assms by (simp add: write_at_def takes_data_def chunk_fits_def coord_ok_def coord_inv_defs)
  then show "takes_data (chunk_stored r c st)"
    using assms by (simp add: takes_data_def chunk_stored_def coord_ok_def coord_inv_defs)
qed (simp_all add: chunk_stored_def)

text \<open>As long as the sizes do not add up to the page, the chunks are stored one after the other.\<close>

lemma send_chunks_short:
  assumes "takes_data st" "list_all (chunk_fits (unat (expected_page_size st))) cs"
    and "unat (page_bytes_received st) + chunks_size cs < unat (expected_page_size st)"
  shows "send_chunks crc net (unat (page_start_offset st)) cs st =
      st\<lparr>page_buffer := write_chunks cs (page_buffer st),
         page_bytes_received := page_bytes_received st + of_nat (chunks_size cs),
         effects := effects st @ replicate (length cs) (Uart ''FW:ACK'')\<rparr> \<and>
    takes_data (send_chunks crc net (unat (page_start_offset st)) cs st)"
  using assms
proof (induction cs arbitrary: st)
  case Nil
  then show ?case by (simp add: send_chunks_def write_chunks_def chunks_size_def)
next
  case (Cons rc cs)
  obtain r c where rc: "rc = (r, c)" by (cases rc)
  have fit: "chunk_fits (unat (expected_page_size st)) (r, c)" using Cons.prems(2) by (simp add: rc)
  have sz: "chunks_size (rc # cs) = length c + chunks_size cs" by (simp add: chunks_size_def rc)
  let ?s = "chunk_stored r c st"
  note k = chunk_stored_keeps [OF Cons.prems(1) fit]
  have small: "unat (expected_page_size st) < 2 ^ 16" by (rule unat_u16_less)
  have u: "unat (page_bytes_received st + of_nat (length c)) = unat (page_bytes_received st) + length c"
    using Cons.prems(3) small unfolding sz by (simp add: unat_word_ariths unat_of_nat take_bit_eq_mod)
  then have ne: "page_bytes_received st + of_nat (length c) \<noteq> expected_page_size st"
    using Cons.prems(3) unfolding sz by auto
  have step: "ota_coordinator_handle_uart crc net (py_data_line (unat (page_start_offset st) + r) c) st = ?s"
    using uart_chunk [OF Cons.prems(1), of c r] fit ne by (simp add: chunk_fits_def)
  have rec: "unat (page_bytes_received ?s) = unat (page_bytes_received st) + length c"
    by (simp add: chunk_stored_def u)
  have sc: "send_chunks crc net (unat (page_start_offset st)) (rc # cs) st =
      send_chunks crc net (unat (page_start_offset ?s)) cs ?s"
    by (simp add: send_chunks_def rc step k(3))
  have "list_all (chunk_fits (unat (expected_page_size ?s))) cs"
    "unat (page_bytes_received ?s) + chunks_size cs < unat (expected_page_size ?s)"
    using Cons.prems(2,3) unfolding rec k(2) sz by simp_all
  note IH = Cons.IH [OF k(1) this]
  have "takes_data (send_chunks crc net (unat (page_start_offset st)) (rc # cs) st)"
    unfolding sc using IH by (rule conjunct2)
  moreover have "send_chunks crc net (unat (page_start_offset st)) (rc # cs) st =
      st\<lparr>page_buffer := write_chunks (rc # cs) (page_buffer st),
         page_bytes_received := page_bytes_received st + of_nat (chunks_size (rc # cs)),
         effects := effects st @ replicate (length (rc # cs)) (Uart ''FW:ACK'')\<rparr>"
    unfolding sc sz conjunct1 [OF IH] by (simp add: chunk_stored_def write_chunks_def rc say_def add.assoc)
  ultimately show ?case by (rule conjI [rotated])
qed

text \<open>The chunk whose size completes the page starts the distribution.\<close>

lemma send_chunks_page:
  assumes "takes_data st" "list_all (chunk_fits (unat (expected_page_size st))) (cs @ [(r, c)])"
    and "page_bytes_received st = 0" "chunks_size cs + length c = unat (expected_page_size st)"
  shows "send_chunks crc net (unat (page_start_offset st)) (cs @ [(r, c)]) st =
      start_distribute crc net
        (st\<lparr>page_buffer := write_chunks (cs @ [(r, c)]) (page_buffer st), page_bytes_received := expected_page_size st,
           effects := effects st @ replicate (Suc (length cs)) (Uart ''FW:ACK''), distribution_in_progress := True\<rparr>)"
proof -
  let ?s = "send_chunks crc net (unat (page_start_offset st)) cs st"
  have c: "c \<noteq> []" "length c \<le> 64" "r + length c \<le> unat (expected_page_size st)"
    using assms(2) by (simp_all add: chunk_fits_def)
  have "unat (page_bytes_received st) + chunks_size cs < unat (expected_page_size st)"
    using assms(3,4) c(1) by (cases c) simp_all
  note short = send_chunks_short [OF assms(1) _ this, of crc net]
  have s: "?s = st\<lparr>page_buffer := write_chunks cs (page_buffer st), page_bytes_received := of_nat (chunks_size cs),
         effects := effects st @ replicate (length cs) (Uart ''FW:ACK'')\<rparr>" "takes_data ?s"
    using conjunct1 [OF short] conjunct2 [OF short] assms(2,3) by (simp_all only: list_all_append simp_thms add_0)
  have "of_nat (chunks_size cs) + of_nat (length c) = expected_page_size st"
    using arg_cong [OF assms(4), of "of_nat :: nat \<Rightarrow> u16"] by simp
  then show ?thesis
    using uart_chunk [OF s(2) c(1,2), of r crc net] c(3)
    unfolding s(1) by (simp add: send_chunks_def s(1) [unfolded send_chunks_def] chunk_stored_def write_chunks_def say_def
        replicate_append_same)
qed

lemma write_at_append:
  "r + length a + length b \<le> length buf \<Longrightarrow> write_at (r + length a) b (write_at r a buf) = write_at r (a @ b) buf"
  by (simp add: write_at_def ac_simps)

lemma page_split_facts:
  "rel + length bytes \<le> e \<Longrightarrow> list_all (chunk_fits e) (page_split rel bytes)"
  "chunks_size (page_split rel bytes) = length bytes"
  "length (page_split rel bytes) = (length bytes + 31) div 32"
proof (induction rel bytes rule: page_split.induct)
  case (1 rel bytes)
  show "list_all (chunk_fits e) (page_split rel bytes)" if "rel + length bytes \<le> e"
  proof (cases "length bytes \<le> 32")
    case True
    then show ?thesis
      using that by (cases "bytes = []") (simp_all add: page_split.simps [of rel] page_split.simps [of "rel + 32"] chunk_fits_def)
  next
    case False
    then have "bytes \<noteq> []" "chunk_fits e (rel, take 32 bytes)" using that by (auto simp: chunk_fits_def)
    then show ?thesis using 1(1) that False by (subst page_split.simps) simp
  qed
  show "chunks_size (page_split rel bytes) = length bytes"
    using 1(2) by (subst page_split.simps) (simp add: chunks_size_def min_def)
  show "length (page_split rel bytes) = (length bytes + 31) div 32"
  proof (cases "length bytes \<le> 32")
    case True
    then show ?thesis
      by (cases "bytes = []"; cases "length bytes") (simp_all add: page_split.simps [of rel] page_split.simps [of "rel + 32"])
  next
    case False
    then have "length bytes + 31 = 32 + (length bytes - 32 + 31)" by simp
    then have "(length bytes + 31) div 32 = Suc ((length bytes - 32 + 31) div 32)" by (simp add: div_add_self1)
    moreover have "bytes \<noteq> []" using False by auto
    ultimately show ?thesis using 1(3) by (subst page_split.simps) simp
  qed
qed

lemma write_page_split:
  "rel + length bytes \<le> length buf \<Longrightarrow> write_chunks (page_split rel bytes) buf = write_at rel bytes buf"
proof (induction rel bytes arbitrary: buf rule: page_split.induct)
  case (1 rel bytes)
  show ?case
  proof (cases "length bytes \<le> 32")
    case True
    then show ?thesis
      by (cases "bytes = []") (simp_all add: page_split.simps [of rel] page_split.simps [of "rel + 32"] write_chunks_def write_at_def)
  next
    case False
    have l: "length (write_at rel (take 32 bytes) buf) = length buf" using 1(2) False by (simp add: write_at_def)
    have "bytes \<noteq> []" using False by auto
    then have "write_chunks (page_split rel bytes) buf = write_at (rel + 32) (drop 32 bytes) (write_at rel (take 32 bytes) buf)"
      using 1(1) [of "write_at rel (take 32 bytes) buf"] 1(2) False l
      by (subst page_split.simps) (simp add: write_chunks_def)
    also have "\<dots> = write_at rel bytes buf"
      using write_at_append [of rel "take 32 bytes" "drop 32 bytes" buf] 1(2) False by simp
    finally show ?thesis .
  qed
qed

lemma fold_page_lines:
  "fold (ota_coordinator_handle_uart crc net) (py_page_lines p bytes) st = send_chunks crc net p (page_split 0 bytes) st"
  using py_page_lines_split [of p 0 bytes] by (simp add: send_chunks_def fold_map comp_def case_prod_unfold)

lemma page_lines_assembled:
  assumes ready: "takes_data st" and zero: "page_bytes_received st = 0"
    and len: "length bytes = unat (expected_page_size st)" "bytes \<noteq> []"
  shows "fold (ota_coordinator_handle_uart crc net) (py_page_lines (unat (page_start_offset st)) bytes) st =
    start_distribute crc net
      (st\<lparr>page_buffer := bytes @ drop (length bytes) (page_buffer st), page_bytes_received := expected_page_size st,
         effects := effects st @ replicate ((length bytes + 31) div 32) (Uart ''FW:ACK''),
         distribution_in_progress := True\<rparr>)"
proof -
  have "page_split 0 bytes \<noteq> []" using len(2) by (subst page_split.simps) simp
  then obtain cs r c where s: "page_split 0 bytes = cs @ [(r, c)]" by (metis rev_exhaust surj_pair)
  have "length (page_buffer st) = 4096" "unat (expected_page_size st) \<le> 4096"
    using ready by (simp_all add: takes_data_def coord_ok_def coord_inv_defs PAGE_SIZE_def)
  then have w: "write_chunks (page_split 0 bytes) (page_buffer st) = write_at 0 bytes (page_buffer st)"
    using len by (intro write_page_split) simp
  have "chunks_size cs + length c = unat (expected_page_size st)"
    using page_split_facts(2) [of 0 bytes] len(1) unfolding s by (simp add: chunks_size_def)
  moreover have "list_all (chunk_fits (unat (expected_page_size st))) (cs @ [(r, c)])"
    using page_split_facts(1) [of 0 bytes] len(1) unfolding s by simp
  moreover have "Suc (length cs) = (length bytes + 31) div 32"
    using page_split_facts(3) [of 0 bytes] unfolding s by simp
  ultimately show ?thesis
    unfolding fold_page_lines s using send_chunks_page [OF ready _ zero, of cs r c crc net] w [unfolded s]
    by (simp add: write_at_def)
qed

text \<open>A page arrives at the coordinator as the sender read it from the file: when all lines the sender
  prints for the bytes of the expected page have been handled, every chunk was acknowledged, the page
  buffer begins with exactly these bytes, and the distribution process is started on it.\<close>

theorem uart_page_assembled:
  assumes ready: "takes_data st" and zero: "page_bytes_received st = 0"
    and len: "length bytes = unat (expected_page_size st)" "bytes \<noteq> []"
  shows "fold (ota_coordinator_handle_uart crc net) (py_page_lines (unat (page_start_offset st)) bytes) st =
    start_distribute crc net
      (st\<lparr>page_buffer := bytes @ drop (length bytes) (page_buffer st), page_bytes_received := expected_page_size st,
         effects := effects st @ replicate ((length bytes + 31) div 32) (Uart ''FW:ACK''),
         distribution_in_progress := True\<rparr>)"
  by (rule page_lines_assembled [OF assms])

lemma repeated_chunk_result:
  assumes ready: "takes_data st" and zero: "page_bytes_received st = 0"
    and len: "length bytes = unat (expected_page_size st)" "64 \<le> length bytes"
  defines "n \<equiv> length bytes - 32"
  shows "fold (ota_coordinator_handle_uart crc net)
      (py_data_line (unat (page_start_offset st)) (take 32 bytes) # py_page_lines (unat (page_start_offset st)) (take n bytes)) st =
    start_distribute crc net
      (st\<lparr>page_buffer := take n bytes @ drop n (page_buffer st), page_bytes_received := expected_page_size st,
         effects := effects st @ replicate (Suc ((n + 31) div 32)) (Uart ''FW:ACK''), distribution_in_progress := True\<rparr>)"
proof -
  let ?cs = "(0, take 32 bytes) # page_split 0 (take n bytes)"
  have n: "32 \<le> n" "n \<le> length bytes" using len by (simp_all add: n_def)
  then have "take n bytes \<noteq> []" by auto
  then have "page_split 0 (take n bytes) \<noteq> []" by (subst page_split.simps) simp
  then obtain cs r c where s: "?cs = cs @ [(r, c)]" by (metis list.distinct(1) rev_exhaust surj_pair)
  have buf: "length (page_buffer st) = 4096" "unat (expected_page_size st) \<le> 4096"
    using ready by (simp_all add: takes_data_def coord_ok_def coord_inv_defs PAGE_SIZE_def)
  have "write_chunks ?cs (page_buffer st) = write_chunks (page_split 0 (take n bytes)) (write_at 0 (take 32 bytes) (page_buffer st))"
    by (simp add: write_chunks_def)
  also have "\<dots> = write_at 0 (take n bytes) (write_at 0 (take 32 bytes) (page_buffer st))"
    using buf len n by (intro write_page_split) (simp add: write_at_def)
  also have "\<dots> = take n bytes @ drop n (page_buffer st)" using n len by (simp add: write_at_def)
  finally have w: "write_chunks (cs @ [(r, c)]) (page_buffer st) = take n bytes @ drop n (page_buffer st)"
    unfolding s .
  have "chunks_size (cs @ [(r, c)]) = unat (expected_page_size st)"
    unfolding s [symmetric] using page_split_facts(2) [of 0 "take n bytes"] len n by (simp add: chunks_size_def n_def)
  then have "chunks_size cs + length c = unat (expected_page_size st)" by (simp add: chunks_size_def)
  moreover have "list_all (chunk_fits (unat (expected_page_size st))) (cs @ [(r, c)])"
    unfolding s [symmetric] using page_split_facts(1) [of 0 "take n bytes"] len n by (auto simp: chunk_fits_def)
  moreover have "Suc (length cs) = Suc ((n + 31) div 32)"
    using arg_cong [OF s, of length] page_split_facts(3) [of 0 "take n bytes"] n by simp
  ultimately have "send_chunks crc net (unat (page_start_offset st)) ?cs st =
      start_distribute crc net
        (st\<lparr>page_buffer := take n bytes @ drop n (page_buffer st), page_bytes_received := expected_page_size st,
           effects := effects st @ replicate (Suc ((n + 31) div 32)) (Uart ''FW:ACK''), distribution_in_progress := True\<rparr>)"
    unfolding s using send_chunks_page [OF ready _ zero, of cs r c crc net] w by simp
  moreover have "fold (ota_coordinator_handle_uart crc net)
      (py_data_line (unat (page_start_offset st)) (take 32 bytes) # py_page_lines (unat (page_start_offset st)) (take n bytes)) st =
      send_chunks crc net (unat (page_start_offset st)) ?cs st"
    by (simp add: fold_page_lines [unfolded send_chunks_def] send_chunks_def)
  ultimately show ?thesis by metis
qed

text \<open>A repeated chunk counts twice. If the sender repeats the first chunk of a page, as it does when
  the acknowledgement is late, the received bytes reach the page size one chunk too early: the
  distribution starts with the last 32 bytes of the page buffer left over from the previous page.\<close>

theorem repeated_chunk_starts_early:
  assumes ready: "takes_data st" and zero: "page_bytes_received st = 0"
    and len: "length bytes = unat (expected_page_size st)" "64 \<le> length bytes"
  defines "n \<equiv> length bytes - 32"
  shows "\<exists>es. fold (ota_coordinator_handle_uart crc net)
      (py_data_line (unat (page_start_offset st)) (take 32 bytes) # py_page_lines (unat (page_start_offset st)) (take n bytes)) st =
    start_distribute crc net
      (st\<lparr>page_buffer := take n bytes @ drop n (page_buffer st), page_bytes_received := expected_page_size st,
         effects := es, distribution_in_progress := True\<rparr>)"
  unfolding n_def using repeated_chunk_result [OF assms(1-4)] by blast

section \<open>A coordinator that takes data\<close>

definition sample_taking :: coord_state where
  "sample_taking =
     coord_initial\<lparr>current_file_size := 96, expected_page_size := 96, ota_target_slot := 1,
       session_nodes := sample_ip 2 # replicate 15 (replicate 16 0), session_nodes_count := 1\<rparr>"

lemma sample_taking_ready: "takes_data sample_taking"
  by (simp add: takes_data_def coord_ok_def coord_inv_defs sample_taking_def coord_initial_def list_all_iff
      PAGE_SIZE_def MAX_NODES_def)

lemma sample_taking_fields:
  "page_start_offset sample_taking = 0" "page_bytes_received sample_taking = 0" "expected_page_size sample_taking = 96"
  "page_buffer sample_taking = replicate 4096 0" "effects sample_taking = []"
  by (simp_all add: sample_taking_def coord_initial_def PAGE_SIZE_def)

theorem uart_chunk_stored_witness:
  "page_buffer (ota_coordinator_handle_uart py_crc16_data sample_routes (py_data_line 1 [0xAB, 0xCD]) sample_taking) =
     0 # 0xAB # 0xCD # replicate 4093 0"
proof -
  have "[0xAB, 0xCD :: u8] \<noteq> []" "length [0xAB, 0xCD :: u8] \<le> 64"
    "1 + length [0xAB, 0xCD :: u8] \<le> unat (expected_page_size sample_taking)"
    by (simp_all add: sample_taking_fields)
  from uart_chunk_stored [OF sample_taking_ready this, of py_crc16_data sample_routes]
  show ?thesis by (simp add: sample_taking_fields Let_def)
qed

theorem uart_page_assembled_witness:
  "fold (ota_coordinator_handle_uart py_crc16_data sample_routes) (py_page_lines 0 (replicate 96 7)) sample_taking =
    start_distribute py_crc16_data sample_routes
      (sample_taking\<lparr>page_buffer := replicate 96 7 @ replicate 4000 0, page_bytes_received := 96,
         effects := replicate 3 (Uart ''FW:ACK''), distribution_in_progress := True\<rparr>)"
  using uart_page_assembled [OF sample_taking_ready sample_taking_fields(2), of "replicate 96 7" py_crc16_data sample_routes]
  by (simp add: sample_taking_fields)

theorem repeated_chunk_starts_early_witness:
  "\<exists>es. fold (ota_coordinator_handle_uart py_crc16_data sample_routes)
      (py_data_line 0 (replicate 32 7) # py_page_lines 0 (replicate 64 7)) sample_taking =
    start_distribute py_crc16_data sample_routes
      (sample_taking\<lparr>page_buffer := replicate 64 7 @ replicate 4032 0, page_bytes_received := 96,
         effects := es, distribution_in_progress := True\<rparr>)"
  using repeated_chunk_starts_early [OF sample_taking_ready sample_taking_fields(2), of "replicate 96 7" py_crc16_data sample_routes]
  by (simp add: sample_taking_fields)

end
