(* ===== verification/Distribution.thy ===== *)
theory Distribution
  imports Uart
begin

text \<open>
  What the distribution process sends. A pass over the page is described by the packets that go out:
  the chunks of the page in order, then PAGE_END; in a recovery round the chunks some node misses.
\<close>

section \<open>Packets sent\<close>

fun send_of :: "effect \<Rightarrow> (ipaddr \<times> u8 list) option" where
  "send_of (SendTo ip bs) = Some (ip, bs)"
| "send_of _ = None"

definition sends :: "effect list \<Rightarrow> (ipaddr \<times> u8 list) list" where
  "sends es = List.map_filter send_of es"

lemma sends_simps [simp]:
  "sends [] = []" "sends (es @ es') = sends es @ sends es'"
  "sends (SendTo ip bs # es) = (ip, bs) # sends es" "sends (SetTimer tm n # es) = sends es"
  "sends (StopTimer tm # es) = sends es" "sends (PostBitmapReceived # es) = sends es" "sends (Uart s # es) = sends es"
  by (simp_all add: sends_def map_filter_def)

text \<open>The network at a moment when the queue is short and the next hop is known.\<close>

definition ready_hop :: "ipaddr \<Rightarrow> net_env \<Rightarrow> bool" where
  "ready_hop hop net \<longleftrightarrow> ota_downstream_queue_ready net \<and> line_next_hop net = Some hop"

definition chunk_bytes :: "coord_state \<Rightarrow> nat \<Rightarrow> u8 list" where
  "chunk_bytes st i =
     (let st = st\<lparr>dist_chunk_idx := i\<rparr>
      in take (FW_PACKET_HEADER_LEN + unat (chunk_len st)) (fw_packet_bytes (chunk_packet st)))"

definition page_end_bytes :: "coord_state \<Rightarrow> u8 list" where
  "page_end_bytes st =
     take FW_PACKET_HEADER_LEN (fw_packet_bytes
       \<lparr>pk_type = PKT_TYPE_PAGE_END, pk_offset = page_start_offset st, pk_length = page_crc st,
        pk_target_slot = ota_target_slot st, pk_data = (\<lambda>_. 0)\<rparr>)"

text \<open>The prepared packet is the PAGE_END of the page.\<close>

definition end_ready :: "coord_state \<Rightarrow> bool" where
  "end_ready c \<longleftrightarrow> take FW_PACKET_HEADER_LEN (fw_packet_bytes (end_pkt c)) = page_end_bytes c"

lemma header_bytes:
  "take FW_PACKET_HEADER_LEN (fw_packet_bytes p) =
     pk_type p # le32 (pk_offset p) @ le16 (pk_length p) @ [pk_target_slot p]"
  by (simp add: fw_packet_bytes_def FW_PACKET_HEADER_LEN_def take_Cons')

lemma chunk_bytes_cong:
  "page_start_offset st = page_start_offset st' \<Longrightarrow> expected_page_size st = expected_page_size st' \<Longrightarrow>
   ota_target_slot st = ota_target_slot st' \<Longrightarrow> page_buffer st = page_buffer st' \<Longrightarrow>
   chunk_bytes st i = chunk_bytes st' i"
proof -
  assume eq: "page_start_offset st = page_start_offset st'" "expected_page_size st = expected_page_size st'"
    "ota_target_slot st = ota_target_slot st'" "page_buffer st = page_buffer st'"
  let ?s = "st\<lparr>dist_chunk_idx := i\<rparr>" and ?s' = "st'\<lparr>dist_chunk_idx := i\<rparr>"
  have a: "chunk_abs_offset ?s = chunk_abs_offset ?s'" by (simp add: chunk_abs_offset_def eq)
  have l: "chunk_len ?s = chunk_len ?s'" unfolding chunk_len_def a by (simp add: eq)
  have "chunk_packet ?s = chunk_packet ?s'" unfolding chunk_packet_def a l by (simp add: eq cong: if_cong)
  then show ?thesis by (simp only: chunk_bytes_def Let_def l)
qed

abbreviation (input) timer_run where
  "timer_run nets \<equiv> fold (\<lambda>net. distribute_resume net TimerEvent) nets"

lemma send_paced_sends:
  assumes "page_ok st" "running_ok st" "dist_chunk_idx st < total_chunks st" "pc st \<noteq> Undefined" "line_next_hop net = Some hop"
  shows "\<exists>es. send_paced net ms k st = st\<lparr>pc := k, effects := effects st @ es\<rparr> \<and>
    sends es = [(hop, chunk_bytes st (dist_chunk_idx st))]"
  using assms
  by (intro exI [of _ "[SendTo hop (chunk_bytes st (dist_chunk_idx st)), SetTimer DistTimer (ms_to_ticks net ms)]"])
    (simp add: send_paced_eq say_def send_packet_def send_to_all_def chunk_bytes_def)

text \<open>The first pass, one timer event per chunk.\<close>

lemma first_pass_run:
  assumes "page_ok st" "running_ok st" "pc st \<noteq> Undefined" "dist_chunk_idx st \<le> total_chunks st"
    and "length nets = total_chunks st - dist_chunk_idx st" "list_all (ready_hop hop) (net # nets)"
  shows "\<exists>es k. timer_run nets (first_pass net st) =
      recovery_head (last (net # nets))
        (st\<lparr>dist_chunk_idx := total_chunks st, pc := k, recovery_round := 0, effects := effects st @ es\<rparr>) \<and>
    k \<noteq> Undefined \<and>
    sends es = map (\<lambda>i. (hop, chunk_bytes st i)) [dist_chunk_idx st..<total_chunks st]"
  using assms
proof (induction nets arbitrary: net st)
  case Nil
  then have "dist_chunk_idx st = total_chunks st" by simp
  then have "timer_run [] (first_pass net st) =
      recovery_head net (st\<lparr>dist_chunk_idx := total_chunks st, pc := pc st, recovery_round := 0, effects := effects st @ []\<rparr>)"
    by (simp add: first_pass_def flip: \<open>dist_chunk_idx st = total_chunks st\<close>)
  with Nil.prems(3) \<open>dist_chunk_idx st = total_chunks st\<close> show ?case by (intro exI [of _ "[]"] exI [of _ "pc st"]) simp
next
  case (Cons net' nets)
  then have i: "dist_chunk_idx st < total_chunks st" by simp
  have hop: "line_next_hop net = Some hop" "ota_downstream_queue_ready net"
    using Cons.prems(6) by (simp_all add: ready_hop_def)
  obtain es1 where s1: "send_paced net OTA_DISTRIBUTION_INTERVAL_MS PaceFirst st =
      st\<lparr>pc := PaceFirst, effects := effects st @ es1\<rparr>"
    "sends es1 = [(hop, chunk_bytes st (dist_chunk_idx st))]"
    using send_paced_sends [OF Cons.prems(1,2) i Cons.prems(3) hop(1)] by blast
  let ?s = "st\<lparr>pc := PaceFirst, effects := effects st @ es1, dist_chunk_idx := Suc (dist_chunk_idx st)\<rparr>"
  have step: "timer_run (net' # nets) (first_pass net st) = timer_run nets (first_pass net' ?s)"
    using i hop(2) by (simp add: first_pass_def [of net] first_pass_chunk_def s1(1) distribute_resume_def)
  have "page_ok ?s" "running_ok ?s" using Cons.prems(1,2) by (simp_all add: coord_inv_defs)
  moreover have "length nets = total_chunks ?s - dist_chunk_idx ?s" "dist_chunk_idx ?s \<le> total_chunks ?s"
    "list_all (ready_hop hop) (net' # nets)" "pc ?s \<noteq> Undefined"
    using Cons.prems(5,6) i by simp_all
  ultimately obtain es2 k where IH: "timer_run nets (first_pass net' ?s) =
      recovery_head (last (net' # nets))
        (?s\<lparr>dist_chunk_idx := total_chunks ?s, pc := k, recovery_round := 0, effects := effects ?s @ es2\<rparr>)"
    "k \<noteq> Undefined" "sends es2 = map (\<lambda>i. (hop, chunk_bytes ?s i)) [dist_chunk_idx ?s..<total_chunks ?s]"
    using Cons.IH [of ?s net'] by blast
  have "chunk_bytes ?s j = chunk_bytes st j" for j by (rule chunk_bytes_cong) simp_all
  then have "sends (es1 @ es2) = map (\<lambda>i. (hop, chunk_bytes st i)) [dist_chunk_idx st..<total_chunks st]"
    using s1(2) IH(3) i by (simp add: upt_conv_Cons)
  moreover have "timer_run (net' # nets) (first_pass net st) =
      recovery_head (last (net # net' # nets))
        (st\<lparr>dist_chunk_idx := total_chunks st, pc := k, recovery_round := 0, effects := effects st @ (es1 @ es2)\<rparr>)"
    unfolding step IH(1) by simp
  ultimately show ?case using IH(2) by blast
qed

lemma recovery_head_round:
  assumes "0 < session_nodes_count st" "\<not> ota_page_is_complete (total_chunks st) st"
    "recovery_round st < OTA_MAX_PAGE_RECOVERY_ROUNDS" "ready_hop hop net"
  shows "\<exists>pkt es. recovery_head net st =
      st\<lparr>recovery_round := Suc (recovery_round st), node_replied := replicate MAX_NODES False, retry_count := 0,
        end_pkt := pkt, pc := WaitReports, effects := effects st @ es\<rparr> \<and> sends es = [(hop, page_end_bytes st)]"
proof -
  let ?pkt = "(end_pkt st)\<lparr>pk_type := PKT_TYPE_PAGE_END, pk_offset := page_start_offset st,
      pk_length := page_crc st, pk_target_slot := ota_target_slot st\<rparr>"
  have "take FW_PACKET_HEADER_LEN (fw_packet_bytes ?pkt) = page_end_bytes st"
    by (simp add: header_bytes page_end_bytes_def)
  with assms show ?thesis
    by (intro exI [of _ ?pkt] exI [of _ "[SendTo hop (page_end_bytes st),
        SetTimer DistTimer (CLOCK_SECOND net * OTA_PAGE_REPORT_TIMEOUT_SECONDS)]"])
      (simp add: recovery_head_def send_page_end_def ready_hop_def send_packet_def send_to_all_def say_def not_le)
qed

lemma zero_bitmaps_incomplete:
  "session_bitmaps st = replicate MAX_NODES (replicate 8 0) \<Longrightarrow> 0 < session_nodes_count st \<Longrightarrow> 0 < n \<Longrightarrow>
   \<not> ota_page_is_complete n st"
  by (auto simp: page_is_complete_iff MAX_NODES_def bitmap_bit_def intro!: exI [of _ 0])

text \<open>The datagrams in terms of the bytes of the page: the chunk from offset \<open>off\<close>, and the PAGE_END.\<close>

definition data_datagram :: "u8 \<Rightarrow> nat \<Rightarrow> u8 list \<Rightarrow> u8 list" where
  "data_datagram t off bs = PKT_TYPE_DATA # le32 (of_nat off) @ le16 (of_nat (length bs)) @ t # bs"

definition page_end_datagram :: "u8 \<Rightarrow> u32 \<Rightarrow> u16 \<Rightarrow> u8 list" where
  "page_end_datagram t p crc = PKT_TYPE_PAGE_END # le32 p @ le16 crc @ [t]"

definition page_bytes :: "coord_state \<Rightarrow> u8 list" where
  "page_bytes st = take (unat (expected_page_size st)) (page_buffer st)"

definition chunk_datagram :: "coord_state \<Rightarrow> nat \<Rightarrow> u8 list" where
  "chunk_datagram st i =
     data_datagram (ota_target_slot st) (unat (page_start_offset st) + 64 * i) (take 64 (drop (64 * i) (page_bytes st)))"

text \<open>The offsets of the last chunk do not wrap.\<close>

definition room_above :: "'a session_state_scheme \<Rightarrow> bool" where
  "room_above st \<longleftrightarrow> unat (current_file_size st) + 64 \<le> 2 ^ 32"

lemma page_end_bytes_eq:
  "page_end_bytes st = page_end_datagram (ota_target_slot st) (page_start_offset st) (page_crc st)"
  by (simp add: page_end_bytes_def page_end_datagram_def header_bytes)

lemma packet_prefix:
  "take (FW_PACKET_HEADER_LEN + n) (fw_packet_bytes p) =
     pk_type p # le32 (pk_offset p) @ le16 (pk_length p) @ pk_target_slot p # take n (buf_bytes (pk_data p) 0 64)"
proof -
  let ?h = "pk_type p # le32 (pk_offset p) @ le16 (pk_length p) @ [pk_target_slot p]"
  have "fw_packet_bytes p = ?h @ buf_bytes (pk_data p) 0 64" by (simp add: fw_packet_bytes_def)
  moreover have "length ?h = FW_PACKET_HEADER_LEN" by (simp add: FW_PACKET_HEADER_LEN_def)
  ultimately have "take (FW_PACKET_HEADER_LEN + n) (fw_packet_bytes p) = ?h @ take n (buf_bytes (pk_data p) 0 64)"
    by (simp only: take_append) simp
  then show ?thesis by simp
qed

lemma chunk_bytes_eq:
  assumes p: "page_ok st" and r: "running_ok st" and i: "i < total_chunks st" and room: "room_above st"
  shows "chunk_bytes st i = chunk_datagram st i"
proof -
  let ?s = "st\<lparr>dist_chunk_idx := i\<rparr>"
  let ?p = "unat (page_start_offset st)" and ?e = "unat (expected_page_size st)"
  have t: "transfer_ok ?s" using p by (simp add: page_ok_def transfer_ok_def)
  have buf: "length (page_buffer st) = 4096" "?e \<le> 4096"
    using p by (simp_all add: coord_inv_defs PAGE_SIZE_def)
  have i': "64 * i < ?e" using r i by (simp add: running_ok_def chunk_count_less)
  have pe: "?p + ?e + 64 \<le> 2 ^ 32" using t room by (simp add: transfer_ok_def room_above_def)
  define n where "n = unat (chunk_len ?s)"
  have n: "n = min 64 (?e - 64 * i)"
    using chunk_len_value [OF t] i' pe by (simp add: n_def)
  have len: "length (take 64 (drop (64 * i) (page_bytes st))) = n"
    using buf n by (simp add: page_bytes_def min_def)
  have bytes: "map (\<lambda>j. if j < n then page_buffer st ! (i * 64 + j) else 0) [0..<n] = take 64 (drop (64 * i) (page_bytes st))"
  proof (rule nth_equalityI)
    fix j assume "j < length (map (\<lambda>j. if j < n then page_buffer st ! (i * 64 + j) else 0) [0..<n])"
    then have j: "j < n" by simp
    then have "64 * i + j < ?e" using n by (simp add: less_diff_conv add.commute)
    with j show "map (\<lambda>j. if j < n then page_buffer st ! (i * 64 + j) else 0) [0..<n] ! j =
        take 64 (drop (64 * i) (page_bytes st)) ! j"
      using buf n i' by (simp add: page_bytes_def mult.commute nth_drop)
  qed (simp only: len length_map length_upt diff_zero)
  have off: "chunk_abs_offset ?s = of_nat (?p + 64 * i)"
    by (simp add: chunk_abs_offset_def mult.commute)
  have cl: "chunk_len ?s = of_nat n" by (simp add: n_def)
  have nle: "n \<le> 64" using n by simp
  have "take n (buf_bytes (pk_data (chunk_packet ?s)) 0 64) = buf_bytes (pk_data (chunk_packet ?s)) 0 n"
    using nle by (simp add: buf_bytes_def take_map min_absorb1)
  moreover have "buf_bytes (pk_data (chunk_packet ?s)) 0 n = take 64 (drop (64 * i) (page_bytes st))"
    unfolding bytes [symmetric] by (simp add: buf_bytes_def chunk_packet_def n_def)
  ultimately show ?thesis
    by (simp add: chunk_bytes_def Let_def chunk_datagram_def data_datagram_def packet_prefix n_def [symmetric] len [simplified])
      (simp add: chunk_packet_def off cl)
qed

text \<open>The first pass and the first PAGE_END from the start of the process.\<close>

definition page_datagrams :: "(u8 list \<Rightarrow> u16 \<Rightarrow> u16) \<Rightarrow> coord_state \<Rightarrow> u8 list list" where
  "page_datagrams crc st =
     map (chunk_datagram st) [0..<chunk_count (unat (expected_page_size st))] @
     [page_end_datagram (ota_target_slot st) (page_start_offset st) (crc (page_bytes st) 0)]"

definition awaiting_first_reports :: "coord_state \<Rightarrow> coord_state \<Rightarrow> bool" where
  "awaiting_first_reports st st' \<longleftrightarrow>
     coord_ok st' \<and> pc st' = WaitReports \<and> recovery_round st' = 1 \<and> retry_count st' = 0 \<and>
     total_chunks st' = chunk_count (unat (expected_page_size st)) \<and>
     node_replied st' = replicate MAX_NODES False \<and> session_bitmaps st' = replicate MAX_NODES (replicate 8 0) \<and>
     active_nodes st' = active_nodes st \<and> session_nodes_count st' = session_nodes_count st \<and>
     page_start_offset st' = page_start_offset st \<and> expected_page_size st' = expected_page_size st \<and>
     current_file_size st' = current_file_size st \<and> ota_target_slot st' = ota_target_slot st \<and>
     page_buffer st' = page_buffer st \<and> distribution_in_progress st' = distribution_in_progress st"

lemma distribute_first_pass:
  assumes p: "page_ok st" "pc st = Idle" "0 < unat (expected_page_size st)" "\<not> start_admission_in_progress st"
    and n: "0 < session_nodes_count st" and room: "room_above st"
    and nets: "length nets = chunk_count (unat (expected_page_size st))" "list_all (ready_hop hop) (net # nets)"
  shows "\<exists>es. effects (timer_run nets (distribute_start crc net st)) = effects st @ es \<and>
      sends es = map (Pair hop) (page_datagrams crc st) \<and>
      awaiting_first_reports st (timer_run nets (distribute_start crc net st))"
proof -
  define s where "s = st\<lparr>total_chunks := (unat (expected_page_size st) + 63) div 64,
      page_crc := crc (take (unat (expected_page_size st)) (page_buffer st)) 0,
      session_bitmaps := replicate MAX_NODES (replicate 8 0), dist_chunk_idx := 0\<rparr>"
  have tc: "total_chunks s = chunk_count (unat (expected_page_size st))" by (simp add: s_def chunk_count_def)
  have "chunk_count (unat (expected_page_size st)) \<le> 64"
    using p(1) chunk_count_le [of "unat (expected_page_size st)"] by (simp add: coord_inv_defs PAGE_SIZE_def)
  then have s: "page_ok s" "running_ok s" "pc s = Idle" "dist_chunk_idx s = 0"
    using p by (simp_all add: s_def coord_inv_defs chunk_count_def list_all_iff)
  have start: "distribute_start crc net st = first_pass net s"
    using n by (simp add: distribute_start_def s_def Let_def)
  obtain es k where run: "timer_run nets (first_pass net s) =
      recovery_head (last (net # nets))
        (s\<lparr>dist_chunk_idx := total_chunks s, pc := k, recovery_round := 0, effects := effects s @ es\<rparr>)"
    "k \<noteq> Undefined" "sends es = map (\<lambda>i. (hop, chunk_bytes s i)) [dist_chunk_idx s..<total_chunks s]"
    using first_pass_run [OF s(1,2), of nets hop net] s nets tc by auto
  let ?s = "s\<lparr>dist_chunk_idx := total_chunks s, pc := k, recovery_round := 0, effects := effects s @ es\<rparr>"
  have "0 < total_chunks s" using p(3) by (simp add: tc chunk_count_less [of 0, simplified])
  then have "\<not> ota_page_is_complete (total_chunks ?s) ?s"
    using n by (intro zero_bitmaps_incomplete) (simp_all add: s_def)
  moreover have "ready_hop hop (last (net # nets))" using nets(2) by (metis last_in_set list.distinct(1) list_all_iff)
  ultimately obtain pkt es' where head: "recovery_head (last (net # nets)) ?s =
      ?s\<lparr>recovery_round := Suc (recovery_round ?s), node_replied := replicate MAX_NODES False, retry_count := 0,
        end_pkt := pkt, pc := WaitReports, effects := effects ?s @ es'\<rparr>" "sends es' = [(hop, page_end_bytes ?s)]"
    using recovery_head_round [of ?s hop "last (net # nets)"] n
    by (force simp: s_def OTA_MAX_PAGE_RECOVERY_ROUNDS_def)
  have "chunk_bytes s i = chunk_datagram st i" if "i < total_chunks s" for i
    using chunk_bytes_eq [OF s(1,2) that] room by (simp add: room_above_def s_def chunk_datagram_def page_bytes_def)
  then have "map (\<lambda>i. (hop, chunk_bytes s i)) [0..<total_chunks s] =
      map (Pair hop) (map (chunk_datagram st) [0..<total_chunks s])" by simp
  moreover have "page_end_bytes ?s = page_end_datagram (ota_target_slot st) (page_start_offset st) (crc (page_bytes st) 0)"
    by (simp add: page_end_bytes_eq s_def page_bytes_def)
  ultimately have "sends (es @ es') = map (Pair hop) (page_datagrams crc st)"
    using run(3) head(2) s(4) tc by (simp add: page_datagrams_def)
  moreover have "coord_ok (recovery_head (last (net # nets)) ?s)"
    by (rule recovery_head_ok) (use s in \<open>simp_all add: coord_inv_defs\<close>)
  then have "awaiting_first_reports st (recovery_head (last (net # nets)) ?s)"
    unfolding head(1) by (simp add: awaiting_first_reports_def tc) (simp add: s_def active_nodes_def)
  moreover have "effects (recovery_head (last (net # nets)) ?s) = effects st @ (es @ es')"
    unfolding head(1) by (simp add: s_def)
  ultimately show ?thesis unfolding start run(1) by blast
qed

lemma sends_replicate_Uart [simp]: "sends (replicate n (Uart s)) = []"
  by (induction n) simp_all

text \<open>The state when the sender's lines have been handled: the page is in the buffer.\<close>

definition page_in_buffer :: "u8 list \<Rightarrow> coord_state \<Rightarrow> coord_state" where
  "page_in_buffer bytes st =
     st\<lparr>page_buffer := bytes @ drop (length bytes) (page_buffer st), page_bytes_received := expected_page_size st,
       effects := effects st @ replicate ((length bytes + 31) div 32) (Uart ''FW:ACK''),
       distribution_in_progress := True\<rparr>"

lemma page_in_buffer_facts:
  assumes "takes_data st" "length bytes = unat (expected_page_size st)" "bytes \<noteq> []" "pc st = Idle"
  shows "page_ok (page_in_buffer bytes st)" "pc (page_in_buffer bytes st) = Idle"
    "0 < unat (expected_page_size (page_in_buffer bytes st))" "\<not> start_admission_in_progress (page_in_buffer bytes st)"
    "0 < session_nodes_count (page_in_buffer bytes st)" "page_bytes (page_in_buffer bytes st) = bytes"
proof -
  have "0 < length bytes" using assms(3) by simp
  then show "0 < unat (expected_page_size (page_in_buffer bytes st))" by (simp add: page_in_buffer_def assms(2))
qed (use assms in \<open>simp_all add: page_in_buffer_def takes_data_def coord_ok_def coord_inv_defs page_bytes_def PAGE_SIZE_def\<close>)

lemma page_lines_start:
  assumes "takes_data st" "page_bytes_received st = 0" "length bytes = unat (expected_page_size st)" "bytes \<noteq> []" "pc st = Idle"
  shows "fold (ota_coordinator_handle_uart crc net) (py_page_lines (unat (page_start_offset st)) bytes) st =
    distribute_start crc net (page_in_buffer bytes st)"
  using page_lines_assembled [OF assms(1-4)] assms(5) by (simp add: start_distribute_def page_in_buffer_def)

text \<open>C15. From the serial line to the radio. When the sender's lines for a page have arrived and the process
  has been resumed by its pacing timer once per chunk, the next hop has been sent the page in
  64-byte DATA packets, in order, each with its offset, length and bytes, and then the PAGE_END with
  the checksum of the page, and nothing else; the process waits for the reports of the first
  round, all bitmaps empty. The queue has room whenever a timer expires.\<close>

theorem page_distributed:
  assumes st: "takes_data st" "page_bytes_received st = 0" "pc st = Idle" "room_above st"
    and len: "length bytes = unat (expected_page_size st)" "bytes \<noteq> []"
    and nets: "length nets = (length bytes + 63) div 64" "list_all (ready_hop hop) (net # nets)"
    and st': "st' = timer_run nets
        (fold (ota_coordinator_handle_uart crc net) (py_page_lines (unat (page_start_offset st)) bytes) st)"
  shows "\<exists>es. effects st' = effects st @ es \<and>
    sends es =
      map (\<lambda>i. (hop, data_datagram (ota_target_slot st) (unat (page_start_offset st) + 64 * i) (take 64 (drop (64 * i) bytes))))
        [0..<(length bytes + 63) div 64] @
      [(hop, page_end_datagram (ota_target_slot st) (page_start_offset st) (crc bytes 0))] \<and>
    pc st' = WaitReports \<and> recovery_round st' = 1 \<and> session_bitmaps st' = replicate MAX_NODES (replicate 8 0)"
proof -
  let ?s = "page_in_buffer bytes st"
  note f = page_in_buffer_facts [OF st(1) len st(3)]
  have e: "unat (expected_page_size ?s) = length bytes" "room_above ?s"
    using len(1) st(4) by (simp_all add: page_in_buffer_def room_above_def)
  obtain es where es: "effects (timer_run nets (distribute_start crc net ?s)) = effects ?s @ es"
    "sends es = map (Pair hop) (page_datagrams crc ?s)"
    "awaiting_first_reports ?s (timer_run nets (distribute_start crc net ?s))"
    using distribute_first_pass [OF f(1-5) e(2), of nets hop net crc] nets by (auto simp: e chunk_count_def)
  have st'': "st' = timer_run nets (distribute_start crc net ?s)"
    unfolding st' page_lines_start [OF st(1,2) len st(3)] ..
  let ?acks = "replicate ((length bytes + 31) div 32) (Uart ''FW:ACK'')"
  have "effects st' = effects st @ (?acks @ es)" by (simp add: st'' es(1)) (simp add: page_in_buffer_def)
  moreover have "sends (?acks @ es) = map (\<lambda>i. (hop, data_datagram (ota_target_slot st)
        (unat (page_start_offset st) + 64 * i) (take 64 (drop (64 * i) bytes)))) [0..<(length bytes + 63) div 64] @
      [(hop, page_end_datagram (ota_target_slot st) (page_start_offset st) (crc bytes 0))]"
    by (simp add: es(2) page_datagrams_def e chunk_count_def chunk_datagram_def f(6)) (simp add: page_in_buffer_def)
  moreover have "pc st' = WaitReports" "recovery_round st' = 1" "session_bitmaps st' = replicate MAX_NODES (replicate 8 0)"
    using es(3) by (simp_all add: st'' awaiting_first_reports_def)
  ultimately show ?thesis by blast
qed

lemma sample_routes_ready: "ready_hop (sample_ip 2) sample_routes"
  by (simp add: ready_hop_def ota_downstream_queue_ready_def line_next_hop_def sample_routes_def
      OTA_QUEUE_MAX_GLOBAL_PENDING_def)

theorem page_distributed_witness:
  "\<exists>es. effects (timer_run [sample_routes, sample_routes]
      (fold (ota_coordinator_handle_uart py_crc16_data sample_routes) (py_page_lines 0 (replicate 96 7)) sample_taking)) = es \<and>
    sends es =
      [(sample_ip 2, data_datagram 1 0 (replicate 64 7)), (sample_ip 2, data_datagram 1 64 (replicate 32 7)),
       (sample_ip 2, page_end_datagram 1 0 (py_crc16_data (replicate 96 7) 0))]"
proof -
  have f: "pc sample_taking = Idle" "room_above sample_taking" "ota_target_slot sample_taking = 1"
    "length (replicate 96 (7 :: u8)) = unat (expected_page_size sample_taking)" "replicate 96 (7 :: u8) \<noteq> []"
    by (simp_all add: sample_taking_def coord_initial_def room_above_def)
  have "length [sample_routes, sample_routes] = (length (replicate 96 (7 :: u8)) + 63) div 64"
    "list_all (ready_hop (sample_ip 2)) (sample_routes # [sample_routes, sample_routes])"
    by (simp_all add: sample_routes_ready)
  from page_distributed [OF sample_taking_ready sample_taking_fields(2) f(1,2,4,5) this refl, of py_crc16_data]
  show ?thesis by (simp add: sample_taking_fields f(3) numeral_2_eq_2)
qed

section \<open>The recovery pass\<close>

definition missing_chunks :: "nat \<Rightarrow> coord_state \<Rightarrow> nat list" where
  "missing_chunks from st =
     filter (\<lambda>c. \<exists>i < session_nodes_count st. \<not> bitmap_bit (session_bitmaps st ! i) c) [from..<total_chunks st]"

lemma missed_count_pos:
  "0 < missed_count c st \<longleftrightarrow> (\<exists>i < session_nodes_count st. \<not> bitmap_bit (session_bitmaps st ! i) c)"
  by (auto simp: missed_count_def filter_empty_conv)

lemma missing_chunks_step:
  "from < total_chunks st \<Longrightarrow> missing_chunks from st =
     (if 0 < missed_count from st then from # missing_chunks (Suc from) st else missing_chunks (Suc from) st)"
  by (simp add: missing_chunks_def missed_count_pos upt_conv_Cons)

lemma recover_pass_run:
  assumes "page_ok st" "running_ok st" "pc st \<noteq> Undefined" "dist_chunk_idx st \<le> total_chunks st"
    and "length nets = length (missing_chunks (dist_chunk_idx st) st)" "list_all (ready_hop hop) (net # nets)"
  shows "\<exists>es k. timer_run nets (recover_pass net st) =
      recovery_head (last (net # nets))
        (st\<lparr>dist_chunk_idx := total_chunks st, pc := k, effects := effects st @ es\<rparr>) \<and>
    k \<noteq> Undefined \<and> sends es = map (\<lambda>i. (hop, chunk_bytes st i)) (missing_chunks (dist_chunk_idx st) st)"
  using assms
proof (induction "total_chunks st - dist_chunk_idx st" arbitrary: nets net st)
  case 0
  then have e: "dist_chunk_idx st = total_chunks st" by simp
  with 0 have "nets = []" by (simp add: missing_chunks_def)
  have "recover_pass net st = recovery_head net st" by (subst recover_pass.simps) (simp add: e)
  moreover have "st\<lparr>dist_chunk_idx := total_chunks st\<rparr> = st" by (simp flip: e)
  ultimately have "recover_pass net st = recovery_head net (st\<lparr>dist_chunk_idx := total_chunks st\<rparr>)"
    by (simp only:)
  then show ?case
    using \<open>nets = []\<close> 0(4) by (intro exI [of _ "[]"] exI [of _ "pc st"]) (simp add: missing_chunks_def e)
next
  case (Suc n)
  then have i: "dist_chunk_idx st < total_chunks st" by simp
  have hop: "line_next_hop net = Some hop" "ota_downstream_queue_ready net"
    using Suc.prems(6) by (simp_all add: ready_hop_def)
  show ?case
  proof (cases "0 < missed_count (dist_chunk_idx st) st")
    case False
    let ?s = "st\<lparr>dist_chunk_idx := Suc (dist_chunk_idx st)\<rparr>"
    have m: "missing_chunks j ?s = missing_chunks j st" for j by (simp add: missing_chunks_def)
    have "length nets = length (missing_chunks (dist_chunk_idx ?s) ?s)"
      using Suc.prems(5) i False by (simp add: m missing_chunks_step)
    moreover have "page_ok ?s" "running_ok ?s" "pc ?s \<noteq> Undefined" "dist_chunk_idx ?s \<le> total_chunks ?s"
      "n = total_chunks ?s - dist_chunk_idx ?s"
      using Suc.prems(1-3) Suc.hyps(2) i by simp_all
    ultimately obtain es k where "timer_run nets (recover_pass net ?s) =
        recovery_head (last (net # nets))
          (?s\<lparr>dist_chunk_idx := total_chunks ?s, pc := k, effects := effects ?s @ es\<rparr>)" "k \<noteq> Undefined"
      "sends es = map (\<lambda>i. (hop, chunk_bytes ?s i)) (missing_chunks (dist_chunk_idx ?s) ?s)"
      using Suc.hyps(1) [of ?s nets net] Suc.prems(6) by blast
    moreover have "chunk_bytes ?s j = chunk_bytes st j" for j by (rule chunk_bytes_cong) simp_all
    moreover have "recover_pass net st = recover_pass net ?s"
      using i hop False by (subst recover_pass.simps) simp
    ultimately show ?thesis
      using i False by (intro exI [of _ es] exI [of _ k]) (simp add: m missing_chunks_step [OF i])
  next
    case True
    then obtain net' nets' where nets: "nets = net' # nets'"
      using Suc.prems(5) i by (cases nets) (simp_all add: missing_chunks_step)
    obtain es1 where s1: "send_paced net OTA_RECOVERY_INTERVAL_MS PaceRecover st =
        st\<lparr>pc := PaceRecover, effects := effects st @ es1\<rparr>"
      "sends es1 = [(hop, chunk_bytes st (dist_chunk_idx st))]"
      using send_paced_sends [OF Suc.prems(1,2) i Suc.prems(3) hop(1)] by blast
    let ?s = "st\<lparr>pc := PaceRecover, effects := effects st @ es1, dist_chunk_idx := Suc (dist_chunk_idx st)\<rparr>"
    have m: "missing_chunks j ?s = missing_chunks j st" for j by (simp add: missing_chunks_def)
    have step: "timer_run nets (recover_pass net st) = timer_run nets' (recover_pass net' ?s)"
      using i hop(2) True by (subst recover_pass.simps) (simp add: nets s1(1) distribute_resume_def)
    have "page_ok ?s" "running_ok ?s" using Suc.prems(1,2) by (simp_all add: coord_inv_defs)
    moreover have "length nets' = length (missing_chunks (dist_chunk_idx ?s) ?s)"
      using Suc.prems(5) i True by (simp add: m missing_chunks_step nets)
    moreover have "n = total_chunks ?s - dist_chunk_idx ?s" "dist_chunk_idx ?s \<le> total_chunks ?s" "pc ?s \<noteq> Undefined"
      using Suc.hyps(2) i by simp_all
    moreover have "list_all (ready_hop hop) (net' # nets')" using Suc.prems(6) by (simp add: nets)
    ultimately obtain es2 k where IH: "timer_run nets' (recover_pass net' ?s) =
        recovery_head (last (net' # nets'))
          (?s\<lparr>dist_chunk_idx := total_chunks ?s, pc := k, effects := effects ?s @ es2\<rparr>)"
      "k \<noteq> Undefined" "sends es2 = map (\<lambda>i. (hop, chunk_bytes ?s i)) (missing_chunks (dist_chunk_idx ?s) ?s)"
      using Suc.hyps(1) [of ?s nets' net'] by blast
    have "chunk_bytes ?s j = chunk_bytes st j" for j by (rule chunk_bytes_cong) simp_all
    then have "sends (es1 @ es2) = map (\<lambda>i. (hop, chunk_bytes st i)) (missing_chunks (dist_chunk_idx st) st)"
      using s1(2) IH(3) True by (simp add: m missing_chunks_step [OF i])
    moreover have "timer_run nets (recover_pass net st) =
        recovery_head (last (net # nets))
          (st\<lparr>dist_chunk_idx := total_chunks st, pc := k, effects := effects st @ (es1 @ es2)\<rparr>)"
      unfolding step IH(1) by (simp add: nets)
    ultimately show ?thesis using IH(2) by blast
  qed
qed

end
