(* ===== verification/Recovery.thy ===== *)
theory Recovery
  imports Distribution
begin

text \<open>
  A recovery round at the coordinator: what the bitmap reports of a round amount to, which chunks are
  sent again, when the page counts as delivered, and which nodes a round of timeouts drops.
\<close>

section \<open>The reports of a round\<close>

text \<open>The specification: of the reports \<open>rs\<close> that arrive in a round, the first one of a node for the
  page at \<open>p\<close> counts.\<close>

definition first_page_report :: "u32 \<Rightarrow> (bitmap_report \<times> ipaddr) list \<Rightarrow> ipaddr \<Rightarrow> bitmap_report option" where
  "first_page_report p rs ip = map_option fst (List.find (\<lambda>(r, a). br_page_offset r = p \<and> iid a = iid ip) rs)"

lemma first_page_report_snoc:
  "first_page_report p (rs @ [(r, a)]) ip =
     (case first_page_report p rs ip of
        Some r' \<Rightarrow> Some r'
      | None \<Rightarrow> if br_page_offset r = p \<and> iid a = iid ip then Some r else None)"
  by (induction rs) (auto simp: first_page_report_def)

abbreviation (input) receive_bitmap_reports where
  "receive_bitmap_reports \<equiv> fold (\<lambda>(r, a). handle_bitmap_report r a)"

text \<open>A round with the reports \<open>rs\<close> received so far, begun in \<open>st0\<close>, where no node had replied.\<close>

definition in_round :: "coord_state \<Rightarrow> (bitmap_report \<times> ipaddr) list \<Rightarrow> coord_state \<Rightarrow> bool" where
  "in_round st0 rs st \<longleftrightarrow>
     (\<exists>nr bs es. st = st0\<lparr>node_replied := nr, session_bitmaps := bs, effects := effects st0 @ es\<rparr> \<and>
        sends es = [] \<and> length nr = length (node_replied st0) \<and> length bs = length (session_bitmaps st0) \<and>
        (PostBitmapReceived \<in> set es \<longleftrightarrow> session_nodes_count st0 \<noteq> 0 \<and> (\<forall>i < session_nodes_count st0. nr ! i)) \<and>
        (\<forall>i < session_nodes_count st0.
           case first_page_report (page_start_offset st0) rs (session_nodes st0 ! i) of
             None \<Rightarrow> \<not> nr ! i \<and> bs ! i = session_bitmaps st0 ! i
           | Some r \<Rightarrow> nr ! i \<and> bs ! i = br_bitmap r))"

lemma distinct_iids_eq:
  assumes "session_ok st" "distinct (map iid (active_nodes st))" "i < session_nodes_count st" "j < session_nodes_count st"
    "iid (session_nodes st ! i) = iid (session_nodes st ! j)"
  shows "i = j"
proof -
  have l: "length (map iid (active_nodes st)) = session_nodes_count st" by (simp add: length_active_nodes [OF assms(1)])
  have "map iid (active_nodes st) ! k = iid (session_nodes st ! k)" if "k < session_nodes_count st" for k
    using that by (simp add: active_nodes_map [OF assms(1)])
  then show ?thesis
    using nth_eq_iff_index_eq [OF assms(2), of i j] assms(3-5) unfolding l by simp
qed

lemma round_step:
  assumes o: "in_round st0 rs st" and ok: "session_ok st0" and d: "distinct (map iid (active_nodes st0))"
  shows "in_round st0 (rs @ [(r, a)]) (handle_bitmap_report r a st)"
proof -
  let ?n = "session_nodes_count st0" and ?p = "page_start_offset st0"
  obtain nr bs es where st: "st = st0\<lparr>node_replied := nr, session_bitmaps := bs, effects := effects st0 @ es\<rparr>"
    and es: "sends es = []" "length nr = length (node_replied st0)" "length bs = length (session_bitmaps st0)"
    and post: "PostBitmapReceived \<in> set es \<longleftrightarrow> ?n \<noteq> 0 \<and> (\<forall>i < ?n. nr ! i)"
    and v: "\<And>i. i < ?n \<Longrightarrow> case first_page_report ?p rs (session_nodes st0 ! i) of
             None \<Rightarrow> \<not> nr ! i \<and> bs ! i = session_bitmaps st0 ! i | Some r \<Rightarrow> nr ! i \<and> bs ! i = br_bitmap r"
    using o unfolding in_round_def by blast
  have unchanged: "in_round st0 (rs @ [(r, a)]) st"
    if new: "\<And>i. i < ?n \<Longrightarrow> br_page_offset r = ?p \<Longrightarrow> iid a = iid (session_nodes st0 ! i) \<Longrightarrow>
      first_page_report ?p rs (session_nodes st0 ! i) \<noteq> None"
  proof -
    have "first_page_report ?p (rs @ [(r, a)]) (session_nodes st0 ! i) = first_page_report ?p rs (session_nodes st0 ! i)"
      if "i < ?n" for i
      using that new [of i] by (cases "first_page_report ?p rs (session_nodes st0 ! i)") (auto simp: first_page_report_snoc)
    then show ?thesis using o by (simp add: in_round_def)
  qed
  show ?thesis
  proof (cases "br_page_offset r = ?p \<and> find_session_node_by_addr a st \<noteq> None")
    case False
    have "\<And>i. find_session_node_by_addr a st = None \<Longrightarrow> i < ?n \<Longrightarrow> iid a \<noteq> iid (session_nodes st0 ! i)"
      by (auto simp: find_session_node_None st)
    with unchanged False show ?thesis by (auto simp: handle_bitmap_report_def st)
  next
    case True
    then obtain f where f': "find_session_node_by_addr a st = Some f" by auto
    then have f: "f < ?n" "iid (session_nodes st0 ! f) = iid a" by (simp_all add: find_session_node_Some st)
    have only: "i = f" if "i < ?n" "iid a = iid (session_nodes st0 ! i)" for i
      using distinct_iids_eq [OF ok d that(1) f(1)] that f by simp
    show ?thesis
    proof (cases "nr ! f")
      case nrf: True
      have "first_page_report ?p rs (session_nodes st0 ! f) \<noteq> None" using v [OF f(1)] nrf by (auto split: option.splits)
      then have "in_round st0 (rs @ [(r, a)]) st" using only by (intro unchanged) blast
      then show ?thesis using nrf True f' by (simp add: handle_bitmap_report_def st)
    next
      case nrf: False
      have none: "first_page_report ?p rs (session_nodes st0 ! f) = None" using v [OF f(1)] nrf by (auto split: option.splits)
      have len: "f < length nr" "f < length bs" using ok f(1) es by (simp_all add: session_ok_def)
      define s where "s = st0\<lparr>node_replied := nr[f := True], session_bitmaps := bs[f := br_bitmap r], effects := effects st0 @ es\<rparr>"
      have s: "s = st\<lparr>node_replied := (node_replied st)[f := True], session_bitmaps := (session_bitmaps st)[f := br_bitmap r]\<rparr>"
        unfolding s_def st by (rule coord_state.equality) simp_all
      have "br_page_offset r = page_start_offset st" "\<not> node_replied st ! f" using nrf True by (simp_all add: st)
      then have h: "handle_bitmap_report r a st = (if all_replied s then say [PostBitmapReceived] s else s)"
        by (simp add: handle_bitmap_report_def f' s Let_def)
      have "case first_page_report ?p (rs @ [(r, a)]) (session_nodes st0 ! i) of
             None \<Rightarrow> \<not> nr[f := True] ! i \<and> bs[f := br_bitmap r] ! i = session_bitmaps st0 ! i
           | Some r' \<Rightarrow> nr[f := True] ! i \<and> bs[f := br_bitmap r] ! i = br_bitmap r'" if i: "i < ?n" for i
      proof (cases "i = f")
        case True
        then show ?thesis using \<open>br_page_offset r = ?p \<and> _\<close> len by (simp add: first_page_report_snoc none f(2))
      next
        case False
        then have "iid a \<noteq> iid (session_nodes st0 ! i)" using only [OF i] by blast
        then show ?thesis using False v [OF i] by (simp add: first_page_report_snoc split: option.splits)
      qed
      then have "in_round st0 (rs @ [(r, a)]) (st0\<lparr>node_replied := nr[f := True], session_bitmaps := bs[f := br_bitmap r],
          effects := effects st0 @ es'\<rparr>)"
        if "sends es' = []" "PostBitmapReceived \<in> set es' \<longleftrightarrow> all_replied s" for es'
        unfolding in_round_def using es that f(1)
        by (intro exI [of _ "nr[f := True]"] exI [of _ "bs[f := br_bitmap r]"] exI [of _ es'])
          (auto simp: all_replied_def list_all_iff s_def)
      from this [of es] this [of "es @ [PostBitmapReceived]"] es(1) post nrf f(1) show ?thesis
        unfolding h by (auto simp: s_def say_def)
    qed
  qed
qed

lemma round_begins:
  "node_replied st = replicate MAX_NODES False \<Longrightarrow> session_ok st \<Longrightarrow> in_round st [] st"
  unfolding in_round_def first_page_report_def
  by (intro exI [of _ "node_replied st"] exI [of _ "session_bitmaps st"] exI [of _ "[]"]) (auto simp: session_ok_def)

lemma round_run:
  assumes "in_round st0 rs st" "session_ok st0" "distinct (map iid (active_nodes st0))"
  shows "in_round st0 (rs @ rs') (receive_bitmap_reports rs' st)"
  using assms(1)
proof (induction rs' arbitrary: rs st)
  case (Cons ra rs')
  obtain r a where ra: "ra = (r, a)" by (cases ra)
  from Cons.IH [OF round_step [OF Cons.prems assms(2,3), of r a]] show ?case by (simp add: ra)
qed simp

section \<open>After the reports\<close>

lemma reports_keep_ok:
  assumes "coord_ok st" "list_all (\<lambda>(r, a). length (br_bitmap r) = 8) rs"
  shows "coord_ok (receive_bitmap_reports rs st)"
  using assms by (induction rs arbitrary: st) (auto simp: bitmap_report_ok)

lemma missing_none_iff: "missing_chunks 0 st = [] \<longleftrightarrow> ota_page_is_complete (total_chunks st) st"
  by (auto simp: missing_chunks_def filter_empty_conv page_is_complete_iff)

lemma chunk_datagram_cong:
  "page_start_offset st = page_start_offset st' \<Longrightarrow> expected_page_size st = expected_page_size st' \<Longrightarrow>
   ota_target_slot st = ota_target_slot st' \<Longrightarrow> page_buffer st = page_buffer st' \<Longrightarrow>
   chunk_datagram st = chunk_datagram st'"
  by (rule ext) (simp add: chunk_datagram_def page_bytes_def)

text \<open>What follows when the process goes on after a round: with nothing missing the page is finished;
  otherwise the missing chunks go out, then the next round begins with a PAGE_END, or the page is
  given up after the last round.\<close>

lemma after_wait_run:
  assumes ok: "page_ok st" "running_ok st" "pc st \<noteq> Undefined" and n: "0 < session_nodes_count st" and room: "room_above st"
    and miss: "missing_chunks 0 st \<noteq> []"
    and nets: "length nets = length (missing_chunks 0 st)" "list_all (ready_hop hop) (net # nets)"
  defines "st' \<equiv> timer_run nets (after_wait net st)"
  shows "\<exists>es. sends es = map (Pair hop) (map (chunk_datagram st) (missing_chunks 0 st)) \<and>
    (if recovery_round st < OTA_MAX_PAGE_RECOVERY_ROUNDS
     then \<exists>es' pkt. st' = st\<lparr>dist_chunk_idx := total_chunks st, recovery_round := Suc (recovery_round st),
            node_replied := replicate MAX_NODES False, retry_count := 0, end_pkt := pkt, pc := WaitReports,
            effects := effects st @ es @ es'\<rparr> \<and>
          sends es' = [(hop, page_end_datagram (ota_target_slot st) (page_start_offset st) (page_crc st))]
     else \<exists>k. st' = finish_page (st\<lparr>dist_chunk_idx := total_chunks st, pc := k, effects := effects st @ es\<rparr>))"
proof -
  let ?s = "st\<lparr>dist_chunk_idx := 0\<rparr>"
  have inc: "\<not> ota_page_is_complete (total_chunks st) st" using miss by (simp add: missing_none_iff)
  have m: "missing_chunks j ?s = missing_chunks j st" for j by (simp add: missing_chunks_def)
  obtain es k where run: "timer_run nets (recover_pass net ?s) =
      recovery_head (last (net # nets)) (?s\<lparr>dist_chunk_idx := total_chunks ?s, pc := k, effects := effects ?s @ es\<rparr>)"
    "k \<noteq> Undefined" "sends es = map (\<lambda>i. (hop, chunk_bytes ?s i)) (missing_chunks (dist_chunk_idx ?s) ?s)"
    using recover_pass_run [of ?s nets hop net] ok nets by (auto simp: m)
  define q where "q = st\<lparr>dist_chunk_idx := total_chunks st, pc := k, effects := effects st @ es\<rparr>"
  have st': "st' = recovery_head (last (net # nets)) q"
    using inc run(1) by (simp add: st'_def after_wait_def q_def)
  have "chunk_bytes ?s i = chunk_datagram st i" if "i \<in> set (missing_chunks 0 st)" for i
    using chunk_bytes_eq [of ?s i] ok that room chunk_datagram_cong [of ?s st]
    by (simp add: missing_chunks_def room_above_def)
  then have sends: "sends es = map (Pair hop) (map (chunk_datagram st) (missing_chunks 0 st))"
    using run(3) by (simp add: m)
  have q: "session_nodes_count q = session_nodes_count st" "\<not> ota_page_is_complete (total_chunks q) q"
    "recovery_round q = recovery_round st"
    using inc by (simp_all add: q_def page_is_complete_iff)
  have hop: "ready_hop hop (last (net # nets))" using nets(2) by (metis last_in_set list.distinct(1) list_all_iff)
  show ?thesis
  proof (cases "recovery_round st < OTA_MAX_PAGE_RECOVERY_ROUNDS")
    case True
    then obtain pkt es' where head: "recovery_head (last (net # nets)) q =
        q\<lparr>recovery_round := Suc (recovery_round q), node_replied := replicate MAX_NODES False, retry_count := 0,
          end_pkt := pkt, pc := WaitReports, effects := effects q @ es'\<rparr>" "sends es' = [(hop, page_end_bytes q)]"
      using recovery_head_round [of q hop "last (net # nets)"] n q hop by auto
    have "q\<lparr>recovery_round := Suc (recovery_round q), node_replied := replicate MAX_NODES False, retry_count := 0,
          end_pkt := pkt, pc := WaitReports, effects := effects q @ es'\<rparr> =
        st\<lparr>dist_chunk_idx := total_chunks st, recovery_round := Suc (recovery_round st),
            node_replied := replicate MAX_NODES False, retry_count := 0, end_pkt := pkt, pc := WaitReports,
            effects := effects st @ es @ es'\<rparr>"
      by (rule coord_state.equality) (simp_all add: q_def)
    moreover have "page_end_bytes q = page_end_datagram (ota_target_slot st) (page_start_offset st) (page_crc st)"
      by (simp add: page_end_bytes_eq) (simp add: q_def)
    ultimately have "\<exists>es' pkt. st' = st\<lparr>dist_chunk_idx := total_chunks st, recovery_round := Suc (recovery_round st),
            node_replied := replicate MAX_NODES False, retry_count := 0, end_pkt := pkt, pc := WaitReports,
            effects := effects st @ es @ es'\<rparr> \<and>
          sends es' = [(hop, page_end_datagram (ota_target_slot st) (page_start_offset st) (page_crc st))]"
      unfolding st' using head by metis
    with sends True show ?thesis by (simp only: if_True) blast
  next
    case False
    then have "st' = finish_page q" by (simp add: st' recovery_head_def q not_less)
    with sends False show ?thesis by (simp only: if_False q_def) blast
  qed
qed

definition reported_bitmap :: "u32 \<Rightarrow> (bitmap_report \<times> ipaddr) list \<Rightarrow> ipaddr \<Rightarrow> u8 list" where
  "reported_bitmap p rs ip =
     (case first_page_report p rs ip of Some r \<Rightarrow> br_bitmap r | None \<Rightarrow> replicate 8 0)"

definition chunks_missed :: "coord_state \<Rightarrow> (bitmap_report \<times> ipaddr) list \<Rightarrow> nat list" where
  "chunks_missed st rs =
     filter (\<lambda>c. \<exists>ip \<in> set (active_nodes st). \<not> bitmap_bit (reported_bitmap (page_start_offset st) rs ip) c)
       [0..<total_chunks st]"

definition all_reported :: "coord_state \<Rightarrow> (bitmap_report \<times> ipaddr) list \<Rightarrow> bool" where
  "all_reported st rs \<longleftrightarrow>
     list_all (\<lambda>ip. first_page_report (page_start_offset st) rs ip \<noteq> None) (active_nodes st)"

text \<open>A round in which every node reported: the state when the posted event arrives.\<close>

lemma reported_round:
  assumes ok: "coord_ok st" and w: "pc st = WaitReports" "node_replied st = replicate MAX_NODES False"
    and n: "0 < session_nodes_count st" and d: "distinct (map iid (active_nodes st))"
    and rs: "all_reported st rs" "list_all (\<lambda>(r, a). length (br_bitmap r) = 8) rs"
  defines "s \<equiv> receive_bitmap_reports rs st"
  obtains nr bs es where "s = st\<lparr>node_replied := nr, session_bitmaps := bs, effects := effects st @ es\<rparr>"
    "sends es = []" "PostBitmapReceived \<in> set es" "distribute_resume net BitmapEvent s = after_wait net s"
    "coord_ok s" "missing_chunks 0 s = chunks_missed st rs"
proof -
  have ses: "session_ok st" using ok by (simp add: coord_ok_def page_ok_def)
  have "in_round st rs s" using round_run [OF round_begins [OF w(2) ses] ses d, of rs] by (simp add: s_def)
  then obtain nr bs es where s: "s = st\<lparr>node_replied := nr, session_bitmaps := bs, effects := effects st @ es\<rparr>"
    and es: "sends es = []" "PostBitmapReceived \<in> set es \<longleftrightarrow> session_nodes_count st \<noteq> 0 \<and> (\<forall>i < session_nodes_count st. nr ! i)"
    and v: "\<And>i. i < session_nodes_count st \<Longrightarrow>
       case first_page_report (page_start_offset st) rs (session_nodes st ! i) of
         None \<Rightarrow> \<not> nr ! i \<and> bs ! i = session_bitmaps st ! i | Some r \<Rightarrow> nr ! i \<and> bs ! i = br_bitmap r"
    unfolding in_round_def by blast
  have all: "nr ! i \<and> bs ! i = reported_bitmap (page_start_offset st) rs (session_nodes st ! i)"
    if "i < session_nodes_count st" for i
  proof -
    have "first_page_report (page_start_offset st) rs (session_nodes st ! i) \<noteq> None"
      using rs(1) that unfolding all_reported_def list_all_iff active_nodes_map [OF ses] by simp
    with v [OF that] show ?thesis by (auto simp: reported_bitmap_def)
  qed
  have "distribute_resume net BitmapEvent s = after_wait net s"
    using all w(1) by (simp add: distribute_resume_def reports_posted_def all_replied_def list_all_iff s)
  moreover have "coord_ok s" unfolding s_def by (rule reports_keep_ok [OF ok rs(2)])
  moreover have "(\<exists>i < session_nodes_count st. \<not> bitmap_bit (bs ! i) c) \<longleftrightarrow>
      (\<exists>ip \<in> set (active_nodes st). \<not> bitmap_bit (reported_bitmap (page_start_offset st) rs ip) c)" for c
    using all unfolding active_nodes_map [OF ses] by auto
  then have "missing_chunks 0 s = chunks_missed st rs" by (simp add: missing_chunks_def chunks_missed_def s)
  ultimately show thesis using that [OF s es(1)] es(2) all n by simp
qed

text \<open>C12. A recovery round resends exactly what is missing. When every node of the session has reported, and
  the process is resumed by the event this posts, then the chunks some node's first report for the
  page misses go out again, in order, each with the bytes of the page, and no other chunk; then the
  next round begins with the page's PAGE_END. After the tenth round they go out without it, and the
  page is given up. The queue has room whenever the process looks, and no two nodes of the session
  share an interface identifier.\<close>

theorem recovery_resends_missing:
  assumes ok: "coord_ok st" and w: "pc st = WaitReports" "node_replied st = replicate MAX_NODES False"
    and n: "0 < session_nodes_count st" and d: "distinct (map iid (active_nodes st))" and room: "room_above st"
    and rs: "all_reported st rs" "list_all (\<lambda>(r, a). length (br_bitmap r) = 8) rs"
    and miss: "chunks_missed st rs \<noteq> []"
    and nets: "length nets = length (chunks_missed st rs)" "list_all (ready_hop hop) (net # nets)"
  defines "st' \<equiv> timer_run nets (distribute_resume net BitmapEvent (receive_bitmap_reports rs st))"
  shows "\<exists>es. effects st' = effects st @ es \<and> PostBitmapReceived \<in> set es \<and>
    (if recovery_round st < OTA_MAX_PAGE_RECOVERY_ROUNDS
     then sends es = map (Pair hop) (map (chunk_datagram st) (chunks_missed st rs) @
            [page_end_datagram (ota_target_slot st) (page_start_offset st) (page_crc st)]) \<and>
          pc st' = WaitReports \<and> recovery_round st' = Suc (recovery_round st) \<and>
          node_replied st' = replicate MAX_NODES False
     else sends es = map (Pair hop) (map (chunk_datagram st) (chunks_missed st rs)) \<and>
          pc st' = Idle \<and> last es = Uart ''FW:PAGE_OK'')"
proof -
  define s where "s = receive_bitmap_reports rs st"
  obtain nr bs es1 where s: "s = st\<lparr>node_replied := nr, session_bitmaps := bs, effects := effects st @ es1\<rparr>"
    "sends es1 = []" "PostBitmapReceived \<in> set es1" and r: "distribute_resume net BitmapEvent s = after_wait net s"
    and oks: "coord_ok s" and m: "missing_chunks 0 s = chunks_missed st rs"
    using reported_round [OF ok w n d rs, folded s_def] by blast
  have f: "session_nodes_count s = session_nodes_count st" "recovery_round s = recovery_round st"
    "ota_target_slot s = ota_target_slot st" "page_start_offset s = page_start_offset st" "page_crc s = page_crc st"
    "effects s = effects st @ es1" "room_above s" "chunk_datagram s = chunk_datagram st"
    using room by (simp_all add: s room_above_def) (rule chunk_datagram_cong, simp_all)
  have p: "page_ok s" "running_ok s" "pc s \<noteq> Undefined" using oks w(1) by (simp_all add: coord_ok_def s)
  obtain es where es: "sends es = map (Pair hop) (map (chunk_datagram s) (missing_chunks 0 s))"
    and c: "if recovery_round s < OTA_MAX_PAGE_RECOVERY_ROUNDS
     then \<exists>es' pkt. timer_run nets (after_wait net s) = s\<lparr>dist_chunk_idx := total_chunks s, recovery_round := Suc (recovery_round s),
            node_replied := replicate MAX_NODES False, retry_count := 0, end_pkt := pkt, pc := WaitReports,
            effects := effects s @ es @ es'\<rparr> \<and>
          sends es' = [(hop, page_end_datagram (ota_target_slot s) (page_start_offset s) (page_crc s))]
     else \<exists>k. timer_run nets (after_wait net s) = finish_page (s\<lparr>dist_chunk_idx := total_chunks s, pc := k, effects := effects s @ es\<rparr>)"
    using after_wait_run [OF p _ f(7) _ _ nets(2)] n miss nets(1) f(1) m by auto
  have st': "st' = timer_run nets (after_wait net s)" by (simp add: st'_def s_def [symmetric] r)
  show ?thesis
  proof (cases "recovery_round st < OTA_MAX_PAGE_RECOVERY_ROUNDS")
    case True
    with c obtain es' pkt where "st' = s\<lparr>dist_chunk_idx := total_chunks s, recovery_round := Suc (recovery_round s),
            node_replied := replicate MAX_NODES False, retry_count := 0, end_pkt := pkt, pc := WaitReports,
            effects := effects s @ es @ es'\<rparr>"
      "sends es' = [(hop, page_end_datagram (ota_target_slot s) (page_start_offset s) (page_crc s))]"
      unfolding st' f(2) by auto
    then show ?thesis using True s(2,3) es by (intro exI [of _ "es1 @ es @ es'"]) (simp add: f m)
  next
    case False
    with c obtain k where "st' = finish_page (s\<lparr>dist_chunk_idx := total_chunks s, pc := k, effects := effects s @ es\<rparr>)"
      unfolding st' f(2) by auto
    then show ?thesis using False s(2,3) es
      by (intro exI [of _ "es1 @ es @ [Uart ''FW:PAGE_OK'']"]) (simp add: f m finish_page_def Let_def)
  qed
qed

text \<open>A page every node has completely is finished: the UART hears \<open>FW:PAGE_OK\<close>, nothing is sent any
  more, and the coordinator is ready for the next page, whose expected size is the smaller of 4096
  and the rest of the file.\<close>

theorem complete_page_advances:
  assumes ok: "coord_ok st" and w: "pc st = WaitReports" "node_replied st = replicate MAX_NODES False"
    and n: "0 < session_nodes_count st" and d: "distinct (map iid (active_nodes st))"
    and rs: "all_reported st rs" "list_all (\<lambda>(r, a). length (br_bitmap r) = 8) rs"
    and none: "chunks_missed st rs = []"
    and st': "st' = distribute_resume net BitmapEvent (receive_bitmap_reports rs st)"
  shows "takes_data st' \<and> pc st' = Idle \<and> page_bytes_received st' = 0 \<and> active_nodes st' = active_nodes st \<and>
    unat (page_start_offset st') = unat (page_start_offset st) + unat (expected_page_size st) \<and>
    unat (expected_page_size st') = min 4096 (unat (current_file_size st) - unat (page_start_offset st')) \<and>
    (\<exists>es. effects st' = effects st @ es \<and> sends es = [] \<and> PostBitmapReceived \<in> set es \<and> last es = Uart ''FW:PAGE_OK'')"
proof -
  define s where "s = receive_bitmap_reports rs st"
  obtain nr bs es1 where s: "s = st\<lparr>node_replied := nr, session_bitmaps := bs, effects := effects st @ es1\<rparr>"
    "sends es1 = []" "PostBitmapReceived \<in> set es1" and r: "distribute_resume net BitmapEvent s = after_wait net s"
    and oks: "coord_ok s" and m: "missing_chunks 0 s = chunks_missed st rs"
    using reported_round [OF ok w n d rs, folded s_def] by blast
  have "ota_page_is_complete (total_chunks s) s" using none m missing_none_iff [of s] by simp
  then have st'': "st' = finish_page s" by (simp add: st' s_def [symmetric] r after_wait_def)
  have p: "page_ok s" using oks by (simp add: coord_ok_def)
  have "running_ok s" using oks w(1) by (simp add: coord_ok_def s)
  then have "takes_data st'"
    using finish_page_ok [OF p] n by (simp add: takes_data_def st'' finish_page_def Let_def s running_ok_def)
  moreover have t: "transfer_ok s" using p by (simp add: page_ok_def)
  note finish_page_next [OF t, folded st'']
  moreover have "effects st' = effects st @ (es1 @ [Uart ''FW:PAGE_OK''])" "pc st' = Idle" "page_bytes_received st' = 0"
    "active_nodes st' = active_nodes st"
    by (simp_all add: st'' finish_page_def Let_def s active_nodes_def)
  moreover have "sends (es1 @ [Uart ''FW:PAGE_OK'']) = []" "PostBitmapReceived \<in> set (es1 @ [Uart ''FW:PAGE_OK''])"
    "last (es1 @ [Uart ''FW:PAGE_OK'']) = Uart ''FW:PAGE_OK''" using s(2,3) by simp_all
  ultimately show ?thesis by (simp add: s)
qed

section \<open>Timeouts\<close>

lemma active_nodes_keep:
  fixes st :: coord_state
  shows "active_nodes (wait_queue net k st) = active_nodes st" "active_nodes (send_chunk net st) = active_nodes st"
    "active_nodes (send_paced net ms k st) = active_nodes st" "active_nodes (finish_page st) = active_nodes st"
    "active_nodes (recovery_head net st) = active_nodes st"
  by (simp_all add: wait_queue_def send_chunk_def send_paced_def finish_page_def send_page_end_def recovery_head_def
      Let_def active_nodes_def)

lemma recover_pass_nodes: "active_nodes (recover_pass net st) = active_nodes st"
proof (induction net st rule: recover_pass.induct)
  case (1 net st)
  show ?case
    using 1 by (subst recover_pass.simps) (simp add: active_nodes_keep active_nodes_def [of "dist_chunk_idx_update _ _"] active_nodes_def [of st])
qed

text \<open>C24. The third report timeout of a round drops exactly the nodes that have not answered in it, provided
  some node has: the session goes on with the nodes that replied, in their order, and there is at
  least one.\<close>

theorem silent_nodes_dropped:
  assumes ok: "coord_ok st" and w: "pc st = WaitReports" "retry_count st = 2"
    and some: "i < session_nodes_count st" "node_replied st ! i"
    and st': "st' = distribute_resume net TimerEvent st"
  shows "active_nodes st' = map fst (filter snd (zip (active_nodes st) (node_replied st))) \<and>
    active_nodes st' \<noteq> [] \<and> coord_ok st'"
proof -
  define s where "s = st\<lparr>retry_count := 3\<rparr>"
  let ?k = "\<lambda>i. node_replied st ! i"
  have ses: "session_ok s" and ses': "session_ok st" using ok by (simp_all add: s_def coord_ok_def coord_inv_defs)
  have "list_ex ?k [0..<session_nodes_count st]" using some by (auto simp: list_ex_iff)
  then have "st' = after_wait net (compact_nodes ?k s)"
    using w by (simp add: st' distribute_resume_def report_timeout_def Let_def s_def)
  then have "active_nodes st' = active_nodes (compact_nodes ?k s)"
    by (simp add: after_wait_def active_nodes_keep recover_pass_nodes) (simp add: active_nodes_def)
  also have "\<dots> = map ((!) (session_nodes st)) (filter ?k [0..<session_nodes_count st])"
    unfolding compact_nodes_result(2) [OF ses] by (simp add: s_def)
  finally have a: "active_nodes st' = map ((!) (session_nodes st)) (filter ?k [0..<session_nodes_count st])" .
  have "zip (active_nodes st) (node_replied st) = map (\<lambda>i. (session_nodes st ! i, node_replied st ! i)) [0..<session_nodes_count st]"
    using ses' by (intro nth_equalityI) (simp_all add: active_nodes_map session_ok_def)
  then have "active_nodes st' = map fst (filter snd (zip (active_nodes st) (node_replied st)))"
    unfolding a by (simp add: filter_map comp_def)
  moreover have "active_nodes st' \<noteq> []" unfolding a using some by (auto simp: filter_empty_conv)
  moreover have "coord_ok st'" unfolding st' by (rule distribute_resume_ok [OF ok])
  ultimately show ?thesis by simp
qed

text \<open>What a resumption sends while no node at all answers: when a timer has expired and the queue has
  room, one PAGE_END.\<close>

definition page_end_copies :: "coord_state \<Rightarrow> net_env \<times> proc_event \<Rightarrow> (ipaddr \<times> u8 list) list" where
  "page_end_copies st = (\<lambda>(net, ev).
     case line_next_hop net of
       Some hop \<Rightarrow>
         if ev = TimerEvent \<and> ota_downstream_queue_ready net
         then [(hop, page_end_datagram (ota_target_slot st) (page_start_offset st) (page_crc st))] else []
     | None \<Rightarrow> [])"

definition unanswered :: "coord_state \<Rightarrow> coord_state \<Rightarrow> bool" where
  "unanswered st0 st \<longleftrightarrow>
     pc st \<in> {WaitReports, QueueResend} \<and> end_ready st \<and> active_nodes st = active_nodes st0 \<and>
     session_nodes_count st = session_nodes_count st0 \<and> node_replied st = node_replied st0 \<and>
     recovery_round st = recovery_round st0 \<and> page_start_offset st = page_start_offset st0 \<and>
     page_crc st = page_crc st0 \<and> ota_target_slot st = ota_target_slot st0"

lemma unanswered_copies: "unanswered st0 st \<Longrightarrow> page_end_copies st = page_end_copies st0"
  by (auto simp: unanswered_def page_end_copies_def fun_eq_iff split: option.split)

lemma resend_unanswered:
  assumes "end_ready st" and pc: "pc st \<in> {WaitReports, QueueResend}" and st': "st' = resend_page_end net (st\<lparr>retry_count := n\<rparr>)"
  shows "unanswered st st'"
    "\<exists>es. effects st' = effects st @ es \<and> sends es = page_end_copies st (net, TimerEvent) \<and> (\<forall>s. Uart s \<notin> set es)"
proof -
  have b: "send_packet net (end_pkt st) FW_PACKET_HEADER_LEN = send_to_all net (page_end_bytes st)"
    using assms(1) by (simp add: send_packet_def end_ready_def)
  have no_uart: "Uart s \<notin> set (send_to_all net bs)" for s bs by (auto dest: send_to_all_sends)
  show "unanswered st st'"
    using assms(1)
    by (simp add: unanswered_def st' resend_page_end_def send_page_end_def wait_queue_def say_def active_nodes_def
        end_ready_def page_end_bytes_eq)
  show "\<exists>es. effects st' = effects st @ es \<and> sends es = page_end_copies st (net, TimerEvent) \<and> (\<forall>s. Uart s \<notin> set es)"
    using b no_uart
    by (auto simp: st' resend_page_end_def send_page_end_def wait_queue_def say_def page_end_copies_def
        page_end_bytes_eq send_to_all_def split: option.split)
qed

lemma unanswered_step:
  assumes w: "pc st \<in> {WaitReports, QueueResend}" "end_ready st"
    and none: "\<And>i. i < session_nodes_count st \<Longrightarrow> \<not> node_replied st ! i"
    and ev: "ev \<noteq> BitmapEvent" and st': "st' = distribute_resume net ev st"
  shows "unanswered st st'"
    "\<exists>es. effects st' = effects st @ es \<and> sends es = page_end_copies st (net, ev) \<and> (\<forall>s. Uart s \<notin> set es)"
proof -
  have none': "\<not> list_ex (\<lambda>i. node_replied st ! i) [0..<session_nodes_count st]"
    using none by (auto simp: list_ex_iff)
  have "unanswered st st' \<and>
    (\<exists>es. effects st' = effects st @ es \<and> sends es = page_end_copies st (net, ev) \<and> (\<forall>s. Uart s \<notin> set es))"
  proof (cases "ev = TimerEvent")
    case True
    have r: "report_timeout net st = resend_page_end net (st\<lparr>retry_count := if retry_count st \<ge> 2 then 0 else Suc (retry_count st)\<rparr>)"
      using none' by (simp add: report_timeout_def Let_def numeral_3_eq_3 numeral_2_eq_2)
    have "\<exists>n. st' = resend_page_end net (st\<lparr>retry_count := n\<rparr>)"
      using w(1) r by (auto simp: st' True distribute_resume_def intro: exI [of _ "retry_count st"])
    then show ?thesis using resend_unanswered [OF w(2,1)] True by blast
  next
    case False
    then have "st' = st" using w(1) ev by (cases ev) (auto simp: st' distribute_resume_def)
    then show ?thesis
      using w False by (auto simp: unanswered_def page_end_copies_def split: option.split)
  qed
  then show "unanswered st st'"
    "\<exists>es. effects st' = effects st @ es \<and> sends es = page_end_copies st (net, ev) \<and> (\<forall>s. Uart s \<notin> set es)"
    by blast+
qed

lemma unanswered_run:
  assumes "pc st \<in> {WaitReports, QueueResend}" "end_ready st"
    and "\<And>i. i < session_nodes_count st \<Longrightarrow> \<not> node_replied st ! i"
    and "list_all (\<lambda>(net, ev). ev \<noteq> BitmapEvent) evs"
    and "st' = fold (\<lambda>(net, ev). distribute_resume net ev) evs st"
  shows "unanswered st st' \<and> (\<exists>es. effects st' = effects st @ es \<and>
    sends es = concat (map (page_end_copies st) evs) \<and> (\<forall>s. Uart s \<notin> set es))"
  using assms
proof (induction evs arbitrary: st)
  case Nil
  then show ?case by (simp add: unanswered_def)
next
  case (Cons e evs)
  obtain net ev where e: "e = (net, ev)" by fastforce
  define s where "s = distribute_resume net ev st"
  have "ev \<noteq> BitmapEvent" using Cons.prems(4) by (simp add: e)
  note step = unanswered_step [OF Cons.prems(1-3) this s_def]
  note u = step(1) [unfolded unanswered_def]
  have none: "\<not> node_replied s ! i" if "i < session_nodes_count s" for i using that u Cons.prems(3) by simp
  have evs: "list_all (\<lambda>(net, ev). ev \<noteq> BitmapEvent) evs" "st' = fold (\<lambda>(net, ev). distribute_resume net ev) evs s"
    using Cons.prems(4,5) by (simp_all add: e s_def)
  from u have w: "pc s \<in> {WaitReports, QueueResend}" "end_ready s" by blast+
  from Cons.IH [OF w none evs] obtain es' where rest: "unanswered s st'" "effects st' = effects s @ es'"
    "sends es' = concat (map (page_end_copies s) evs)" "\<forall>x. Uart x \<notin> set es'" by blast
  from step(2) obtain es where es: "effects s = effects st @ es" "sends es = page_end_copies st (net, ev)"
    "\<forall>x. Uart x \<notin> set es" by blast
  have "unanswered st st'" using rest(1) u by (simp add: unanswered_def)
  moreover have "effects st' = effects st @ (es @ es')" "sends (es @ es') = concat (map (page_end_copies st) (e # evs))"
    using rest(2,3) es(1,2) unanswered_copies [OF step(1)] by (simp_all add: e)
  ultimately show ?case using rest(4) es(3) by (intro conjI exI [of _ "es @ es'"]) auto
qed

text \<open>C25. Without answers a page is never given up. If the process waits for reports with the PAGE_END of its
  page prepared, no node has answered in the current round, and no report arrives, then after any
  sequence of other events the process is still waiting; it has sent exactly one PAGE_END for each
  expired timer at which the queue had room and a next hop was known, and nothing else. The
  recovery rounds do not advance, all nodes stay in the session, and the UART hears nothing.\<close>

theorem silence_never_ends:
  assumes w: "pc st \<in> {WaitReports, QueueResend}" "end_ready st"
    and none: "\<And>i. i < session_nodes_count st \<Longrightarrow> \<not> node_replied st ! i"
    and evs: "list_all (\<lambda>(net, ev). ev \<noteq> BitmapEvent) evs"
    and st': "st' = fold (\<lambda>(net, ev). distribute_resume net ev) evs st"
  shows "pc st' \<in> {WaitReports, QueueResend} \<and> active_nodes st' = active_nodes st \<and>
    recovery_round st' = recovery_round st \<and>
    (\<exists>es. effects st' = effects st @ es \<and> sends es = concat (map (page_end_copies st) evs) \<and> (\<forall>s. Uart s \<notin> set es))"
  using unanswered_run [OF assms] by (simp add: unanswered_def)

section \<open>A page of two chunks, two nodes\<close>

definition sample_awaiting :: coord_state where
  "sample_awaiting =
     coord_initial\<lparr>current_file_size := 96, expected_page_size := 96, distribution_in_progress := True, ota_target_slot := 1,
       session_nodes := sample_ip 2 # sample_ip 3 # replicate 14 (replicate 16 0), session_nodes_count := 2,
       pc := WaitReports, dist_chunk_idx := 2, total_chunks := 2, recovery_round := 1\<rparr>"

definition sample_bitmap_report :: "u8 \<Rightarrow> bitmap_report" where
  "sample_bitmap_report b = \<lparr>br_type = PKT_TYPE_BITMAP_REPORT, br_status = 0, br_page_offset = 0, br_bitmap = b # replicate 7 0\<rparr>"

lemma sample_awaiting_ok: "coord_ok (sample_awaiting\<lparr>retry_count := r, node_replied := nr @ replicate 14 False\<rparr>)"
  if "length nr = 2" "r \<le> 2"
  using that by (simp add: OTA_MAX_PAGE_RECOVERY_ROUNDS_def coord_ok_def coord_inv_defs sample_awaiting_def coord_initial_def list_all_iff PAGE_SIZE_def MAX_NODES_def
      chunk_count_def)

lemma sample_awaiting_facts:
  "coord_ok sample_awaiting" "pc sample_awaiting = WaitReports" "node_replied sample_awaiting = replicate MAX_NODES False"
  "0 < session_nodes_count sample_awaiting" "active_nodes sample_awaiting = [sample_ip 2, sample_ip 3]" "room_above sample_awaiting"
  "total_chunks sample_awaiting = 2" "page_start_offset sample_awaiting = 0" "recovery_round sample_awaiting = 1"
  "expected_page_size sample_awaiting = 96" "session_nodes_count sample_awaiting = 2"
  "distinct (map iid (active_nodes sample_awaiting))"
  by (simp_all add: coord_ok_def coord_inv_defs sample_awaiting_def coord_initial_def list_all_iff PAGE_SIZE_def MAX_NODES_def
      chunk_count_def room_above_def active_nodes_def OTA_MAX_PAGE_RECOVERY_ROUNDS_def iid_def sample_ip_def)

lemma sample_reported:
  assumes rs: "rs = [(sample_bitmap_report a, sample_ip 2), (sample_bitmap_report b, sample_ip 3)]"
  shows "all_reported sample_awaiting rs" "list_all (\<lambda>(r, a). length (br_bitmap r) = 8) rs"
    "chunks_missed sample_awaiting rs =
       filter (\<lambda>c. \<not> bitmap_bit (a # replicate 7 0) c \<or> \<not> bitmap_bit (b # replicate 7 0) c) [0, 1]"
proof -
  have f: "first_page_report 0 rs (sample_ip 2) = Some (sample_bitmap_report a)"
    "first_page_report 0 rs (sample_ip 3) = Some (sample_bitmap_report b)"
    by (simp_all add: rs first_page_report_def sample_bitmap_report_def iid_def sample_ip_def)
  show "all_reported sample_awaiting rs" by (simp add: all_reported_def sample_awaiting_facts f)
  show "list_all (\<lambda>(r, a). length (br_bitmap r) = 8) rs" by (simp add: rs sample_bitmap_report_def)
  show "chunks_missed sample_awaiting rs =
       filter (\<lambda>c. \<not> bitmap_bit (a # replicate 7 0) c \<or> \<not> bitmap_bit (b # replicate 7 0) c) [0, 1]"
    by (simp add: chunks_missed_def sample_awaiting_facts reported_bitmap_def f) (simp add: sample_bitmap_report_def upt_rec numeral_2_eq_2)
qed

lemma sample_bits:
  "bitmap_bit (3 # replicate 7 0) 0" "bitmap_bit (3 # replicate 7 0) (Suc 0)"
  "bitmap_bit (1 # replicate 7 0) 0" "\<not> bitmap_bit (1 # replicate 7 0) (Suc 0)"
  by (simp_all add: bitmap_bit_def)

theorem recovery_resends_missing_witness:
  "let st = sample_awaiting;
       st' = timer_run [sample_routes] (distribute_resume sample_routes BitmapEvent (receive_bitmap_reports
         [(sample_bitmap_report 3, sample_ip 2), (sample_bitmap_report 1, sample_ip 3)] st))
   in pc st' = WaitReports \<and> recovery_round st' = 2"
proof -
  let ?rs = "[(sample_bitmap_report 3, sample_ip 2), (sample_bitmap_report 1, sample_ip 3)]"
  note r = sample_reported [OF refl, of 3 1]
  have m: "chunks_missed sample_awaiting ?rs = [1]" unfolding r(3) using sample_bits by simp
  have nets: "length [sample_routes] = length (chunks_missed sample_awaiting ?rs)"
    "list_all (ready_hop (sample_ip 2)) (sample_routes # [sample_routes])"
    by (simp_all add: m sample_routes_ready)
  have miss: "chunks_missed sample_awaiting ?rs \<noteq> []" by (simp add: m)
  from recovery_resends_missing [OF sample_awaiting_facts(1-4,12,6) r(1,2) miss nets]
  show ?thesis by (auto simp: sample_awaiting_facts(9) OTA_MAX_PAGE_RECOVERY_ROUNDS_def Let_def)
qed

theorem complete_page_advances_witness:
  "unat (page_start_offset (distribute_resume sample_routes BitmapEvent (receive_bitmap_reports
     [(sample_bitmap_report 3, sample_ip 2), (sample_bitmap_report 3, sample_ip 3)] sample_awaiting))) = 96"
proof -
  let ?rs = "[(sample_bitmap_report 3, sample_ip 2), (sample_bitmap_report 3, sample_ip 3)]"
  note r = sample_reported [OF refl, of 3 3]
  have m: "chunks_missed sample_awaiting ?rs = []" unfolding r(3) using sample_bits by simp
  from complete_page_advances [OF sample_awaiting_facts(1-4,12) r(1,2) m refl, of sample_routes]
  show ?thesis by (simp add: sample_awaiting_facts)
qed

theorem silent_nodes_dropped_witness:
  "active_nodes (distribute_resume sample_routes TimerEvent
     (sample_awaiting\<lparr>retry_count := 2, node_replied := [False, True] @ replicate 14 False\<rparr>)) = [sample_ip 3]"
proof -
  let ?st = "sample_awaiting\<lparr>retry_count := 2, node_replied := [False, True] @ replicate 14 False\<rparr>"
  have a: "active_nodes ?st = [sample_ip 2, sample_ip 3]" using sample_awaiting_facts(5) by (simp add: active_nodes_def)
  have "coord_ok ?st" "pc ?st = WaitReports" "retry_count ?st = 2" "1 < session_nodes_count ?st" "node_replied ?st ! 1"
    using sample_awaiting_ok [of "[False, True]" 2] by (simp_all add: sample_awaiting_facts)
  from silent_nodes_dropped [OF this refl, of sample_routes] show ?thesis unfolding a by simp
qed

theorem silence_never_ends_witness:
  "let st = sample_awaiting\<lparr>end_pkt := \<lparr>pk_type = PKT_TYPE_PAGE_END, pk_offset = 0, pk_length = 0, pk_target_slot = 1,
           pk_data = (\<lambda>_. 0)\<rparr>\<rparr>;
       st' = fold (\<lambda>(net, ev). distribute_resume net ev) (replicate 100 (sample_routes, TimerEvent)) st
   in pc st' \<in> {WaitReports, QueueResend} \<and>
     (\<exists>es. effects st' = es \<and> sends es = replicate 100 (sample_ip 2, page_end_datagram 1 0 0))"
proof -
  let ?p = "\<lparr>pk_type = PKT_TYPE_PAGE_END, pk_offset = 0, pk_length = 0, pk_target_slot = 1, pk_data = (\<lambda>_. 0)\<rparr>"
  let ?st = "sample_awaiting\<lparr>end_pkt := ?p\<rparr>"
  have f: "effects ?st = []" "ota_target_slot ?st = 1" "page_start_offset ?st = 0" "page_crc ?st = 0"
    by (simp_all add: sample_awaiting_def coord_initial_def)
  have "end_ready ?st"
    using f by (simp add: end_ready_def page_end_bytes_eq page_end_datagram_def header_bytes)
  moreover have "\<And>i. i < session_nodes_count ?st \<Longrightarrow> \<not> node_replied ?st ! i"
    by (simp add: sample_awaiting_facts MAX_NODES_def)
  moreover have "list_all (\<lambda>(net, ev). ev \<noteq> BitmapEvent) (replicate 100 (sample_routes, TimerEvent))"
    by (simp add: list_all_iff)
  moreover have "pc ?st \<in> {WaitReports, QueueResend}" by (simp add: sample_awaiting_facts)
  moreover have "page_end_copies ?st (sample_routes, TimerEvent) = [(sample_ip 2, page_end_datagram 1 0 0)]"
    using sample_routes_ready f by (simp add: page_end_copies_def ready_hop_def)
  then have "concat (map (page_end_copies ?st) (replicate n (sample_routes, TimerEvent))) =
      replicate n (sample_ip 2, page_end_datagram 1 0 0)" for n
    by (induction n) simp_all
  ultimately show ?thesis
    using silence_never_ends [of ?st "replicate 100 (sample_routes, TimerEvent)", OF _ _ _ _ refl] f(1)
    unfolding Let_def by auto
qed

end
