(* ===== verification/Page_Frame.thy ===== *)
theory Page_Frame
  imports Recovery
begin

text \<open>
  What one resumption of the distribution process can do: it stays on its page, sends nothing but
  packets of that page, keeps or drops nodes but never swaps their bitmaps, and leaves the page
  only through \<open>finish_page\<close>.
\<close>

definition same_page :: "coord_state \<Rightarrow> coord_state \<Rightarrow> bool" where
  "same_page c c' \<longleftrightarrow>
     page_start_offset c' = page_start_offset c \<and> expected_page_size c' = expected_page_size c \<and>
     current_file_size c' = current_file_size c \<and> ota_target_slot c' = ota_target_slot c \<and>
     page_buffer c' = page_buffer c \<and> page_crc c' = page_crc c \<and> total_chunks c' = total_chunks c \<and>
     start_admission_in_progress c' = start_admission_in_progress c"

definition nodes_from :: "coord_state \<Rightarrow> coord_state \<Rightarrow> bool" where
  "nodes_from c c' \<longleftrightarrow>
     (\<forall>i < session_nodes_count c'. \<exists>j < session_nodes_count c.
        session_nodes c' ! i = session_nodes c ! j \<and> session_bitmaps c' ! i = session_bitmaps c ! j)"

definition page_packets :: "coord_state \<Rightarrow> u8 list set" where
  "page_packets c = insert (page_end_bytes c) (chunk_bytes c ` {..<total_chunks c})"

definition page_frame :: "coord_state \<Rightarrow> coord_state \<Rightarrow> bool" where
  "page_frame c c' \<longleftrightarrow>
     same_page c c' \<and> nodes_from c c' \<and>
     (\<exists>es. effects c' = effects c @ es \<and> snd ` set (sends es) \<subseteq> page_packets c)"

lemma same_page_packets:
  assumes "same_page c c'" shows "page_packets c' = page_packets c"
proof -
  have "chunk_bytes c' i = chunk_bytes c i" for i using assms by (intro chunk_bytes_cong) (simp_all add: same_page_def)
  moreover have "page_end_bytes c' = page_end_bytes c" using assms by (simp add: page_end_bytes_eq same_page_def)
  ultimately show ?thesis using assms by (simp add: page_packets_def same_page_def)
qed

lemma page_frame_trans:
  assumes 1: "page_frame c c'" and 2: "page_frame c' c''"
  shows "page_frame c c''"
proof -
  have "same_page c c''" using assms by (simp add: page_frame_def same_page_def)
  moreover have "nodes_from c c''"
    unfolding nodes_from_def
  proof (intro allI impI)
    fix i assume "i < session_nodes_count c''"
    with 2 obtain j where j: "j < session_nodes_count c'" "session_nodes c'' ! i = session_nodes c' ! j"
      "session_bitmaps c'' ! i = session_bitmaps c' ! j"
      unfolding page_frame_def nodes_from_def by blast
    from j(1) 1 obtain l where "l < session_nodes_count c" "session_nodes c' ! j = session_nodes c ! l"
      "session_bitmaps c' ! j = session_bitmaps c ! l"
      unfolding page_frame_def nodes_from_def by blast
    with j show "\<exists>j < session_nodes_count c. session_nodes c'' ! i = session_nodes c ! j \<and> session_bitmaps c'' ! i = session_bitmaps c ! j"
      by auto
  qed
  moreover obtain es where es: "effects c' = effects c @ es" "snd ` set (sends es) \<subseteq> page_packets c"
    using 1 unfolding page_frame_def by blast
  moreover obtain es' where es': "effects c'' = effects c' @ es'" "snd ` set (sends es') \<subseteq> page_packets c'"
    using 2 unfolding page_frame_def by blast
  have pp: "page_packets c' = page_packets c" using 1 by (intro same_page_packets) (simp add: page_frame_def)
  have "effects c'' = effects c @ (es @ es')" using es es' by simp
  moreover have "snd ` set (sends (es @ es')) \<subseteq> page_packets c" using es es' pp by auto
  ultimately show ?thesis unfolding page_frame_def by blast
qed

lemma page_frame_same:
  "same_page c c' \<Longrightarrow> session_nodes c' = session_nodes c \<Longrightarrow> session_nodes_count c' = session_nodes_count c \<Longrightarrow>
   session_bitmaps c' = session_bitmaps c \<Longrightarrow> effects c' = effects c @ es \<Longrightarrow>
   snd ` set (sends es) \<subseteq> page_packets c \<Longrightarrow> page_frame c c'"
  unfolding page_frame_def nodes_from_def by auto

lemma page_frame_idx: "page_frame c (c\<lparr>dist_chunk_idx := i\<rparr>)"
  "page_frame c (c\<lparr>recovery_round := r\<rparr>)" "page_frame c (c\<lparr>retry_count := r\<rparr>)"
  by (rule page_frame_same [where es = "[]"]; simp add: same_page_def)+

text \<open>On to the next blocking point, or to the end of the page.\<close>

definition goes_on :: "coord_state \<Rightarrow> coord_state \<Rightarrow> bool" where
  "goes_on c c' \<longleftrightarrow>
     page_frame c c' \<and> pc c' \<noteq> Idle \<and> (awaits_reports (pc c') \<longrightarrow> end_ready c') \<or>
     (\<exists>c''. page_frame c c'' \<and> c' = finish_page c'')"

lemma goes_on_after: "page_frame c c' \<Longrightarrow> goes_on c' c'' \<Longrightarrow> goes_on c c''"
  unfolding goes_on_def using page_frame_trans by blast

lemma sends_packet: "snd ` set (sends (send_packet net pkt n)) \<subseteq> {take n (fw_packet_bytes pkt)}"
  by (simp add: send_packet_def send_to_all_def split: option.split)

lemma wait_queue_goes:
  assumes "k \<noteq> Idle" "awaits_reports k \<longrightarrow> end_ready c"
  shows "goes_on c (wait_queue net k c)"
proof -
  have "page_frame c (wait_queue net k c)"
    by (rule page_frame_same [where es = "[SetTimer DistTimer (ms_to_ticks net OTA_QUEUE_DRAIN_CHECK_MS)]"])
      (simp_all add: wait_queue_def say_def same_page_def)
  moreover have "end_ready (wait_queue net k c) = end_ready c"
    by (simp add: end_ready_def page_end_bytes_eq wait_queue_def say_def)
  ultimately show ?thesis using assms by (simp add: goes_on_def wait_queue_def)
qed

lemma send_paced_goes:
  assumes "page_ok c" "running_ok c" "dist_chunk_idx c < total_chunks c" "pc c \<noteq> Undefined" "in_chunk k"
  shows "goes_on c (send_paced net ms k c)"
proof -
  have "take (FW_PACKET_HEADER_LEN + unat (chunk_len c)) (fw_packet_bytes (chunk_packet c)) = chunk_bytes c (dist_chunk_idx c)"
    by (simp add: chunk_bytes_def)
  then have "snd ` set (sends (send_packet net (chunk_packet c) (FW_PACKET_HEADER_LEN + unat (chunk_len c)))) \<subseteq> page_packets c"
    using assms(3) by (intro subset_trans [OF sends_packet]) (simp add: page_packets_def)
  then have "page_frame c (send_paced net ms k c)"
    unfolding send_paced_eq [OF assms(1-4)]
    by (intro page_frame_same [where es = "send_packet net (chunk_packet c) (FW_PACKET_HEADER_LEN + unat (chunk_len c)) @
          [SetTimer DistTimer (ms_to_ticks net ms)]"]) (simp_all add: say_def same_page_def)
  moreover have "pc (send_paced net ms k c) = k" unfolding send_paced_eq [OF assms(1-4)] by simp
  ultimately show ?thesis using assms(5) by (auto simp: goes_on_def in_chunk_def)
qed

lemma finish_page_goes: "goes_on c (finish_page c)"
  using page_frame_idx(1) [of c "dist_chunk_idx c"] by (auto simp: goes_on_def)

lemma send_page_end_goes:
  assumes "end_ready c" shows "goes_on c (send_page_end net c)"
proof -
  have "snd ` set (sends (send_packet net (end_pkt c) FW_PACKET_HEADER_LEN)) \<subseteq> page_packets c"
    using assms by (intro subset_trans [OF sends_packet]) (simp add: page_packets_def end_ready_def)
  then have "page_frame c (send_page_end net c)"
    by (intro page_frame_same [where es = "send_packet net (end_pkt c) FW_PACKET_HEADER_LEN @
          [SetTimer DistTimer (CLOCK_SECOND net * OTA_PAGE_REPORT_TIMEOUT_SECONDS)]"])
      (simp_all add: send_page_end_def say_def same_page_def)
  moreover have "end_ready (send_page_end net c) = end_ready c"
    by (simp add: end_ready_def page_end_bytes_eq send_page_end_def say_def)
  ultimately show ?thesis using assms by (simp add: goes_on_def send_page_end_def)
qed

lemma recovery_head_goes: "goes_on c (recovery_head net c)"
proof -
  let ?p = "(end_pkt c)\<lparr>pk_type := PKT_TYPE_PAGE_END, pk_offset := page_start_offset c,
      pk_length := page_crc c, pk_target_slot := ota_target_slot c\<rparr>"
  let ?c = "c\<lparr>recovery_round := recovery_round c + 1, node_replied := replicate MAX_NODES False, retry_count := 0, end_pkt := ?p\<rparr>"
  have f: "page_frame c ?c" by (rule page_frame_same [where es = "[]"]) (simp_all add: same_page_def)
  have e: "end_ready ?c" by (simp add: end_ready_def page_end_bytes_eq page_end_datagram_def header_bytes)
  show ?thesis
    using goes_on_after [OF f send_page_end_goes [OF e]] goes_on_after [OF f wait_queue_goes [of QueueEnd]] e
    by (simp add: recovery_head_def Let_def finish_page_goes)
qed

lemma recover_pass_goes:
  assumes "page_ok c" "running_ok c" "pc c \<noteq> Undefined"
  shows "goes_on c (recover_pass net c)"
  using assms
proof (induction net c rule: recover_pass.induct)
  case (1 net c)
  show ?case
    using 1 page_frame_idx(1) [of c "Suc (dist_chunk_idx c)", THEN goes_on_after]
    by (subst recover_pass.simps) (simp add: wait_queue_goes send_paced_goes recovery_head_goes)
qed

lemma after_wait_goes:
  assumes "page_ok c" "running_ok c" "pc c \<noteq> Undefined"
  shows "goes_on c (after_wait net c)"
  using assms page_frame_idx(1) [of c 0, THEN goes_on_after, OF recover_pass_goes]
  by (simp add: after_wait_def finish_page_goes)

lemma resend_page_end_goes: "end_ready c \<Longrightarrow> goes_on c (resend_page_end net c)"
  by (simp add: resend_page_end_def send_page_end_goes wait_queue_goes)

lemma compact_frame:
  assumes "session_ok c" shows "page_frame c (compact_nodes keep c)"
proof -
  let ?f = "filter keep [0..<session_nodes_count c]"
  obtain ns bs where c: "compact_nodes keep c = c\<lparr>session_nodes := ns, session_bitmaps := bs, session_nodes_count := length ?f\<rparr>"
    using compact_nodes_result(1) [OF assms] by blast
  have n: "take (length ?f) ns = map ((!) (session_nodes c)) ?f" "take (length ?f) bs = map ((!) (session_bitmaps c)) ?f"
    using compact_nodes_result(2,3) [OF assms, of keep] by (simp_all add: c active_nodes_def active_bitmaps_def)
  have "ns ! i = session_nodes c ! (?f ! i) \<and> bs ! i = session_bitmaps c ! (?f ! i) \<and> ?f ! i < session_nodes_count c"
    if "i < length ?f" for i
  proof -
    have "ns ! i = take (length ?f) ns ! i" "bs ! i = take (length ?f) bs ! i" using that by simp_all
    moreover have "?f ! i \<in> set ?f" using that by (rule nth_mem)
    ultimately show ?thesis unfolding n using that by simp
  qed
  then have "nodes_from c (compact_nodes keep c)" unfolding nodes_from_def c by auto
  then show ?thesis unfolding page_frame_def by (intro conjI exI [of _ "[]"]) (simp_all add: c same_page_def)
qed

lemma first_pass_goes:
  assumes "page_ok c" "running_ok c" "pc c \<noteq> Undefined"
  shows "goes_on c (first_pass net c)"
    "dist_chunk_idx c < total_chunks c \<Longrightarrow> goes_on c (first_pass_chunk net c)"
proof -
  show 1: "dist_chunk_idx c < total_chunks c \<Longrightarrow> goes_on c (first_pass_chunk net c)"
    using assms by (simp add: first_pass_chunk_def send_paced_goes wait_queue_goes)
  show "goes_on c (first_pass net c)"
    using 1 page_frame_idx(2) [of c 0, THEN goes_on_after, OF recovery_head_goes] by (simp add: first_pass_def)
qed

lemma report_timeout_goes:
  assumes "page_ok c" "running_ok c" "pc c \<noteq> Undefined" "retry_count c \<le> 2" "end_ready c"
  shows "goes_on c (report_timeout net c)"
proof -
  define s where "s = c\<lparr>retry_count := Suc (retry_count c)\<rparr>"
  have r: "report_timeout net c =
      (if retry_count c \<ge> 2 then
         if list_ex (\<lambda>i. node_replied c ! i) [0..<session_nodes_count c]
         then after_wait net (compact_nodes ((!) (node_replied c)) s)
         else resend_page_end net (c\<lparr>retry_count := 0\<rparr>)
       else resend_page_end net s)"
    by (simp add: report_timeout_def Let_def s_def numeral_3_eq_3 numeral_2_eq_2)
  have sf: "page_frame c s" unfolding s_def by (rule page_frame_idx)
  have ready: "end_ready (c\<lparr>retry_count := n\<rparr>)" for n
    using assms(5) by (simp add: end_ready_def page_end_bytes_eq)
  have ok: "session_ok s" "page_ok s" "running_ok s" using assms by (simp_all add: s_def coord_inv_defs)
  define q where "q = compact_nodes ((!) (node_replied c)) s"
  obtain ns bs n where k: "q = s\<lparr>session_nodes := ns, session_bitmaps := bs, session_nodes_count := n\<rparr>"
    unfolding q_def using compact_nodes_result(1) [OF ok(1)] by blast
  have "session_ok q" unfolding q_def by (rule compact_nodes_result(4) [OF ok(1)])
  then have "page_ok q" "running_ok q" "pc q \<noteq> Undefined"
    using ok assms(3) by (simp_all add: k s_def page_ok_def transfer_ok_def counters_ok_def running_ok_def)
  from after_wait_goes [OF this] have "goes_on q (after_wait net q)" .
  moreover have "page_frame c q" unfolding q_def by (rule page_frame_trans [OF sf compact_frame [OF ok(1)]])
  ultimately have "goes_on c (after_wait net q)" by (rule goes_on_after [rotated])
  moreover have "goes_on c (resend_page_end net (c\<lparr>retry_count := n\<rparr>))" for n
    by (rule goes_on_after [OF page_frame_idx(3) resend_page_end_goes [OF ready]])
  ultimately show ?thesis unfolding r by (simp add: s_def q_def)
qed

lemma distribute_resume_goes:
  assumes ok: "coord_ok c" "pc c \<noteq> Idle" and e: "awaits_reports (pc c) \<longrightarrow> end_ready c"
  shows "goes_on c (distribute_resume net ev c)"
proof -
  have p: "page_ok c" "running_ok c" "pc c \<noteq> Undefined" using ok by (simp_all add: coord_ok_def)
  have stay: "goes_on c c" using ok(2) e page_frame_idx(1) [of c "dist_chunk_idx c"] by (simp add: goes_on_def)
  have idx: "page_ok (c\<lparr>dist_chunk_idx := i\<rparr>)" "running_ok (c\<lparr>dist_chunk_idx := i\<rparr>)"
    "pc (c\<lparr>dist_chunk_idx := i\<rparr>) \<noteq> Undefined" for i using p by simp_all
  show ?thesis
    using ok(1) e stay
    by (cases "pc c"; cases ev)
      (auto simp: distribute_resume_def coord_ok_def [of c] reports_posted_def wait_queue_goes send_page_end_goes
        report_timeout_goes after_wait_goes [OF p] resend_page_end_goes recover_pass_goes [OF p]
        first_pass_goes(2) [OF p] goes_on_after [OF page_frame_idx(1) first_pass_goes(1) [OF idx]]
        goes_on_after [OF page_frame_idx(1) recover_pass_goes [OF idx]])
qed

end
