(* ===== verification/Lossy_Flow.thy ===== *)
theory Lossy_Flow
  imports Sensor_Flow
begin

text \<open>
  A node on a lossy network: DATA packets of the current page arrive or not, and its PAGE_END may come
  before its chunks are complete. What remains true is enough for the coordinator: a bitmap that
  reports a page as complete is only ever sent once the page is stored and counted in the
  checksum. A PAGE_END that comes early is refused, except that the checksum of the incomplete page
  may agree by chance; then the node commits early, which does no harm since the checksum is
  linear.
\<close>

definition page_full :: "image \<Rightarrow> nat \<Rightarrow> u8 list \<Rightarrow> bool" where
  "page_full im k bm \<longleftrightarrow> (\<forall>q \<in> page_chunks im k. bitmap_bit bm (q mod 64))"

definition uncommitted :: "'s sensor_env \<Rightarrow> image \<Rightarrow> nat \<Rightarrow> 's sensor_state \<Rightarrow> 's sensor_state" where
  "uncommitted E im k st =
     st\<lparr>running_fw_crc := crc16_data E (im_bytes im 0 (4096 * k)) 0, last_crc_committed_page_offset := NO_PAGE\<rparr>"

lemma zeros_not_full: "4096 * k < im_size im \<Longrightarrow> \<not> page_full im k (replicate 8 0)"
  by (auto simp: page_full_def page_chunks_def intro!: exI [of _ "64 * k"])

lemma uncommitted_fields [simp]:
  "current_file_size (uncommitted E im k st) = current_file_size st"
  "ota_target_slot (uncommitted E im k st) = ota_target_slot st"
  "current_rx_page_offset (uncommitted E im k st) = current_rx_page_offset st"
  "page_bitmap (uncommitted E im k st) = page_bitmap st" "page_0_erased (uncommitted E im k st) = page_0_erased st"
  "ota_session_active (uncommitted E im k st) = ota_session_active st" "backend (uncommitted E im k st) = backend st"
  by (simp_all add: uncommitted_def)

lemma uncommitted_commutes:
  "uncommitted E im k st\<lparr>current_rx_page_offset := p, page_bitmap := bm\<rparr> = uncommitted E im k (st\<lparr>current_rx_page_offset := p, page_bitmap := bm\<rparr>)"
  "uncommitted E im k st\<lparr>page_0_erased := z, backend := s\<rparr> = uncommitted E im k (st\<lparr>page_0_erased := z, backend := s\<rparr>)"
  "uncommitted E im k st\<lparr>backend := s\<rparr> = uncommitted E im k (st\<lparr>backend := s\<rparr>)"
  "uncommitted E im k st\<lparr>page_bitmap := bm\<rparr> = uncommitted E im k (st\<lparr>page_bitmap := bm\<rparr>)"
  "uncommitted E im k st\<lparr>backend := s, page_bitmap := bm\<rparr> = uncommitted E im k (st\<lparr>backend := s, page_bitmap := bm\<rparr>)"
  "forward net f raw (uncommitted E im k st) = uncommitted E im k (forward net f raw st)"
  by (cases st; simp add: uncommitted_def forward_def emit_def)+

lemma rx_select_uncommitted:
  "rx_select_page E pkt (uncommitted E im k st) =
     (case rx_select_page E pkt st of (r, st') \<Rightarrow> (r, uncommitted E im k st'))"
  unfolding rx_select_page_def Let_def
  by (simp add: uncommitted_commutes split: prod.split)

lemma rx_store_uncommitted:
  "rx_store_chunk E pkt (uncommitted E im k st) = uncommitted E im k (rx_store_chunk E pkt st)"
  unfolding rx_store_chunk_def Let_def
  by (simp add: uncommitted_commutes split: prod.split bool.split)

lemma handle_data_uncommitted:
  "handle_data E net pkt raw fwd (uncommitted E im k st) = uncommitted E im k (handle_data E net pkt raw fwd st)"
  unfolding handle_data_def Let_def
  by (simp add: uncommitted_commutes rx_select_uncommitted rx_store_uncommitted split: prod.split bool.split)

section \<open>What an event does to the report and the effects\<close>

text \<open>The events that can be on the air while page \<open>k\<close> is distributed.\<close>

fun event_sent :: "nat \<Rightarrow> rx_event \<Rightarrow> bool" where
  "event_sent k (Chunk q) \<longleftrightarrow> q div 64 \<le> k"
| "event_sent k (PageEnd p) \<longleftrightarrow> p \<le> k"

lemma sensor_step_data_eq:
  assumes "is_event E im t (Chunk q) (net, sender, data, datalen)"
  shows "sensor_step E (net, sender, data, datalen) st =
    handle_data E net (fw_packet_at data) (buf_bytes data 0 (unat datalen)) (packet_should_forward net sender) st"
  using assms
  by (auto simp: sensor_step_def dgram_packet_def dgram_complete_def sensor_udp_rx_def Let_def is_data_chunk_def
      fw_packet_at_def pkt_type_defs split: prod.splits)

lemma sensor_step_page_end_eq:
  assumes "is_event E im t (PageEnd k) (net, sender, data, datalen)"
  shows "sensor_step E (net, sender, data, datalen) st =
    handle_page_end E net (fw_packet_at data) (buf_bytes data 0 (unat datalen)) (packet_should_forward net sender) st"
  using assms
  by (auto simp: sensor_step_def dgram_packet_def dgram_complete_def sensor_udp_rx_def Let_def is_page_end_def
      fw_packet_at_def pkt_type_defs split: prod.splits)

lemma forward_report [simp]:
  "report_to_send (forward net f raw st) = report_to_send st" "current_rx_page_offset (forward net f raw st) = current_rx_page_offset st"
  by (simp_all add: forward_def emit_def)

lemma forward_effects: "\<exists>es. effects (forward net f raw st) = effects st @ es \<and> (\<forall>hop bs. SendTo hop bs \<in> set es \<longrightarrow> bs = raw)"
  by (auto simp: forward_def emit_def dest: send_to_all_sends)

lemma rx_select_report:
  "rx_select_page E pkt st = (r, st') \<Longrightarrow> report_to_send st' = report_to_send st \<and> effects st' = effects st"
  by (auto simp: rx_select_page_def Let_def split: prod.splits if_splits)

lemma rx_store_report:
  "report_to_send (rx_store_chunk E pkt st) = report_to_send st \<and> effects (rx_store_chunk E pkt st) = effects st"
  by (auto simp: rx_store_chunk_def Let_def split: prod.split bool.split)

lemma handle_data_report:
  "report_to_send (handle_data E net pkt raw f st) = report_to_send st \<and>
   effects (handle_data E net pkt raw f st) = effects (forward net f raw st)"
proof -
  let ?fw = "forward net f raw st"
  obtain r st' where sel: "rx_select_page E pkt ?fw = (r, st')" by (cases "rx_select_page E pkt ?fw")
  have "handle_data E net pkt raw f st \<in> {?fw, st', rx_store_chunk E pkt st'}"
    by (cases r) (auto simp: handle_data_def sel Let_def)
  then show ?thesis using rx_select_report [OF sel] rx_store_report [of E pkt st'] by auto
qed

lemma handle_data_crc:
  "running_fw_crc (handle_data E net pkt raw f st) = running_fw_crc st \<and>
   last_crc_committed_page_offset (handle_data E net pkt raw f st) = last_crc_committed_page_offset st"
proof -
  let ?fw = "forward net f raw st"
  obtain r st' where sel: "rx_select_page E pkt ?fw = (r, st')" by (cases "rx_select_page E pkt ?fw")
  have "running_fw_crc st' = running_fw_crc ?fw \<and> last_crc_committed_page_offset st' = last_crc_committed_page_offset ?fw"
    using sel by (auto simp: rx_select_page_def Let_def split: prod.splits if_splits)
  moreover have "running_fw_crc (rx_store_chunk E pkt st') = running_fw_crc st' \<and>
      last_crc_committed_page_offset (rx_store_chunk E pkt st') = last_crc_committed_page_offset st'"
    by (auto simp: rx_store_chunk_def Let_def split: prod.split bool.split)
  moreover have "handle_data E net pkt raw f st \<in> {?fw, st', rx_store_chunk E pkt st'}"
    by (cases r) (auto simp: handle_data_def sel Let_def)
  moreover have "running_fw_crc ?fw = running_fw_crc st \<and> last_crc_committed_page_offset ?fw = last_crc_committed_page_offset st"
    by (simp add: forward_def emit_def)
  ultimately show ?thesis by auto
qed

lemma send_page_report_effects:
  "\<exists>es. effects (send_page_report net st) = effects st @ es \<and> (\<forall>hop bs. SendTo hop bs \<notin> set es)"
  by (auto simp: send_page_report_def schedule_bitmap_send_def emit_def)

lemma send_page_report_report:
  "report_to_send (send_page_report net st) = report_to_send st \<or>
   (br_page_offset (report_to_send (send_page_report net st)) = current_rx_page_offset st \<and>
    br_bitmap (report_to_send (send_page_report net st)) = page_bitmap st)"
  by (auto simp: send_page_report_def schedule_bitmap_send_def emit_def)

lemma handle_page_end_report:
  "handle_page_end E net pkt raw f st = forward net f raw st \<or>
    (\<exists>s. handle_page_end E net pkt raw f st = send_page_report net s \<and> effects s = effects (forward net f raw st) \<and>
       report_to_send s = report_to_send st \<and> current_rx_page_offset s = pk_offset pkt)"
proof (cases "ota_session_active (forward net f raw st) \<and> pk_target_slot pkt = ota_target_slot (forward net f raw st) \<and>
      pk_offset pkt = current_rx_page_offset st")
  case True
  then show ?thesis
    by (intro disjI2) (simp add: handle_page_end_def Let_def split: prod.split, auto)
next
  case False
  then show ?thesis by (auto simp: handle_page_end_def Let_def)
qed

text \<open>The only datagrams a node sends when it handles DATA or PAGE_END are copies of the one it received.\<close>

lemma event_effects:
  assumes "is_event E im t ev (net, sender, data, datalen)"
  shows "\<exists>es. effects (sensor_step E (net, sender, data, datalen) st) = effects st @ es \<and>
    (\<forall>hop bs. SendTo hop bs \<in> set es \<longrightarrow> bs = buf_bytes data 0 (unat datalen))"
proof -
  let ?fw = "forward net (packet_should_forward net sender) (buf_bytes data 0 (unat datalen)) st"
  obtain es where es: "effects ?fw = effects st @ es" "\<forall>hop bs. SendTo hop bs \<in> set es \<longrightarrow> bs = buf_bytes data 0 (unat datalen)"
    using forward_effects by metis
  show ?thesis
  proof (cases ev)
    case (Chunk q)
    then show ?thesis using es by (simp add: sensor_step_data_eq [OF assms [unfolded Chunk]] handle_data_report)
  next
    case (PageEnd p)
    let ?st' = "sensor_step E (net, sender, data, datalen) st"
    have "?st' = ?fw \<or> (\<exists>s. ?st' = send_page_report net s \<and> effects s = effects ?fw)"
      unfolding sensor_step_page_end_eq [OF assms [unfolded PageEnd]] using handle_page_end_report by blast
    then obtain es' where "effects ?st' = effects ?fw @ es'" "\<forall>hop bs. SendTo hop bs \<notin> set es'"
      using send_page_report_effects by (metis append_Nil2 empty_iff list.set(1))
    with es show ?thesis by (intro exI [of _ "es @ es'"]) auto
  qed
qed

locale lossy_flow = sensor_flow E contents tracked + crc16_linear "crc16_data E"
  for E :: "'s sensor_env" and contents :: "'s \<Rightarrow> u8 \<Rightarrow> mem" and tracked :: "'s \<Rightarrow> u8 \<Rightarrow> u32 \<Rightarrow> bool"
begin

definition page_early :: "image \<Rightarrow> u8 \<Rightarrow> nat \<Rightarrow> 's sensor_state \<Rightarrow> bool" where
  "page_early im t k st \<longleftrightarrow>
     page_open E contents tracked im t k (uncommitted E im k st) \<and>
     running_fw_crc st = crc16_data E (im_bytes im 0 (page_end_offset im (Suc k))) 0 \<and>
     last_crc_committed_page_offset st = of_nat (4096 * k)"

lemma early_full:
  assumes e: "page_early im t k st" and f: "page_full im k (page_bitmap st)"
  shows "pages_done E contents tracked im t (Suc k) st"
proof -
  have o: "page_open E contents tracked im t k (uncommitted E im k st)" using e by (simp add: page_early_def)
  have "holds_image contents im t (Suc k) (uncommitted E im k st)"
    by (rule page_complete_holds [OF o]) (use f in \<open>simp add: page_full_def uncommitted_def\<close>)
  then show ?thesis
    using e f
    by (simp add: pages_done_def page_early_def page_open_def session_base_def holds_image_def rest_erased_def
        uncommitted_def page_full_def page_chunks_def)
qed

lemma early_chunk:
  assumes ev: "is_event E im t (Chunk q) d" "q div 64 \<le> k" and e: "page_early im t k st"
  shows "page_early im t k (sensor_step E d st)"
proof -
  obtain net sender data datalen where d: "d = (net, sender, data, datalen)" by (cases d) auto
  note s = sensor_step_data_eq [OF ev(1) [unfolded d]]
  have o: "page_open E contents tracked im t k (uncommitted E im k st)" using e by (simp add: page_early_def)
  have "page_open E contents tracked im t k (sensor_step E d (uncommitted E im k st))"
    using chunk_when_open(1,3) [OF ev(1) o] ev(2) by (cases "q div 64 = k") auto
  moreover have "running_fw_crc (handle_data E n p r f st) = running_fw_crc st \<and>
      last_crc_committed_page_offset (handle_data E n p r f st) = last_crc_committed_page_offset st" for n p r f
    by (rule handle_data_crc)
  ultimately show ?thesis using e unfolding page_early_def d s handle_data_uncommitted by simp
qed

text \<open>PAGE_END of the current page: refused with the bitmap cleared, or committed.\<close>

lemma page_end_current:
  assumes st: "page_open E contents tracked im t k st \<or> page_early im t k st" and sz: "im_size im + 4096 \<le> 2 ^ 32"
    and ev: "is_event E im t (PageEnd k) d"
  shows "page_open E contents tracked im t k (sensor_step E d st) \<and> page_bitmap (sensor_step E d st) = replicate 8 0 \<or>
    page_early im t k (sensor_step E d st)"
proof -
  obtain net sender data datalen where d: "d = (net, sender, data, datalen)" by (cases d) auto
  let ?pkt = "fw_packet_at data" and ?raw = "buf_bytes data 0 (unat datalen)" and ?f = "packet_should_forward net sender"
  have s: "sensor_step E d st = handle_page_end E net ?pkt ?raw ?f st"
    unfolding d by (rule sensor_step_page_end_eq [OF ev [unfolded d]])
  have at: "at_page im t k st"
    using st by (auto simp: page_early_def page_open_def at_page_def session_base_def)
  have pkt: "pk_offset ?pkt = of_nat (4096 * k)" "pk_target_slot ?pkt = t"
    "pk_length ?pkt = crc16_data E (im_bytes im (4096 * k) (page_end_offset im (Suc k))) 0"
    using ev by (simp_all add: d is_page_end_def dgram_packet_def)
  let ?bs = "mem_read (contents (backend st) t) (of_nat (4096 * k)) (page_end_offset im (Suc k) - 4096 * k)"
  let ?im = "im_bytes im (4096 * k) (page_end_offset im (Suc k))"
  obtain s' where s': "contents s' = contents (backend st)" "tracked s' = tracked (backend st)"
    and h: "sensor_step E d st = send_page_report net
       (if crc16_data E ?bs 0 = pk_length ?pkt
        then if last_crc_committed_page_offset st \<noteq> of_nat (4096 * k)
          then (forward net ?f ?raw st)\<lparr>backend := s', running_fw_crc := crc16_data E ?bs (running_fw_crc st),
                 last_crc_committed_page_offset := of_nat (4096 * k)\<rparr>
          else (forward net ?f ?raw st)\<lparr>backend := s'\<rparr>
        else (forward net ?f ?raw st)\<lparr>backend := s', page_bitmap := replicate 8 0\<rparr>)"
    by (rule handle_page_end_eq [OF at sz pkt(1,2), of net ?raw ?f, folded s])
  have k: "4096 * k < im_size im" using at by (simp add: at_page_def)
  have len: "length ?bs = length ?im" by (simp add: im_bytes_def)
  have app: "crc16_data E ?im (crc16_data E (im_bytes im 0 (4096 * k)) 0) = crc16_data E (im_bytes im 0 (page_end_offset im (Suc k))) 0"
    using k by (simp add: im_bytes_append page_end_offset_def flip: crc_append)
  note defs = page_open_def session_base_def holds_image_def rest_erased_def forward_def emit_def uncommitted_def
  show ?thesis
  proof (cases "crc16_data E ?bs 0 = crc16_data E ?im 0")
    case False
    then show ?thesis using st h s' unfolding pkt(3)
      by (simp add: page_early_def) (auto simp: defs)
  next
    case True
    from crc_acc [OF len True] have run: "crc16_data E ?bs c = crc16_data E ?im c" for c .
    show ?thesis
    proof (cases "page_early im t k st")
      case early: True
      then have "sensor_step E d st = send_page_report net ((forward net ?f ?raw st)\<lparr>backend := s'\<rparr>)"
        using h True unfolding pkt(3) by (simp add: page_early_def)
      then show ?thesis using early s' by (intro disjI2) (simp add: page_early_def, simp add: defs)
    next
      case False
      then have o: "page_open E contents tracked im t k st" using st by blast
      then have "sensor_step E d st = send_page_report net ((forward net ?f ?raw st)\<lparr>backend := s',
          running_fw_crc := crc16_data E ?im (running_fw_crc st), last_crc_committed_page_offset := of_nat (4096 * k)\<rparr>)"
        using h True unfolding pkt(3) run by (simp add: page_open_def)
      then show ?thesis using o s' app page_not_no_page [of k] by (intro disjI2) (simp add: page_early_def, simp add: defs)
    qed
  qed
qed

text \<open>A node somewhere in page \<open>k\<close>: it has nothing of it yet, or is receiving it, or has it.\<close>

definition node_at :: "image \<Rightarrow> u8 \<Rightarrow> nat \<Rightarrow> 's sensor_state \<Rightarrow> bool" where
  "node_at im t k st \<longleftrightarrow>
     pages_done E contents tracked im t k st \<or> page_open E contents tracked im t k st \<or> page_early im t k st \<or>
     pages_done E contents tracked im t (Suc k) st"

text \<open>What a bitmap report for page \<open>p\<close> may say while page \<open>k\<close> is distributed.\<close>

definition report_truthful :: "image \<Rightarrow> u8 \<Rightarrow> nat \<Rightarrow> 's sensor_state \<Rightarrow> bitmap_report \<Rightarrow> bool" where
  "report_truthful im t k st r \<longleftrightarrow>
     (\<forall>p. k \<le> p \<longrightarrow> 4096 * p < im_size im \<longrightarrow> br_page_offset r = of_nat (4096 * p) \<longrightarrow> page_full im p (br_bitmap r) \<longrightarrow>
        p = k \<and> pages_done E contents tracked im t (Suc k) st)"

lemma node_at_session: "node_at im t k st \<Longrightarrow> session_base E im t st"
  by (auto simp: node_at_def pages_done_def page_open_def page_early_def session_base_def)

lemma node_event:
  assumes ev: "is_event E im t ev d" "event_sent k ev" and sz: "im_size im + 4096 \<le> 2 ^ 32" and st: "node_at im t k st"
  shows "node_at im t k (sensor_step E d st)"
    and "pages_done E contents tracked im t (Suc k) st \<Longrightarrow> pages_done E contents tracked im t (Suc k) (sensor_step E d st)"
    and "report_to_send (sensor_step E d st) = report_to_send st \<or>
      report_truthful im t k (sensor_step E d st) (report_to_send (sensor_step E d st))"
proof -
  let ?st' = "sensor_step E d st"
  obtain net sender data datalen where d: "d = (net, sender, data, datalen)" by (cases d) auto
  let ?fw = "forward net (packet_should_forward net sender) (buf_bytes data 0 (unat datalen)) st"
  have k_lt: "4096 * p < 2 ^ 32" if "4096 * p < im_size im" for p using that sz by simp
  have eq: "4096 * p < im_size im \<Longrightarrow> 4096 * p' < im_size im \<Longrightarrow> (of_nat (4096 * p) :: u32) = of_nat (4096 * p') \<Longrightarrow> p = p'" for p p'
    using of_nat_eq_u32 [OF k_lt k_lt, of p p'] by simp
  have early_fw: "page_early im t k ?fw = page_early im t k st"
    by (simp add: page_early_def) (simp add: page_open_def session_base_def holds_image_def rest_erased_def forward_def emit_def uncommitted_def)
  have done_suc: "pages_done E contents tracked im t (Suc k) ?st'" if dn: "pages_done E contents tracked im t (Suc k) st"
  proof (cases ev)
    case (Chunk q)
    then show ?thesis using chunk_when_done(2) [OF ev(1) [unfolded Chunk] dn] ev(2) by simp
  next
    case (PageEnd p)
    then have "p < Suc k" using ev(2) by simp
    from late_page_end(2) [OF ev(1) [unfolded PageEnd] sz this dn] show ?thesis .
  qed
  then show "pages_done E contents tracked im t (Suc k) st \<Longrightarrow> pages_done E contents tracked im t (Suc k) ?st'" .
  have "node_at im t k ?st' \<and> (report_to_send ?st' = report_to_send st \<or> report_truthful im t k ?st' (report_to_send ?st'))"
  proof (cases ev)
    case (Chunk q)
    note ev' = ev [unfolded Chunk event_sent.simps]
    have rep: "report_to_send ?st' = report_to_send st"
      unfolding d sensor_step_data_eq [OF ev'(1) [unfolded d]] by (simp add: handle_data_report)
    have "node_at im t k ?st'"
    proof (cases "q div 64 = k")
      case True
      then show ?thesis
        using st chunk_when_done(1) [OF ev'(1)] chunk_when_open(1) [OF ev'(1)] early_chunk [OF ev'] done_suc
        unfolding node_at_def by blast
    next
      case False
      then have "q div 64 < k" using ev'(2) by simp
      then show ?thesis
        using st chunk_when_done(2) [OF ev'(1)] chunk_when_open(3) [OF ev'(1)] early_chunk [OF ev'] done_suc
        unfolding node_at_def by blast
    qed
    with rep show "node_at im t k ?st' \<and> (report_to_send ?st' = report_to_send st \<or> report_truthful im t k ?st' (report_to_send ?st'))"
      by blast
  next
    case (PageEnd p)
    note ev' = ev [unfolded PageEnd event_sent.simps]
    have o: "pk_offset (fw_packet_at data) = of_nat (4096 * p)" "4096 * p < im_size im"
      using ev'(1) by (simp_all add: d is_page_end_def dgram_packet_def)
    have s: "?st' = handle_page_end E net (fw_packet_at data) (buf_bytes data 0 (unat datalen)) (packet_should_forward net sender) st"
      unfolding d by (rule sensor_step_page_end_eq [OF ev'(1) [unfolded d]])
    have rep: "report_to_send ?st' = report_to_send st \<or>
        br_page_offset (report_to_send ?st') = of_nat (4096 * p) \<and> br_bitmap (report_to_send ?st') = page_bitmap ?st'"
      using handle_page_end_report [of E net "fw_packet_at data" "buf_bytes data 0 (unat datalen)" "packet_should_forward net sender" st]
        send_page_report_report o(1)
      unfolding s [symmetric] by (metis forward_report(1) send_page_report_fields(3))
    have skip: "?st' = ?fw" if "current_rx_page_offset st \<noteq> of_nat (4096 * p)"
      using that o(1) by (simp add: s handle_page_end_def Let_def)
    have cur_open: "current_rx_page_offset st = of_nat (4096 * k) \<and> 4096 * k < im_size im"
      if "page_open E contents tracked im t k st \<or> page_early im t k st"
      using that by (auto simp: page_open_def page_early_def)
    show "node_at im t k ?st' \<and> (report_to_send ?st' = report_to_send st \<or> report_truthful im t k ?st' (report_to_send ?st'))"
    proof (cases "p = k")
      case False
      then have lt: "p < k" using ev'(2) by simp
      have "report_truthful im t k ?st' (report_to_send ?st')"
        if "br_page_offset (report_to_send ?st') = of_nat (4096 * p)"
        using that lt eq [OF o(2)] by (fastforce simp: report_truthful_def)
      moreover have "page_early im t k ?st'" if e: "page_early im t k st"
      proof -
        have "current_rx_page_offset st \<noteq> of_nat (4096 * p)" using cur_open e eq [OF o(2), of k] lt by auto
        from skip [OF this] e show ?thesis by (simp add: early_fw)
      qed
      then have "node_at im t k ?st'"
        using st late_page_end(1,2) [OF ev'(1) sz lt] done_suc unfolding node_at_def by blast
      ultimately show ?thesis using rep by blast
    next
      case True
      consider (stored) "pages_done E contents tracked im t (Suc k) st" | (current) "page_open E contents tracked im t k st \<or> page_early im t k st"
        | (none) "pages_done E contents tracked im t k st" using st by (auto simp: node_at_def)
      then show ?thesis
      proof cases
        case stored
        from done_suc [OF this] have dn: "pages_done E contents tracked im t (Suc k) ?st'" .
        have "report_truthful im t k ?st' (report_to_send ?st')"
          if "br_page_offset (report_to_send ?st') = of_nat (4096 * p)"
          using that dn eq [OF o(2)] True by (auto simp: report_truthful_def)
        with dn rep show ?thesis by (auto simp: node_at_def)
      next
        case none
        have "current_rx_page_offset st \<noteq> of_nat (4096 * p)"
          using none o(2) True eq [OF o(2)] page_not_no_page [of k] by (cases k) (auto simp: pages_done_def)
        from skip [OF this] none show ?thesis by (simp add: node_at_def)
      next
        case current
        have ev'': "is_event E im t (PageEnd k) d" using ev'(1) True by simp
        from page_end_current [OF current sz ev''] have "page_full im k (page_bitmap ?st') \<Longrightarrow> pages_done E contents tracked im t (Suc k) ?st'"
          and at: "node_at im t k ?st'"
          using early_full zeros_not_full [of k im] o(2) True by (auto simp: node_at_def)
        then have "report_truthful im t k ?st' (report_to_send ?st')"
          if "br_page_offset (report_to_send ?st') = of_nat (4096 * p)" "br_bitmap (report_to_send ?st') = page_bitmap ?st'"
          using that eq [OF o(2)] True by (auto simp: report_truthful_def)
        with at rep show ?thesis by blast
      qed
    qed
  qed
  then show "node_at im t k ?st'" and "report_to_send ?st' = report_to_send st \<or> report_truthful im t k ?st' (report_to_send ?st')"
    by blast+
qed

end

end
