(* ===== verification/Rollout.thy ===== *)
theory Rollout
  imports Page_Frame Lossy_Flow
begin

text \<open>
  The coordinator and a node together. A rollout is any interleaving of the host sending the pages
  of the image, the coordinator's process running, datagrams the coordinator has sent reaching the
  node (each of them never, once, or often, early or late, forwarded by anyone), the node's report
  timer, and bitmap reports reaching the coordinator: those of the node as it sent them, those of
  other nodes with any content.

  What a rollout leaves out: it begins with empty logs of effects, so that no datagram or report of
  an earlier session is on its way, and with a node whose report buffer is as it was at boot; the
  host's lines of a page arrive completely and in order, once; and a page ends only with a complete
  bitmap of the node at the coordinator (\<open>node_complete\<close>). The code ends a page also when its ten
  recovery rounds are used up: from there on nothing is claimed of this node. \<open>FW:S\<close> and \<open>FW:V\<close> lines
  are not part of a rollout; \<open>Session_Start\<close>, \<open>Rollouts\<close> and \<open>End_To_End\<close> add them at its two ends.
\<close>

section \<open>Datagrams on the air\<close>

fun carries :: "(u8 list \<Rightarrow> u16 \<Rightarrow> u16) \<Rightarrow> image \<Rightarrow> u8 \<Rightarrow> rx_event \<Rightarrow> u8 list \<Rightarrow> bool" where
  "carries crc im t (Chunk q) bs \<longleftrightarrow>
     64 * q < im_size im \<and> bs = data_datagram t (64 * q) (im_bytes im (64 * q) (min (64 * q + 64) (im_size im)))"
| "carries crc im t (PageEnd p) bs \<longleftrightarrow>
     4096 * p < im_size im \<and>
     bs = page_end_datagram t (of_nat (4096 * p)) (crc (im_bytes im (4096 * p) (page_end_offset im (Suc p))) 0)"

fun event_before :: "nat \<Rightarrow> rx_event \<Rightarrow> bool" where
  "event_before n (Chunk q) \<longleftrightarrow> q div 64 < n"
| "event_before n (PageEnd p) \<longleftrightarrow> p < n"

lemma event_before_Suc: "event_before (Suc k) ev = event_sent k ev"
  by (cases ev) auto

lemma event_before_mono: "event_before m ev \<Longrightarrow> m \<le> n \<Longrightarrow> event_before n ev"
  by (cases ev) auto

lemma data_datagram_read:
  assumes "holds_bytes b (data_datagram t off bs)"
  shows "pk_type (fw_packet_at b) = PKT_TYPE_DATA" "pk_offset (fw_packet_at b) = of_nat off"
    "pk_length (fw_packet_at b) = of_nat (length bs)" "pk_target_slot (fw_packet_at b) = t"
    "\<And>i. i < length bs \<Longrightarrow> pk_data (fw_packet_at b) i = bs ! i"
  using assms unfolding data_datagram_def
  by (auto simp: holds_simps fw_packet_at_def numeral_eq_Suc dest!: holds_le32 holds_le16) (simp add: holds_bytes_def)

lemma page_end_datagram_read:
  assumes "holds_bytes b (page_end_datagram t p crc)"
  shows "pk_type (fw_packet_at b) = PKT_TYPE_PAGE_END" "pk_offset (fw_packet_at b) = p"
    "pk_length (fw_packet_at b) = crc" "pk_target_slot (fw_packet_at b) = t"
  using assms unfolding page_end_datagram_def
  by (auto simp: holds_simps fw_packet_at_def numeral_eq_Suc dest!: holds_le32 holds_le16)

lemma carries_event:
  assumes c: "carries (crc16_data E) im t ev bs" and h: "holds_bytes data bs" "unat datalen = length bs"
  shows "is_event E im t ev (net, sender, data, datalen)"
proof (cases ev)
  case (Chunk q)
  let ?bs = "im_bytes im (64 * q) (min (64 * q + 64) (im_size im))"
  have q: "64 * q < im_size im" and bs: "bs = data_datagram t (64 * q) ?bs" using c Chunk by simp_all
  note r = data_datagram_read [OF h(1) [unfolded bs]]
  have len: "length ?bs = min 64 (im_size im - 64 * q)" by (simp add: im_bytes_def)
  then have "unat (pk_length (fw_packet_at data)) = min 64 (im_size im - 64 * q)"
    unfolding r(3) by (subst length_le_64_u16) simp_all
  moreover have "pk_data (fw_packet_at data) i = im_byte im (64 * q + i)" if "i < min 64 (im_size im - 64 * q)" for i
    using r(5) [of i] that len by (simp add: im_bytes_def nth_append less_diff_conv add.commute)
  ultimately show ?thesis
    using q r(1,2,4) h(2) unfolding Chunk
    by (simp add: dgram_complete_def dgram_packet_def is_data_chunk_def bs data_datagram_def FW_PACKET_HEADER_LEN_def)
next
  case (PageEnd p)
  note bs = c [unfolded PageEnd carries.simps]
  note r = page_end_datagram_read [OF h(1) [unfolded bs [THEN conjunct2]]]
  show ?thesis
    using bs r h(2) unfolding PageEnd
    by (simp add: dgram_complete_def dgram_packet_def is_page_end_def page_end_datagram_def FW_PACKET_HEADER_LEN_def)
qed

lemma carries_type: "carries crc im t ev bs \<Longrightarrow> hd bs \<noteq> PKT_TYPE_BITMAP_REPORT"
  by (cases ev) (auto simp: data_datagram_def page_end_datagram_def pkt_type_defs)

section \<open>Rollouts\<close>

definition node_complete :: "ipaddr \<Rightarrow> coord_state \<Rightarrow> bool" where
  "node_complete ip c \<longleftrightarrow>
     (\<exists>i < session_nodes_count c. iid (session_nodes c ! i) = iid ip \<and>
        (\<forall>chunk < total_chunks c. bitmap_bit (session_bitmaps c ! i) chunk))"

text \<open>The coordinator after the START was admitted, with its log of effects begun anew.\<close>

definition session_admitted :: "image \<Rightarrow> u8 \<Rightarrow> coord_state \<Rightarrow> bool" where
  "session_admitted im t c \<longleftrightarrow>
     takes_data c \<and> pc c = Idle \<and> page_start_offset c = 0 \<and> page_bytes_received c = 0 \<and>
     unat (session_state.current_file_size c) = im_size im \<and> unat (expected_page_size c) = min 4096 (im_size im) \<and>
     session_state.ota_target_slot c = t \<and> session_state.effects c = []"

inductive rollout ::
    "'s sensor_env \<Rightarrow> image \<Rightarrow> u8 \<Rightarrow> u16 \<Rightarrow> ipaddr \<Rightarrow> coord_state \<Rightarrow> 's sensor_state \<Rightarrow> bool"
  for E im t sec ip where
  admitted: "session_admitted im t c \<Longrightarrow> is_start im t sec d \<Longrightarrow>
     be_start (se_backend E) t (pk_offset (dgram_packet d)) sec OTA_START_STATUS_REJECTED_TARGET (backend s) = ((True, q), s') \<Longrightarrow>
     br_bitmap (report_to_send s) = replicate 8 0 \<Longrightarrow>
     rollout E im t sec ip c ((sensor_step E d s)\<lparr>sensor_state.effects := []\<rparr>)"
| host: "rollout E im t sec ip c s \<Longrightarrow> pc c = Idle \<Longrightarrow> unat (page_start_offset c) < im_size im \<Longrightarrow>
     p = unat (page_start_offset c) \<Longrightarrow>
     rollout E im t sec ip
       (fold (ota_coordinator_handle_uart (crc16_data E) net)
          (py_page_lines p (im_bytes im p (p + unat (expected_page_size c)))) c) s"
| process: "rollout E im t sec ip c s \<Longrightarrow> c' = distribute_resume net ev c \<Longrightarrow>
     (pc c \<noteq> Idle \<longrightarrow> pc c' = Idle \<longrightarrow> node_complete ip c') \<Longrightarrow> rollout E im t sec ip c' s"
| deliver: "rollout E im t sec ip c s \<Longrightarrow> (hop, bs) \<in> set (sends (session_state.effects c)) \<Longrightarrow> holds_bytes data bs \<Longrightarrow>
     unat datalen = length bs \<Longrightarrow> rollout E im t sec ip c (sensor_udp_rx E net sender data datalen s)"
| report_timer: "rollout E im t sec ip c s \<Longrightarrow> rollout E im t sec ip c (send_report_callback net s)"
| report: "rollout E im t sec ip c s \<Longrightarrow>
     (iid sender = iid ip \<longrightarrow> (\<exists>hop bs. SendTo hop bs \<in> set (sensor_state.effects s) \<and> bs \<noteq> [] \<and> holds_bytes data bs)) \<Longrightarrow>
     rollout E im t sec ip (handle_coordinator_report data datalen sender c) s"

end
