(* ===== verification/Rollout_Inv.thy ===== *)
theory Rollout_Inv
  imports Rollout
begin

text \<open>
  The invariant of rollouts, and what follows from it: a page the coordinator counts as complete for
  the node is stored on the node.
\<close>

section \<open>The coordinator's side\<close>

text \<open>Between two pages, and while page \<open>k\<close> is distributed.\<close>

definition coord_between :: "image \<Rightarrow> u8 \<Rightarrow> nat \<Rightarrow> coord_state \<Rightarrow> bool" where
  "coord_between im t k c \<longleftrightarrow>
     takes_data c \<and> pc c = Idle \<and> page_bytes_received c = 0 \<and>
     unat (page_start_offset c) = page_end_offset im k \<and>
     unat (session_state.current_file_size c) = im_size im \<and>
     unat (expected_page_size c) = min 4096 (im_size im - page_end_offset im k) \<and>
     session_state.ota_target_slot c = t"

definition page_loaded :: "(u8 list \<Rightarrow> u16 \<Rightarrow> u16) \<Rightarrow> image \<Rightarrow> u8 \<Rightarrow> nat \<Rightarrow> coord_state \<Rightarrow> bool" where
  "page_loaded crc im t k c \<longleftrightarrow>
     4096 * k < im_size im \<and> unat (page_start_offset c) = 4096 * k \<and>
     unat (session_state.current_file_size c) = im_size im \<and>
     unat (expected_page_size c) = page_end_offset im (Suc k) - 4096 * k \<and>
     session_state.ota_target_slot c = t \<and>
     page_bytes c = im_bytes im (4096 * k) (page_end_offset im (Suc k)) \<and> page_crc c = crc (page_bytes c) 0"

definition sent_before :: "(u8 list \<Rightarrow> u16 \<Rightarrow> u16) \<Rightarrow> image \<Rightarrow> u8 \<Rightarrow> nat \<Rightarrow> coord_state \<Rightarrow> bool" where
  "sent_before crc im t n c \<longleftrightarrow>
     (\<forall>bs \<in> snd ` set (sends (session_state.effects c)). \<exists>ev. carries crc im t ev bs \<and> event_before n ev)"

lemma page_loaded_frame:
  assumes "page_loaded crc im t k c" "same_page c c'" shows "page_loaded crc im t k c'"
proof -
  have "page_bytes c' = page_bytes c" using assms(2) by (simp add: page_bytes_def same_page_def)
  then show ?thesis using assms by (simp add: page_loaded_def same_page_def)
qed

lemma loaded_page_start:
  assumes "page_loaded crc im t k c" shows "page_start_offset c = of_nat (4096 * k)"
proof -
  have "of_nat (unat (page_start_offset c)) = page_start_offset c" by simp
  then show ?thesis using assms by (simp only: page_loaded_def)
qed

lemma page_end_carried:
  assumes l: "page_loaded crc im t k c"
  shows "carries crc im t (PageEnd k) (page_end_bytes c)"
  using l loaded_page_start [OF l] by (simp add: page_end_bytes_eq page_loaded_def del: of_nat_mult)

lemma chunk_carried:
  assumes l: "page_loaded crc im t k c" and ok: "page_ok c" "running_ok c" and sz: "im_size im + 4096 \<le> 2 ^ 32"
    and i: "i < total_chunks c"
  shows "carries crc im t (Chunk (64 * k + i)) (chunk_datagram c i)" "chunk_bytes c i = chunk_datagram c i" "i < 64"
proof -
  have k: "4096 * k < im_size im" and p: "unat (page_start_offset c) = 4096 * k"
    and e: "unat (expected_page_size c) = page_end_offset im (Suc k) - 4096 * k"
    and b: "page_bytes c = im_bytes im (4096 * k) (page_end_offset im (Suc k))"
    using l by (simp_all add: page_loaded_def)
  have room: "room_above c" using l sz by (simp add: room_above_def page_loaded_def)
  let ?q = "64 * k + i"
  have i': "64 * i < unat (expected_page_size c)" using ok(2) i by (simp add: running_ok_def chunk_count_less)
  show i64: "i < 64" using i' e by (simp add: page_end_offset_def)
  have q: "64 * ?q < im_size im" "64 * ?q = 4096 * k + 64 * i" using i' e by (simp_all add: page_end_offset_def)
  have "take 64 (drop (64 * i) (page_bytes c)) = im_bytes im (64 * ?q) (min (64 * ?q + 64) (page_end_offset im (Suc k)))"
    unfolding b im_bytes_def q(2)
    by (rule nth_equalityI) (auto simp: less_diff_conv add.assoc)
  also have "min (64 * ?q + 64) (page_end_offset im (Suc k)) = min (64 * ?q + 64) (im_size im)"
    using i64 by (simp add: page_end_offset_def min_def)
  finally show "carries crc im t (Chunk ?q) (chunk_datagram c i)"
    using q l by (simp add: chunk_datagram_def p page_loaded_def)
  show "chunk_bytes c i = chunk_datagram c i" by (rule chunk_bytes_eq [OF ok i room])
qed

lemma page_packets_carried:
  assumes l: "page_loaded crc im t k c" and ok: "page_ok c" "running_ok c" and sz: "im_size im + 4096 \<le> 2 ^ 32"
    and bs: "bs \<in> page_packets c"
  shows "\<exists>ev. carries crc im t ev bs \<and> event_before (Suc k) ev"
proof (cases "bs = page_end_bytes c")
  case True
  with page_end_carried [OF l] show ?thesis by (intro exI [of _ "PageEnd k"]) simp
next
  case False
  then obtain i where i: "i < total_chunks c" "bs = chunk_bytes c i" using bs by (auto simp: page_packets_def)
  note c = chunk_carried [OF l ok sz i(1)]
  have "event_before (Suc k) (Chunk (64 * k + i))" using c(3) by simp
  with c(1,2) i(2) show ?thesis by (intro exI [of _ "Chunk (64 * k + i)"]) (simp del: carries.simps)
qed

lemma sent_before_frame:
  assumes "page_loaded crc im t k c" "page_ok c" "running_ok c" "im_size im + 4096 \<le> 2 ^ 32"
    and "sent_before crc im t (Suc k) c" "page_frame c c'"
  shows "sent_before crc im t (Suc k) c'"
proof -
  obtain es where es: "session_state.effects c' = session_state.effects c @ es" "snd ` set (sends es) \<subseteq> page_packets c"
    using assms(6) by (auto simp: page_frame_def)
  then show ?thesis
    using assms(5) page_packets_carried [OF assms(1-4)] unfolding sent_before_def by (auto 0 3)
qed

text \<open>All chunks of the page at the coordinator are all chunks of the page of the image.\<close>

lemma chunk_in_total:
  assumes l: "page_loaded crc im t k c" and r: "running_ok c" and q: "q \<in> page_chunks im k"
  shows "q mod 64 < total_chunks c"
proof -
  have "64 * q = 4096 * k + 64 * (q mod 64)" using q chunk_in_page [of q] by (simp add: page_chunks_def)
  moreover have "64 * (q mod 64) < 4096" by simp
  ultimately have "64 * (q mod 64) < page_end_offset im (Suc k) - 4096 * k"
    using q by (simp add: page_chunks_def page_end_offset_def less_diff_conv)
  then show ?thesis using l r by (simp add: running_ok_def page_loaded_def chunk_count_less)
qed

lemma complete_full:
  assumes l: "page_loaded crc im t k c" and r: "running_ok c" and all: "\<forall>chunk < total_chunks c. bitmap_bit bm chunk"
  shows "page_full im k bm"
  using all chunk_in_total [OF l r] by (simp add: page_full_def)

lemma finish_page_between:
  assumes l: "page_loaded crc im t k c" and t: "transfer_ok c" and adm: "\<not> start_admission_in_progress c"
    and ok: "coord_ok (finish_page c)" and n: "0 < session_nodes_count c"
  shows "coord_between im t (Suc k) (finish_page c)"
proof -
  have le: "4096 * k \<le> page_end_offset im (Suc k)" using l by (simp add: page_loaded_def page_end_offset_def)
  have f: "session_state.current_file_size (finish_page c) = session_state.current_file_size c"
    "session_state.ota_target_slot (finish_page c) = session_state.ota_target_slot c" "pc (finish_page c) = Idle"
    "page_bytes_received (finish_page c) = 0" "session_nodes_count (finish_page c) = session_nodes_count c"
    "start_admission_in_progress (finish_page c) = start_admission_in_progress c" "\<not> distribution_in_progress (finish_page c)"
    by (simp_all add: finish_page_def Let_def)
  have start: "unat (page_start_offset (finish_page c)) = page_end_offset im (Suc k)"
    unfolding finish_page_next(1) [OF t] using l le by (simp add: page_loaded_def)
  have "takes_data (finish_page c)" using ok adm n f by (simp add: takes_data_def)
  moreover have "unat (expected_page_size (finish_page c)) = min 4096 (im_size im - page_end_offset im (Suc k))"
    unfolding finish_page_next(2) [OF t] start using l by (simp add: page_loaded_def)
  ultimately show ?thesis using start f l by (simp add: coord_between_def page_loaded_def)
qed

text \<open>The host sends a page: the process starts on it.\<close>

lemma host_page_loads:
  assumes c: "coord_between im t k c" and p: "p = unat (page_start_offset c)" "p < im_size im"
    and c': "c' = fold (ota_coordinator_handle_uart crc net) (py_page_lines p (im_bytes im p (p + unat (expected_page_size c)))) c"
  obtains s where "page_loaded crc im t k s" "page_frame s c'" "coord_ok c'" "pc c' \<noteq> Idle" "\<not> awaits_reports (pc c')"
    "page_ok s" "running_ok s" "sends (session_state.effects s) = sends (session_state.effects c)"
    "\<And>i. i < session_nodes_count s \<Longrightarrow> session_bitmaps s ! i = replicate 8 0"
proof -
  define bytes where "bytes = im_bytes im p (p + unat (expected_page_size c))"
  have td: "takes_data c" "pc c = Idle" "page_bytes_received c = 0" using c by (simp_all add: coord_between_def)
  have pk: "p = 4096 * k" "4096 * k < im_size im" using c p by (auto simp: coord_between_def page_end_offset_def min_def split: if_splits)
  have e: "unat (expected_page_size c) = page_end_offset im (Suc k) - 4096 * k" "4096 * k < page_end_offset im (Suc k)"
    using c pk by (auto simp: coord_between_def page_end_offset_def min_def)
  have bytes: "bytes = im_bytes im (4096 * k) (page_end_offset im (Suc k))" "length bytes = unat (expected_page_size c)" "bytes \<noteq> []"
    using e unfolding bytes_def pk by (simp_all add: im_bytes_def)
  let ?b = "page_in_buffer bytes c"
  note f = page_in_buffer_facts [OF td(1) bytes(2,3) td(2)]
  have bf: "expected_page_size ?b = expected_page_size c" "page_start_offset ?b = page_start_offset c"
    "session_state.current_file_size ?b = session_state.current_file_size c"
    "session_state.ota_target_slot ?b = session_state.ota_target_slot c"
    "sends (session_state.effects ?b) = sends (session_state.effects c)"
    by (simp_all add: page_in_buffer_def)
  have "c' = distribute_start crc net ?b"
    unfolding c' p(1) using page_lines_start [OF td(1,3) bytes(2,3) td(2)] by (simp add: bytes_def p(1))
  moreover define s where "s = ?b\<lparr>total_chunks := (unat (expected_page_size ?b) + 63) div 64,
      page_crc := crc (take (unat (expected_page_size ?b)) (page_buffer ?b)) 0,
      session_bitmaps := replicate MAX_NODES (replicate 8 0), dist_chunk_idx := 0\<rparr>"
  ultimately have start: "c' = first_pass net s" using f(5) by (simp add: distribute_start_def Let_def)
  have tc: "total_chunks s = chunk_count (unat (expected_page_size c))" by (simp add: s_def chunk_count_def bf)
  have "chunk_count (unat (expected_page_size c)) \<le> 64"
    using f(1) chunk_count_le [of "unat (expected_page_size c)"] by (simp add: coord_inv_defs PAGE_SIZE_def bf)
  then have s: "page_ok s" "running_ok s" "pc s = Idle" "dist_chunk_idx s = 0"
    using f(1-4) by (simp_all add: s_def coord_inv_defs chunk_count_def list_all_iff bf)
  have "0 < total_chunks s" using f(3) by (simp add: tc bf chunk_count_less [of 0, simplified])
  then have chunk: "c' = first_pass_chunk net s" using s(4) by (simp add: start first_pass_def)
  have ok': "coord_ok c'" unfolding start using s by (intro first_pass_ok) simp_all
  have np: "pc c' \<in> {PaceFirst, QueueFirst}"
    using \<open>0 < total_chunks s\<close> s unfolding chunk by (simp add: first_pass_chunk_def send_paced_eq wait_queue_def)
  have "goes_on s c'"
    unfolding chunk using s \<open>0 < total_chunks s\<close> by (intro first_pass_goes(2)) simp_all
  moreover have "pc (finish_page x) = Idle" for x by (simp add: finish_page_def Let_def)
  ultimately have "page_frame s c'" using np unfolding goes_on_def by auto
  moreover have sf: "page_start_offset s = page_start_offset c" "expected_page_size s = expected_page_size c"
    "session_state.current_file_size s = session_state.current_file_size c"
    "session_state.ota_target_slot s = session_state.ota_target_slot c"
    "page_bytes s = bytes" "page_crc s = crc bytes 0"
    using f(6) by (simp_all add: s_def bf page_bytes_def)
  have "page_loaded crc im t k s"
    using c pk(2) e(1) p(1) unfolding page_loaded_def sf coord_between_def pk(1) [symmetric] bytes(1)
    by (simp add: pk(1))
  moreover have "session_bitmaps s ! i = replicate 8 0" if "i < session_nodes_count s" for i
    using that s(1) by (simp add: s_def coord_inv_defs)
  ultimately show ?thesis
    using that [of s] s np ok' by (auto simp: s_def bf(5))
qed

section \<open>Reports of the node\<close>

lemma event_report_bitmap:
  assumes "is_event E im t ev d"
  shows "report_to_send (sensor_step E d st) = report_to_send st \<or>
    br_bitmap (report_to_send (sensor_step E d st)) = page_bitmap (sensor_step E d st)"
proof -
  obtain net sender data datalen where d: "d = (net, sender, data, datalen)" by (cases d) auto
  show ?thesis
  proof (cases ev)
    case (Chunk q)
    show ?thesis unfolding d sensor_step_data_eq [OF assms [unfolded d Chunk]] by (simp add: handle_data_report)
  next
    case (PageEnd p)
    then show ?thesis
      using handle_page_end_report [of E net "fw_packet_at data" "buf_bytes data 0 (unat datalen)" "packet_should_forward net sender" st]
        send_page_report_report
      unfolding d sensor_step_page_end_eq [OF assms [unfolded d PageEnd]]
      by (metis forward_report(1) send_page_report_fields(3))
  qed
qed

lemma coordinator_report_other:
  assumes "\<not> start_admission_in_progress c" "data 0 \<noteq> PKT_TYPE_BITMAP_REPORT"
  shows "handle_coordinator_report data datalen a c = c"
  using assms by (simp add: handle_coordinator_report_def ota_coordinator_handle_start_report_def)

lemma coordinator_report_bitmap:
  assumes "\<not> start_admission_in_progress c"
  shows "handle_coordinator_report data datalen a c = c \<or>
    handle_coordinator_report data datalen a c = handle_bitmap_report (bitmap_report_at data) a c"
  using assms by (simp add: handle_coordinator_report_def ota_coordinator_handle_start_report_def)

text \<open>A bitmap report changes the bitmap of one node, which the sender's address names.\<close>

lemma handle_bitmap_report_cases:
  obtains (same) "handle_bitmap_report r a c = c"
  | (stored) f es where "br_page_offset r = page_start_offset c" "f < session_nodes_count c"
      "iid (session_nodes c ! f) = iid a" "sends es = []"
      "handle_bitmap_report r a c = c\<lparr>node_replied := (node_replied c)[f := True],
         session_bitmaps := (session_bitmaps c)[f := br_bitmap r], session_state.effects := session_state.effects c @ es\<rparr>"
proof (cases "br_page_offset r = page_start_offset c \<and> (\<exists>f. find_session_node_by_addr a c = Some f \<and> \<not> node_replied c ! f)")
  case True
  then obtain f where f: "br_page_offset r = page_start_offset c" "find_session_node_by_addr a c = Some f" "\<not> node_replied c ! f" by blast
  let ?c = "c\<lparr>node_replied := (node_replied c)[f := True], session_bitmaps := (session_bitmaps c)[f := br_bitmap r]\<rparr>"
  have "handle_bitmap_report r a c = (if all_replied ?c then say [PostBitmapReceived] ?c else ?c)"
    using f by (simp add: handle_bitmap_report_def Let_def)
  also have "\<dots> = c\<lparr>node_replied := (node_replied c)[f := True], session_bitmaps := (session_bitmaps c)[f := br_bitmap r],
      session_state.effects := session_state.effects c @ (if all_replied ?c then [PostBitmapReceived] else [])\<rparr>"
    by (simp add: say_def)
  finally show ?thesis
    using f by (intro stored) (simp_all add: find_session_node_Some)
next
  case False
  then have "handle_bitmap_report r a c = c" by (auto simp: handle_bitmap_report_def split: option.split)
  then show ?thesis by (rule same)
qed

section \<open>The invariant\<close>

context lossy_flow
begin

definition reports_ok :: "image \<Rightarrow> u8 \<Rightarrow> nat \<Rightarrow> 's sensor_state \<Rightarrow> bool" where
  "reports_ok im t k s \<longleftrightarrow>
     report_truthful im t k s (report_to_send s) \<and> length (br_bitmap (report_to_send s)) = 8 \<and>
     (\<forall>hop bs. SendTo hop bs \<in> set (sensor_state.effects s) \<longrightarrow> hd bs = PKT_TYPE_BITMAP_REPORT \<longrightarrow>
        (\<exists>r. bs = bitmap_report_bytes r \<and> length (br_bitmap r) = 8 \<and> report_truthful im t k s r))"

text \<open>The bitmaps the coordinator holds for the node.\<close>

definition bitmaps_ok :: "image \<Rightarrow> u8 \<Rightarrow> ipaddr \<Rightarrow> nat \<Rightarrow> coord_state \<Rightarrow> 's sensor_state \<Rightarrow> bool" where
  "bitmaps_ok im t ip k c s \<longleftrightarrow>
     (\<forall>i < session_nodes_count c. iid (session_nodes c ! i) = iid ip \<longrightarrow> page_full im k (session_bitmaps c ! i) \<longrightarrow>
        pages_done E contents tracked im t (Suc k) s)"

definition between :: "image \<Rightarrow> u8 \<Rightarrow> nat \<Rightarrow> coord_state \<Rightarrow> 's sensor_state \<Rightarrow> bool" where
  "between im t k c s \<longleftrightarrow>
     coord_between im t k c \<and> sent_before (crc16_data E) im t k c \<and> pages_done E contents tracked im t k s \<and>
     reports_ok im t k s"

definition distributing :: "image \<Rightarrow> u8 \<Rightarrow> ipaddr \<Rightarrow> nat \<Rightarrow> coord_state \<Rightarrow> 's sensor_state \<Rightarrow> bool" where
  "distributing im t ip k c s \<longleftrightarrow>
     page_loaded (crc16_data E) im t k c \<and> coord_ok c \<and> pc c \<noteq> Idle \<and> (awaits_reports (pc c) \<longrightarrow> end_ready c) \<and>
     sent_before (crc16_data E) im t (Suc k) c \<and> node_at im t k s \<and> reports_ok im t k s \<and> bitmaps_ok im t ip k c s"

lemma truthful_keeps:
  "report_truthful im t k s r \<Longrightarrow>
   (pages_done E contents tracked im t (Suc k) s \<Longrightarrow> pages_done E contents tracked im t (Suc k) s') \<Longrightarrow> report_truthful im t k s' r"
  by (auto simp: report_truthful_def)

lemma truthful_next: "report_truthful im t j s r \<Longrightarrow> j < k \<Longrightarrow> report_truthful im t k s' r"
proof -
  assume r: "report_truthful im t j s r" and lt: "j < k"
  have False
    if "k \<le> p" "4096 * p < im_size im" "br_page_offset r = of_nat (4096 * p)" "page_full im p (br_bitmap r)" for p
  proof -
    have "j \<le> p" using lt that(1) by simp
    with r that(2-4) have "p = j" unfolding report_truthful_def by blast
    with lt that(1) show False by simp
  qed
  then show ?thesis unfolding report_truthful_def by blast
qed

lemma reports_next: "reports_ok im t j s \<Longrightarrow> j < k \<Longrightarrow> reports_ok im t k s"
  unfolding reports_ok_def using truthful_next by blast

lemma full_bitmap_stored:
  assumes d: "distributing im t ip k c s" and n: "node_complete ip c"
  shows "pages_done E contents tracked im t (Suc k) s"
proof -
  from n obtain i where i: "i < session_nodes_count c" "iid (session_nodes c ! i) = iid ip"
    and all: "\<forall>chunk < total_chunks c. bitmap_bit (session_bitmaps c ! i) chunk"
    by (auto simp: node_complete_def)
  have "page_full im k (session_bitmaps c ! i)"
    using d by (intro complete_full [OF _ _ all]) (auto simp: distributing_def coord_ok_def)
  with d i show ?thesis by (auto simp: distributing_def bitmaps_ok_def)
qed

text \<open>A datagram reaches the node.\<close>

lemma deliver_reports:
  assumes ev: "is_event E im t ev (net, sender, data, datalen)" "event_sent k ev" and sz: "im_size im + 4096 \<le> 2 ^ 32"
    and at: "node_at im t k s" and raw: "hd (buf_bytes data 0 (unat datalen)) \<noteq> PKT_TYPE_BITMAP_REPORT"
    and ok: "reports_ok im t k s"
  defines "s' \<equiv> sensor_step E (net, sender, data, datalen) s"
  shows "reports_ok im t k s'"
proof -
  note n = node_event [OF ev sz at, folded s'_def]
  have "session_base E im t s'" by (rule node_at_session [OF n(1)])
  then have "length (page_bitmap s') = 8" by (simp add: session_base_def)
  then have len: "length (br_bitmap (report_to_send s')) = 8"
    using event_report_bitmap [OF ev(1), of s] ok by (auto simp: s'_def reports_ok_def)
  have keep: "report_truthful im t k s' r" if "report_truthful im t k s r" for r
    using that n(2) by (rule truthful_keeps)
  then have "report_truthful im t k s' (report_to_send s')" using n(3) ok by (auto simp: reports_ok_def)
  moreover obtain es where "sensor_state.effects s' = sensor_state.effects s @ es"
    "\<forall>hop bs. SendTo hop bs \<in> set es \<longrightarrow> bs = buf_bytes data 0 (unat datalen)"
    using event_effects [OF ev(1), of s] unfolding s'_def by blast
  ultimately show ?thesis using len ok raw keep unfolding reports_ok_def by (simp only: set_append Un_iff) blast
qed

lemma deliver_keeps:
  fixes s :: "'s sensor_state"
  assumes s'_def: "s' = sensor_udp_rx E net sender data datalen s" and sz: "im_size im + 4096 \<le> 2 ^ 32" and bs: "(hop, bs) \<in> set (sends (session_state.effects c))"
    and h: "holds_bytes data bs" "unat datalen = length bs"
  shows "between im t k c s \<Longrightarrow> between im t k c s'"
    and "distributing im t ip k c s \<Longrightarrow> distributing im t ip k c s'"
proof -
  have s': "s' = sensor_step E (net, sender, data, datalen) s" by (simp add: s'_def sensor_step_def)
  have raw: "buf_bytes data 0 (unat datalen) = bs" using h by (simp add: holds_bytes_buf)
  have ev: "\<exists>ev. is_event E im t ev (net, sender, data, datalen) \<and> event_before n ev \<and> hd bs \<noteq> PKT_TYPE_BITMAP_REPORT"
    if "sent_before (crc16_data E) im t n c" for n
  proof -
    from that bs obtain ev where "carries (crc16_data E) im t ev bs" "event_before n ev"
      unfolding sent_before_def by force
    then show ?thesis using carries_event [OF _ h] carries_type by blast
  qed
  show "between im t k c s'" if b: "between im t k c s"
  proof -
    from ev [of k] b obtain ev where e: "is_event E im t ev (net, sender, data, datalen)" "event_before k ev"
      and hd: "hd bs \<noteq> PKT_TYPE_BITMAP_REPORT" by (auto simp: between_def)
    then obtain j where j: "k = Suc j" by (cases k; cases ev) auto
    have e': "event_sent j ev" using e(2) by (simp add: j event_before_Suc)
    have dn: "pages_done E contents tracked im t (Suc j) s" using b by (simp add: between_def j)
    then have at: "node_at im t j s" by (simp add: node_at_def)
    have dn': "pages_done E contents tracked im t (Suc j) s'" unfolding s' by (rule node_event(2) [OF e(1) e' sz at dn])
    have at': "node_at im t k s" using dn by (simp add: node_at_def j)
    have e'': "event_sent k ev" using e(2) event_before_mono [of k ev "Suc k"] by (simp add: event_before_Suc)
    have "reports_ok im t k s'"
      unfolding s' using b hd by (intro deliver_reports [OF e(1) e'' sz at']) (simp_all add: raw between_def)
    with b dn' show ?thesis by (simp add: between_def j)
  qed
  show "distributing im t ip k c s'" if d: "distributing im t ip k c s"
  proof -
    from ev [of "Suc k"] d obtain ev where e: "is_event E im t ev (net, sender, data, datalen)" "event_sent k ev"
      and hd: "hd bs \<noteq> PKT_TYPE_BITMAP_REPORT" by (auto simp: distributing_def event_before_Suc)
    have at: "node_at im t k s" using d by (simp add: distributing_def)
    note n = node_event [OF e sz at, folded s']
    have "reports_ok im t k s'"
      unfolding s' using d hd by (intro deliver_reports [OF e sz at]) (simp_all add: raw distributing_def)
    moreover have "bitmaps_ok im t ip k c s'" using d n(2) by (auto simp: distributing_def bitmaps_ok_def)
    ultimately show ?thesis using d n(1) by (simp add: distributing_def)
  qed
qed

lemma effects_set_irrelevant [simp]:
  "pages_done E contents tracked im t k (s\<lparr>sensor_state.effects := es\<rparr>) = pages_done E contents tracked im t k s"
  by (simp add: pages_done_def session_base_def holds_image_def rest_erased_def cong: nat.case_cong)

lemma report_timer_keeps:
  fixes s :: "'s sensor_state"
  assumes s'_def: "s' = send_report_callback net s"
  shows "reports_ok im t k s \<Longrightarrow> reports_ok im t k s'" "node_at im t k s' = node_at im t k s"
    "pages_done E contents tracked im t k s' = pages_done E contents tracked im t k s"
proof -
  show pd: "pages_done E contents tracked im t k s' = pages_done E contents tracked im t k s" for k
    by (simp add: s'_def send_report_callback_def)
  have "page_early im t k s' = page_early im t k s"
    unfolding page_early_def
    by (simp add: s'_def send_report_callback_def) (simp add: page_open_def session_base_def holds_image_def rest_erased_def uncommitted_def emit_def)
  then show "node_at im t k s' = node_at im t k s"
    unfolding node_at_def pd by (simp add: s'_def send_report_callback_def)
  have "set (sensor_state.effects s') \<subseteq> set (sensor_state.effects s) \<union>
      {e. \<exists>hop. e = SendTo hop (bitmap_report_bytes (report_to_send s))}"
    by (auto simp: s'_def send_report_callback_def emit_def send_to_coordinator_def Let_def split: option.splits if_splits)
  moreover have "report_to_send s' = report_to_send s" by (simp add: s'_def send_report_callback_def emit_def)
  moreover have "report_truthful im t k s' r = report_truthful im t k s r" for r by (simp add: report_truthful_def pd)
  ultimately show "reports_ok im t k s \<Longrightarrow> reports_ok im t k s'" unfolding reports_ok_def by fastforce
qed

lemma process_keeps:
  assumes d: "distributing im t ip k c s" and sz: "im_size im + 4096 \<le> 2 ^ 32"
    and c': "c' = distribute_resume net ev c" and n: "pc c' = Idle \<longrightarrow> node_complete ip c'"
  shows "distributing im t ip k c' s \<or> between im t (Suc k) c' s"
proof -
  have ok: "coord_ok c" "pc c \<noteq> Idle" "awaits_reports (pc c) \<longrightarrow> end_ready c" and l: "page_loaded (crc16_data E) im t k c"
    and p: "page_ok c" "running_ok c"
    using d by (auto simp: distributing_def coord_ok_def)
  have ok': "coord_ok c'" unfolding c' by (rule distribute_resume_ok [OF ok(1)])
  have frame: "page_loaded (crc16_data E) im t k x" "sent_before (crc16_data E) im t (Suc k) x" "bitmaps_ok im t ip k x s"
    "running_ok x" "transfer_ok x" if f: "page_frame c x" for x
  proof -
    show "page_loaded (crc16_data E) im t k x" using l f by (auto simp: page_frame_def intro: page_loaded_frame)
    show "sent_before (crc16_data E) im t (Suc k) x"
      using d by (intro sent_before_frame [OF l p sz _ f]) (simp add: distributing_def)
    show "bitmaps_ok im t ip k x s"
      unfolding bitmaps_ok_def
    proof (intro allI impI)
      fix i assume i: "i < session_nodes_count x" "iid (session_nodes x ! i) = iid ip" "page_full im k (session_bitmaps x ! i)"
      from f i(1) obtain j where "j < session_nodes_count c" "session_nodes x ! i = session_nodes c ! j"
        "session_bitmaps x ! i = session_bitmaps c ! j"
        unfolding page_frame_def nodes_from_def by blast
      with d i show "pages_done E contents tracked im t (Suc k) s" by (simp add: distributing_def bitmaps_ok_def)
    qed
    show "running_ok x" "transfer_ok x" using p f by (simp_all add: page_frame_def same_page_def coord_inv_defs)
  qed
  have "goes_on c c'" unfolding c' by (rule distribute_resume_goes [OF ok])
  then consider (on) "page_frame c c'" "pc c' \<noteq> Idle" "awaits_reports (pc c') \<longrightarrow> end_ready c'"
    | (finished) x where "page_frame c x" "c' = finish_page x" by (auto simp: goes_on_def)
  then show ?thesis
  proof cases
    case on
    then have "distributing im t ip k c' s" using d frame [OF on(1)] ok' by (simp add: distributing_def)
    then show ?thesis ..
  next
    case finished
    note f = frame [OF finished(1)]
    have fp: "session_nodes c' = session_nodes x" "session_bitmaps c' = session_bitmaps x" "total_chunks c' = total_chunks x"
      "session_nodes_count c' = session_nodes_count x" "sends (session_state.effects c') = sends (session_state.effects x)"
      "pc c' = Idle"
      by (simp_all add: finished(2) finish_page_def Let_def)
    from n fp(6) obtain i where i: "i < session_nodes_count x" "iid (session_nodes x ! i) = iid ip"
      and all: "\<forall>chunk < total_chunks x. bitmap_bit (session_bitmaps x ! i) chunk"
      by (auto simp: node_complete_def fp)
    have "page_full im k (session_bitmaps x ! i)" by (rule complete_full [OF f(1,4) all])
    with f(3) i have dn: "pages_done E contents tracked im t (Suc k) s" unfolding bitmaps_ok_def by blast
    have adm: "\<not> start_admission_in_progress x" using f(4) by (simp add: running_ok_def)
    have pos: "0 < session_nodes_count x" using i(1) by linarith
    have "coord_between im t (Suc k) c'"
      using finish_page_between [OF f(1,5) adm _ pos] ok' by (simp only: finished(2))
    moreover have "sent_before (crc16_data E) im t (Suc k) c'" using f(2) unfolding sent_before_def fp(5) .
    moreover have "reports_ok im t (Suc k) s" by (rule reports_next [of im t k]) (use d in \<open>simp_all add: distributing_def\<close>)
    ultimately have "between im t (Suc k) c' s" using dn by (simp add: between_def)
    then show ?thesis ..
  qed
qed

text \<open>A datagram reaches the coordinator.\<close>

lemma bitmap_report_type: "holds_bytes data bs \<Longrightarrow> bs \<noteq> [] \<Longrightarrow> data 0 = hd bs"
  by (cases bs) (simp_all add: holds_Cons)

lemma report_stored:
  assumes l: "page_loaded (crc16_data E) im t k c" and rep: "reports_ok im t k s" and bm: "bitmaps_ok im t ip k c s"
    and adm: "\<not> start_admission_in_progress c" and ok: "session_ok c"
    and from_node: "iid a = iid ip \<longrightarrow>
      (\<exists>hop bs. SendTo hop bs \<in> set (sensor_state.effects s) \<and> bs \<noteq> [] \<and> holds_bytes data bs)"
  shows "bitmaps_ok im t ip k (handle_coordinator_report data datalen a c) s"
proof (cases "data 0 = PKT_TYPE_BITMAP_REPORT")
  case False
  then show ?thesis using bm coordinator_report_other [OF adm] by simp
next
  case True
  let ?r = "bitmap_report_at data"
  have truthful: "report_truthful im t k s ?r" if a: "iid a = iid ip"
  proof -
    from from_node a obtain hop bs where bs: "SendTo hop bs \<in> set (sensor_state.effects s)" "bs \<noteq> []" "holds_bytes data bs" by blast
    then have "hd bs = PKT_TYPE_BITMAP_REPORT" using True bitmap_report_type by simp
    with rep bs(1) obtain r where r: "bs = bitmap_report_bytes r" "length (br_bitmap r) = 8" "report_truthful im t k s r"
      unfolding reports_ok_def by blast
    have "?r = r" using bitmap_report_read [of data r] bs(3) r(1,2) by simp
    with r(3) show ?thesis by simp
  qed
  have "bitmaps_ok im t ip k (handle_bitmap_report ?r a c) s"
  proof (cases rule: handle_bitmap_report_cases [of ?r a c])
    case same
    then show ?thesis using bm by simp
  next
    case (stored f es)
    have len: "f < length (session_bitmaps c)" using ok stored(2) by (simp add: session_ok_def)
    show ?thesis
      unfolding bitmaps_ok_def stored(5)
    proof (intro allI impI, simp)
      fix i
      assume i: "i < session_nodes_count c" "iid (session_nodes c ! i) = iid ip"
        and full: "page_full im k ((session_bitmaps c)[f := br_bitmap ?r] ! i)"
      show "pages_done E contents tracked im t (Suc k) s"
      proof (cases "i = f")
        case True
        then have "page_full im k (br_bitmap ?r)" "iid a = iid ip" using full len i(2) stored(3) by simp_all
        moreover have "br_page_offset ?r = of_nat (4096 * k)" using stored(1) loaded_page_start [OF l] by simp
        ultimately show ?thesis using truthful l unfolding report_truthful_def page_loaded_def by blast
      next
        case False
        then show ?thesis using full i bm unfolding bitmaps_ok_def by simp
      qed
    qed
  qed
  then show ?thesis using coordinator_report_bitmap [OF adm, of data datalen a] bm by auto
qed

lemma report_keeps_between:
  assumes b: "between im t k c s" shows "between im t k (handle_coordinator_report data datalen a c) s"
proof -
  have adm: "\<not> start_admission_in_progress c" using b by (simp add: between_def coord_between_def takes_data_def)
  have ok: "coord_ok (handle_coordinator_report data datalen a c)"
    using b by (intro coordinator_report_ok) (simp add: between_def coord_between_def takes_data_def)
  have "handle_coordinator_report data datalen a c = c \<or>
      (\<exists>f bm es. sends es = [] \<and> handle_coordinator_report data datalen a c = c\<lparr>node_replied := (node_replied c)[f := True],
         session_bitmaps := (session_bitmaps c)[f := bm], session_state.effects := session_state.effects c @ es\<rparr>)"
    using coordinator_report_bitmap [OF adm, of data datalen a] handle_bitmap_report_cases [of "bitmap_report_at data" a c] by metis
  then show ?thesis
  proof (elim disjE exE conjE)
    fix f bm es
    assume e: "sends es = []" "handle_coordinator_report data datalen a c = c\<lparr>node_replied := (node_replied c)[f := True],
         session_bitmaps := (session_bitmaps c)[f := bm], session_state.effects := session_state.effects c @ es\<rparr>"
    then have "sent_before (crc16_data E) im t k (handle_coordinator_report data datalen a c)"
      using b by (simp add: sent_before_def between_def)
    with b ok show ?thesis unfolding e(2) by (simp add: between_def coord_between_def takes_data_def)
  qed (use b in simp)
qed

lemma report_keeps_distributing:
  assumes d: "distributing im t ip k c s"
    and from_node: "iid a = iid ip \<longrightarrow>
      (\<exists>hop bs. SendTo hop bs \<in> set (sensor_state.effects s) \<and> bs \<noteq> [] \<and> holds_bytes data bs)"
  shows "distributing im t ip k (handle_coordinator_report data datalen a c) s"
proof -
  let ?c = "handle_coordinator_report data datalen a c"
  have r: "running_ok c" and ses: "session_ok c" and c: "coord_ok c" and l: "page_loaded (crc16_data E) im t k c"
    using d by (auto simp: distributing_def coord_ok_def page_ok_def)
  have adm: "\<not> start_admission_in_progress c" using r by (simp add: running_ok_def)
  have bm: "bitmaps_ok im t ip k ?c s"
    using d by (intro report_stored [OF l _ _ adm ses from_node]) (simp_all add: distributing_def)
  have ok: "coord_ok ?c" by (rule coordinator_report_ok [OF c])
  have "?c = c \<or>
      (\<exists>f bm es. sends es = [] \<and> ?c = c\<lparr>node_replied := (node_replied c)[f := True],
         session_bitmaps := (session_bitmaps c)[f := bm], session_state.effects := session_state.effects c @ es\<rparr>)"
    using coordinator_report_bitmap [OF adm, of data datalen a] handle_bitmap_report_cases [of "bitmap_report_at data" a c] by metis
  then show ?thesis
  proof (elim disjE exE conjE)
    fix f bm es
    assume e: "sends es = []" "?c = c\<lparr>node_replied := (node_replied c)[f := True],
         session_bitmaps := (session_bitmaps c)[f := bm], session_state.effects := session_state.effects c @ es\<rparr>"
    have "sent_before (crc16_data E) im t (Suc k) ?c" using d e by (simp add: sent_before_def distributing_def)
    moreover have "end_ready ?c = end_ready c" by (simp add: e(2) end_ready_def page_end_bytes_eq)
    moreover have "page_loaded (crc16_data E) im t k ?c" by (rule page_loaded_frame [OF l]) (simp add: e(2) same_page_def)
    moreover have "pc ?c = pc c" by (simp add: e(2))
    ultimately show ?thesis using d bm ok by (simp add: distributing_def)
  qed (use d in simp)
qed

lemma host_starts:
  assumes b: "between im t k c s" and sz: "im_size im + 4096 \<le> 2 ^ 32" and p: "p = unat (page_start_offset c)" "p < im_size im"
    and c': "c' = fold (ota_coordinator_handle_uart (crc16_data E) net)
      (py_page_lines p (im_bytes im p (p + unat (expected_page_size c)))) c"
  shows "distributing im t ip k c' s"
proof -
  have c: "coord_between im t k c" using b by (simp add: between_def)
  obtain x where x: "page_loaded (crc16_data E) im t k x" "page_frame x c'" "coord_ok c'" "pc c' \<noteq> Idle" "\<not> awaits_reports (pc c')"
    "page_ok x" "running_ok x" "sends (session_state.effects x) = sends (session_state.effects c)"
    "\<And>i. i < session_nodes_count x \<Longrightarrow> session_bitmaps x ! i = replicate 8 0"
    by (rule host_page_loads [OF c p c']) blast
  have k: "4096 * k < im_size im" using x(1) by (simp add: page_loaded_def)
  have "sent_before (crc16_data E) im t (Suc k) x"
    using b event_before_mono [of k _ "Suc k"] unfolding sent_before_def x(8) between_def by (meson le_SucI order_refl)
  then have "sent_before (crc16_data E) im t (Suc k) c'" by (rule sent_before_frame [OF x(1,6,7) sz _ x(2)])
  moreover have "page_loaded (crc16_data E) im t k c'" using x(1,2) by (auto simp: page_frame_def intro: page_loaded_frame)
  moreover have "bitmaps_ok im t ip k c' s"
    unfolding bitmaps_ok_def
  proof (intro allI impI)
    fix i assume i: "i < session_nodes_count c'" "page_full im k (session_bitmaps c' ! i)"
    from x(2) i(1) obtain j where "j < session_nodes_count x" "session_bitmaps c' ! i = session_bitmaps x ! j"
      unfolding page_frame_def nodes_from_def by blast
    with x(9) i(2) zeros_not_full [OF k] show "pages_done E contents tracked im t (Suc k) s" by simp
  qed
  moreover have "node_at im t k s" "reports_ok im t k s" using b by (simp_all add: between_def node_at_def)
  ultimately show ?thesis using x(3-5) by (simp add: distributing_def)
qed

lemma rollout_begins:
  assumes c: "session_admitted im t c" and d: "is_start im t sec d"
    and ok: "be_start B t (pk_offset (dgram_packet d)) sec OTA_START_STATUS_REJECTED_TARGET (backend s) = ((True, q), s')"
    and r: "br_bitmap (report_to_send s) = replicate 8 0"
  shows "between im t 0 c ((sensor_step E d s)\<lparr>sensor_state.effects := []\<rparr>)"
proof -
  have "pages_done E contents tracked im t 0 (sensor_step E d s)" by (rule start_begins [OF d ok])
  moreover have "report_to_send (sensor_step E d s) = report_to_send s"
  proof -
    obtain net raw fwd where "sensor_step E d s = handle_start E net (dgram_packet d) raw fwd s"
      using sensor_step_start [OF d] by blast
    then show ?thesis
      by (simp add: handle_start_def Let_def reset_rx_state_def send_start_report_def emit_def forward_def
          split: prod.split bool.split)
  qed
  then have "reports_ok im t 0 ((sensor_step E d s)\<lparr>sensor_state.effects := []\<rparr>)"
    using r zeros_not_full by (auto simp: reports_ok_def report_truthful_def)
  moreover have "sent_before (crc16_data E) im t 0 c" using c by (simp add: sent_before_def session_admitted_def)
  moreover have "coord_between im t 0 c" using c by (simp add: coord_between_def session_admitted_def page_end_offset_def)
  ultimately show ?thesis by (simp add: between_def)
qed

lemma rollout_invariant:
  assumes "rollout E im t sec ip c s" and sz: "im_size im + 4096 \<le> 2 ^ 32"
  shows "\<exists>k. between im t k c s \<or> distributing im t ip k c s"
  using assms(1)
proof induction
  case (admitted c d s q s')
  from rollout_begins [OF this] show ?case by blast
next
  case (host c s p net)
  then obtain k where b: "between im t k c s" by (auto simp: distributing_def)
  have "p < im_size im" using host by simp
  from host_starts [OF b sz \<open>p = _\<close> this refl] show ?case by blast
next
  case (process c s c' net ev)
  then obtain k where "between im t k c s \<or> distributing im t ip k c s" by blast
  then show ?case
  proof
    assume b: "between im t k c s"
    then have "c' = c" using process(2) by (simp add: between_def coord_between_def distribute_resume_def)
    with b show ?case by blast
  next
    assume d: "distributing im t ip k c s"
    then have "pc c' = Idle \<longrightarrow> node_complete ip c'" using process(3) by (simp add: distributing_def)
    from process_keeps [OF d sz process(2) this] show ?case by blast
  qed
next
  case (deliver c s hop bs data datalen net sender)
  from deliver_keeps [OF refl sz deliver(2-4)] deliver(5) show ?case by blast
next
  case (report_timer c s net)
  then obtain k where "between im t k c s \<or> distributing im t ip k c s" by blast
  moreover have "bitmaps_ok im t ip k c (send_report_callback net s) = bitmaps_ok im t ip k c s"
    by (simp add: bitmaps_ok_def report_timer_keeps(3) [OF refl])
  ultimately show ?case
    using report_timer_keeps [where net = net and s = s and im = im and t = t, OF refl]
    unfolding between_def distributing_def by blast
next
  case (report c s sender data datalen)
  then obtain k where "between im t k c s \<or> distributing im t ip k c s" by blast
  then show ?case using report_keeps_between report_keeps_distributing [OF _ report(2)] by blast
qed

lemma rollout_page_stored:
  assumes r: "rollout E im t sec ip c s" and sz: "im_size im + 4096 \<le> 2 ^ 32"
    and n: "pc c \<noteq> Idle" "node_complete ip c"
    and j: "j < unat (page_start_offset c) + unat (expected_page_size c)"
  shows "contents (backend s) t (of_nat j) = im_byte im j"
proof -
  from rollout_invariant [OF r sz] n(1) obtain k where d: "distributing im t ip k c s"
    by (auto simp: between_def coord_between_def)
  from full_bitmap_stored [OF d n(2)] have "holds_image contents im t (Suc k) s" by (simp add: pages_done_def)
  moreover have "j < page_end_offset im (Suc k)"
    using d j by (auto simp: distributing_def page_loaded_def page_end_offset_def)
  ultimately show ?thesis by (simp add: holds_image_def)
qed

lemma rollout_finished:
  assumes r: "rollout E im t sec ip c s" and sz: "im_size im + 4096 \<le> 2 ^ 32"
    and n: "pc c = Idle" "unat (page_start_offset c) = im_size im"
  shows "ota_session_active s" "sensor_state.ota_target_slot s = t" "unat (sensor_state.current_file_size s) = im_size im"
    "running_fw_crc s = crc16_data E (im_bytes im 0 (im_size im)) 0" "takes_data c" "session_state.ota_target_slot c = t"
    "\<And>j. j < im_size im \<Longrightarrow> contents (backend s) t (of_nat j) = im_byte im j"
proof -
  from rollout_invariant [OF r sz] n(1) obtain k where b: "between im t k c s" by (auto simp: distributing_def)
  then have dn: "pages_done E contents tracked im t k s" and e: "page_end_offset im k = im_size im"
    using n(2) by (simp_all add: between_def coord_between_def)
  show "ota_session_active s" "sensor_state.ota_target_slot s = t" "unat (sensor_state.current_file_size s) = im_size im"
    "running_fw_crc s = crc16_data E (im_bytes im 0 (im_size im)) 0"
    "\<And>j. j < im_size im \<Longrightarrow> contents (backend s) t (of_nat j) = im_byte im j"
    using dn e by (simp_all add: pages_done_def session_base_def holds_image_def)
  show "takes_data c" "session_state.ota_target_slot c = t" using b by (simp_all add: between_def coord_between_def)
qed

end

end
