(* ===== verification/Lossless.thy ===== *)
theory Lossless
  imports Rollout_Inv
begin

text \<open>
  A page without losses, as one explicit schedule: the host's lines, the pacing timers, the
  datagrams in the order they were sent, the node's report timer, the report, the posted event. One
  such schedule per page takes a session from its START to the end of the image.
\<close>

definition lossless_round ::
    "'s sensor_env \<Rightarrow> image \<Rightarrow> net_env \<Rightarrow> net_env \<Rightarrow> ipaddr \<Rightarrow> ipaddr \<Rightarrow> coord_state \<times> 's sensor_state \<Rightarrow>
      coord_state \<times> 's sensor_state" where
  "lossless_round E im cnet nnet sender ip = (\<lambda>(c, s).
     let p = unat (page_start_offset c); e = unat (expected_page_size c);
         c1 = fold (ota_coordinator_handle_uart (crc16_data E) cnet) (py_page_lines p (im_bytes im p (p + e))) c;
         c2 = timer_run (replicate (chunk_count e) cnet) c1;
         sent = drop (length (sends (session_state.effects c))) (sends (session_state.effects c2));
         s1 = fold (\<lambda>(hop, bs). sensor_udp_rx E nnet sender ((!) bs) (of_nat (length bs))) sent s
     in (handle_coordinator_report ((!) (bitmap_report_bytes (report_to_send s1))) (of_nat sizeof_bitmap_report) ip c2,
         send_report_callback nnet s1))"

definition lossless_page ::
    "'s sensor_env \<Rightarrow> image \<Rightarrow> net_env \<Rightarrow> net_env \<Rightarrow> ipaddr \<Rightarrow> ipaddr \<Rightarrow> coord_state \<times> 's sensor_state \<Rightarrow>
      coord_state \<times> 's sensor_state" where
  "lossless_page E im cnet nnet sender ip cs =
     (case lossless_round E im cnet nnet sender ip cs of (c, s) \<Rightarrow> (distribute_resume cnet BitmapEvent c, s))"

section \<open>Steps of the schedule as steps of a rollout\<close>

lemma timer_run_idle: "pc c = Idle \<Longrightarrow> timer_run nets c = c"
  by (induction nets) (simp_all add: distribute_resume_def)

lemma rollout_timer_run:
  assumes "rollout E im t sec ip c s" "pc (timer_run nets c) \<noteq> Idle"
  shows "rollout E im t sec ip (timer_run nets c) s"
  using assms
proof (induction nets arbitrary: c)
  case (Cons net nets)
  let ?c = "distribute_resume net TimerEvent c"
  have "pc ?c \<noteq> Idle" using Cons.prems(2) timer_run_idle [of ?c nets] by auto
  then have "rollout E im t sec ip ?c s" by (intro rollout.process [OF Cons.prems(1) refl]) simp
  with Cons show ?case by simp
qed simp

lemma rollout_deliver_all:
  assumes "rollout E im t sec ip c s" "set ds \<subseteq> set (sends (session_state.effects c))"
    "list_all (\<lambda>(hop, bs). length bs < 2 ^ 16) ds"
  shows "rollout E im t sec ip c (fold (\<lambda>(hop, bs). sensor_udp_rx E net sender ((!) bs) (of_nat (length bs))) ds s)"
  using assms
proof (induction ds arbitrary: s)
  case (Cons d ds)
  obtain hop bs where d: "d = (hop, bs)" by (cases d)
  have "length bs < 2 ^ 16" using Cons.prems(3) by (simp add: d)
  then have "unat (of_nat (length bs) :: u16) = length bs" by (simp add: unat_of_nat take_bit_nat_eq_self)
  then have "rollout E im t sec ip c (sensor_udp_rx E net sender ((!) bs) (of_nat (length bs)) s)"
    using Cons.prems by (intro rollout.deliver [where hop = hop and bs = bs]) (simp_all add: d holds_bytes_def)
  with Cons.prems Cons.IH show ?case by (simp add: d)
qed simp

text \<open>The report a PAGE_END leaves to send.\<close>

lemma handle_page_end_keeps:
  "sensor_state.ota_session_active (handle_page_end E net pkt raw f s) = ota_session_active s"
  "sensor_state.ota_target_slot (handle_page_end E net pkt raw f s) = sensor_state.ota_target_slot s"
  "current_rx_page_offset (handle_page_end E net pkt raw f s) = current_rx_page_offset s"
  by (simp_all add: handle_page_end_def Let_def split: prod.split) (simp_all add: forward_def emit_def)

lemma handle_page_end_reports:
  assumes "ota_session_active s" "pk_target_slot pkt = sensor_state.ota_target_slot s" "pk_offset pkt = current_rx_page_offset s"
    "current_rx_page_offset s \<noteq> NO_PAGE" "node_id net \<noteq> 1"
  shows "report_to_send (handle_page_end E net pkt raw f s) =
    \<lparr>br_type = PKT_TYPE_BITMAP_REPORT, br_status = OTA_REPORT_STATUS_OK,
     br_page_offset = current_rx_page_offset s, br_bitmap = page_bitmap (handle_page_end E net pkt raw f s)\<rparr>"
proof -
  have fw: "ota_session_active (forward net f raw s)" "sensor_state.ota_target_slot (forward net f raw s) = sensor_state.ota_target_slot s"
    using assms(1) by (simp_all add: forward_def emit_def)
  have "\<exists>x. handle_page_end E net pkt raw f s = send_page_report net x \<and> current_rx_page_offset x = current_rx_page_offset s"
    using assms(1-3) fw by (simp add: handle_page_end_def Let_def split: prod.split) auto
  then obtain x where x: "handle_page_end E net pkt raw f s = send_page_report net x"
    "current_rx_page_offset x = current_rx_page_offset s" by blast
  then show ?thesis
    unfolding x(1) using assms(4,5) by (simp add: send_page_report_def schedule_bitmap_send_def emit_def x(2))
qed

section \<open>The network and the session of the schedule\<close>

text \<open>The coordinator's next hop is ready, the node is a sensor and knows its root, and it is the only node
  of the session.\<close>

definition lossless_setting :: "net_env \<Rightarrow> net_env \<Rightarrow> bool" where
  "lossless_setting cnet nnet \<longleftrightarrow>
     (\<exists>hop. ready_hop hop cnet) \<and> node_id nnet \<noteq> 1 \<and>
     (case root_ipaddr nnet of Some root \<Rightarrow> \<not> uip_is_addr_unspecified root | None \<Rightarrow> False)"

definition only_node :: "ipaddr \<Rightarrow> coord_state \<Rightarrow> bool" where
  "only_node ip c \<longleftrightarrow> session_nodes_count c = 1 \<and> iid (session_nodes c ! 0) = iid ip"

lemma report_sent:
  assumes "lossless_setting cnet nnet"
  shows "\<exists>hop. SendTo hop (bitmap_report_bytes (report_to_send s)) \<in> set (sensor_state.effects (send_report_callback nnet s))"
  using assms
  by (auto simp: lossless_setting_def send_report_callback_def send_to_coordinator_def emit_def Let_def split: option.splits)

lemma bitmap_report_delivered:
  assumes "length (br_bitmap r) = 8" "br_type r = PKT_TYPE_BITMAP_REPORT"
  shows "handle_coordinator_report ((!) (bitmap_report_bytes r)) (of_nat sizeof_bitmap_report) a c = handle_bitmap_report r a c"
proof -
  have "bitmap_report_at ((!) (bitmap_report_bytes r)) = r"
    by (rule bitmap_report_read [OF holds_bytes_self assms(1)])
  then show ?thesis
    using assms(2) by (simp add: handle_coordinator_report_def sizeof_bitmap_report_def sizeof_start_report_def
        sizeof_stage_report_def pkt_type_defs bitmap_report_bytes_def)
qed

lemma active_one: "session_ok c \<Longrightarrow> session_nodes_count c = 1 \<Longrightarrow> active_nodes c = [session_nodes c ! 0]"
  by (simp add: active_nodes_map)

context lossy_flow
begin

text \<open>The datagrams of a page, delivered in order, are a transfer of the page.\<close>

lemma datagrams_transfer:
  assumes l: "page_loaded (crc16_data E) im t k c" and ok: "page_ok c" "running_ok c" and sz: "im_size im + 4096 \<le> 2 ^ 32"
  shows "page_transfer E im t k
    (map (\<lambda>i. (net, sender, (!) (chunk_datagram c i), of_nat (length (chunk_datagram c i)))) [0..<total_chunks c],
     (net, sender, (!) (page_end_bytes c), of_nat (length (page_end_bytes c))))"
    and "list_all (\<lambda>(hop, bs). length bs < 2 ^ 16) (map (Pair hop) (map (chunk_datagram c) [0..<total_chunks c] @ [page_end_bytes c]))"
proof -
  have len: "length (chunk_datagram c i) \<le> 72" "length (page_end_bytes c) = 8" for i
    by (simp_all add: chunk_datagram_def data_datagram_def page_end_bytes_eq page_end_datagram_def)
  have lt: "length (chunk_datagram c i) < 65536" for i by (rule le_less_trans [OF len(1)]) simp
  then have u: "unat (of_nat (length (chunk_datagram c i)) :: u16) = length (chunk_datagram c i)" for i
    using lt [of i] by (simp add: unat_of_nat take_bit_nat_eq_self)
  show "list_all (\<lambda>(hop, bs). length bs < 2 ^ 16) (map (Pair hop) (map (chunk_datagram c) [0..<total_chunks c] @ [page_end_bytes c]))"
    using lt by (auto simp: list_all_iff len(2))
  have ev: "is_event E im t (Chunk (64 * k + i)) (net, sender, (!) (chunk_datagram c i), of_nat (length (chunk_datagram c i)))"
    if "i < total_chunks c" for i
    by (rule carries_event [OF chunk_carried(1) [OF l ok sz that] holds_bytes_self u])
  have "list_all2 (is_event E im t) (map (\<lambda>i. Chunk (64 * k + i)) [0..<total_chunks c])
      (map (\<lambda>i. (net, sender, (!) (chunk_datagram c i), of_nat (length (chunk_datagram c i)))) [0..<total_chunks c])"
    using ev by (simp add: list_all2_conv_all_nth del: is_event.simps)
  moreover have "list_all (event_due k) (map (\<lambda>i. Chunk (64 * k + i)) [0..<total_chunks c])"
    using chunk_carried(3) [OF l ok sz] by (simp add: list_all_iff)
  moreover have "page_chunks im k \<subseteq> {q. Chunk q \<in> set (map (\<lambda>i. Chunk (64 * k + i)) [0..<total_chunks c])}"
  proof
    fix q assume q: "q \<in> page_chunks im k"
    then have "q = 64 * k + q mod 64" by (simp add: page_chunks_def) (metis mult_div_mod_eq)
    with chunk_in_total [OF l ok(2) q] show "q \<in> {q. Chunk q \<in> set (map (\<lambda>i. Chunk (64 * k + i)) [0..<total_chunks c])}"
      by (auto simp: image_iff)
  qed
  moreover have "is_event E im t (PageEnd k) (net, sender, (!) (page_end_bytes c), of_nat (length (page_end_bytes c)))"
    by (rule carries_event [OF page_end_carried [OF l] holds_bytes_self]) (simp add: len(2))
  ultimately show "page_transfer E im t k
    (map (\<lambda>i. (net, sender, (!) (chunk_datagram c i), of_nat (length (chunk_datagram c i)))) [0..<total_chunks c],
     (net, sender, (!) (page_end_bytes c), of_nat (length (page_end_bytes c))))"
    unfolding page_transfer_def fst_conv snd_conv by blast
qed

lemma distributing_page:
  assumes "rollout E im t sec ip c s" "im_size im + 4096 \<le> 2 ^ 32" "pc c \<noteq> Idle" "unat (page_start_offset c) = 4096 * k"
  shows "distributing im t ip k c s"
proof -
  from rollout_invariant [OF assms(1,2)] assms(3) obtain j where d: "distributing im t ip j c s"
    by (auto simp: between_def coord_between_def)
  then have "4096 * j = 4096 * k" using assms(4) by (simp add: distributing_def page_loaded_def)
  then show ?thesis using d by simp
qed

text \<open>The first pass of the schedule.\<close>

lemma lossless_sends:
  assumes c: "coord_between im t k c" "4096 * k < im_size im" and sz: "im_size im + 4096 \<le> 2 ^ 32"
    and hop: "ready_hop hop cnet" and r: "rollout E im t sec ip c s"
  defines "p \<equiv> unat (page_start_offset c)" and "e \<equiv> unat (expected_page_size c)"
  defines "c2 \<equiv> timer_run (replicate (chunk_count e) cnet)
      (fold (ota_coordinator_handle_uart (crc16_data E) cnet) (py_page_lines p (im_bytes im p (p + e))) c)"
  shows "rollout E im t sec ip c2 s" "pc c2 = WaitReports" "node_replied c2 = replicate MAX_NODES False"
    "distributing im t ip k c2 s" "active_nodes c2 = active_nodes c" "session_nodes_count c2 = session_nodes_count c"
    "sends (session_state.effects c2) = sends (session_state.effects c) @
       map (Pair hop) (map (chunk_datagram c2) [0..<total_chunks c2] @ [page_end_bytes c2])"
proof -
  have td: "takes_data c" "pc c = Idle" "page_bytes_received c = 0" "p = 4096 * k"
    "e = min 4096 (im_size im - 4096 * k)" "unat (session_state.current_file_size c) = im_size im"
    using c by (simp_all add: coord_between_def p_def e_def page_end_offset_def)
  let ?bytes = "im_bytes im p (p + e)" and ?c1 = "fold (ota_coordinator_handle_uart (crc16_data E) cnet) (py_page_lines p (im_bytes im p (p + e))) c"
  have e0: "0 < e" using td(5) c(2) by simp
  have bytes: "length ?bytes = unat (expected_page_size c)" "?bytes \<noteq> []" using e0 by (simp_all add: im_bytes_def e_def)
  let ?b = "page_in_buffer ?bytes c"
  note f = page_in_buffer_facts [OF td(1) bytes td(2)]
  have c1: "?c1 = distribute_start (crc16_data E) cnet ?b"
    using page_lines_start [OF td(1,3) bytes td(2)] by (simp add: p_def)
  have bf: "unat (expected_page_size ?b) = e" "room_above ?b" "unat (page_start_offset ?b) = p"
    using td(6) sz by (simp_all add: page_in_buffer_def e_def p_def room_above_def)
  obtain es where es: "session_state.effects c2 = session_state.effects ?b @ es"
    "sends es = map (Pair hop) (page_datagrams (crc16_data E) ?b)" "awaiting_first_reports ?b c2"
    using distribute_first_pass [OF f(1-5) bf(2), of "replicate (chunk_count e) cnet" hop cnet "crc16_data E"] hop
    unfolding c2_def c1 bf(1) by (auto simp: list_all_iff)
  have r1: "rollout E im t sec ip ?c1 s"
    unfolding e_def by (rule rollout.host [OF r td(2) _ p_def [THEN meta_eq_to_obj_eq]]) (use td(4) c(2) in \<open>simp add: p_def\<close>)
  show w: "pc c2 = WaitReports" "node_replied c2 = replicate MAX_NODES False"
    using es(3) by (simp_all add: awaiting_first_reports_def)
  show r2: "rollout E im t sec ip c2 s"
    unfolding c2_def by (rule rollout_timer_run [OF r1]) (use w(1) in \<open>simp add: c2_def\<close>)
  show "active_nodes c2 = active_nodes c" "session_nodes_count c2 = session_nodes_count c"
    using es(3) by (simp_all add: awaiting_first_reports_def) (simp_all add: page_in_buffer_def active_nodes_def)
  have same: "page_start_offset c2 = page_start_offset ?b" "expected_page_size c2 = expected_page_size ?b"
    "session_state.ota_target_slot c2 = session_state.ota_target_slot ?b" "page_buffer c2 = page_buffer ?b"
    "total_chunks c2 = chunk_count e"
    using es(3) bf(1) by (simp_all add: awaiting_first_reports_def)
  show d: "distributing im t ip k c2 s"
    by (rule distributing_page [OF r2 sz]) (use w(1) bf(3) td(4) in \<open>simp_all add: same\<close>)
  have "page_bytes c2 = page_bytes ?b" by (simp add: page_bytes_def same)
  moreover have "page_crc c2 = crc16_data E (page_bytes c2) 0" using d by (simp add: distributing_def page_loaded_def)
  ultimately have "page_datagrams (crc16_data E) ?b = map (chunk_datagram c2) [0..<total_chunks c2] @ [page_end_bytes c2]"
    using chunk_datagram_cong [OF same(1-4)] by (simp add: page_datagrams_def bf(1) page_end_bytes_eq same)
  moreover have "sends (session_state.effects ?b) = sends (session_state.effects c)" by (simp add: page_in_buffer_def)
  ultimately show "sends (session_state.effects c2) = sends (session_state.effects c) @
       map (Pair hop) (map (chunk_datagram c2) [0..<total_chunks c2] @ [page_end_bytes c2])"
    using es(1,2) by simp
qed

text \<open>The node's side: the page arrives, and the report says so.\<close>

lemma lossless_receives:
  assumes d: "distributing im t ip k c s" and sz: "im_size im + 4096 \<le> 2 ^ 32" and net: "node_id nnet \<noteq> 1"
    and dn: "pages_done E contents tracked im t k s"
    and s1_def: "s1 = fold (\<lambda>(hop, bs). sensor_udp_rx E nnet sender ((!) bs) (of_nat (length bs)))
      (map (Pair hop) (map (chunk_datagram c) [0..<total_chunks c] @ [page_end_bytes c])) s"
  shows "pages_done E contents tracked im t (Suc k) s1"
    "report_to_send s1 = \<lparr>br_type = PKT_TYPE_BITMAP_REPORT, br_status = OTA_REPORT_STATUS_OK,
       br_page_offset = of_nat (4096 * k), br_bitmap = page_bitmap s1\<rparr>"
proof -
  have l: "page_loaded (crc16_data E) im t k c" and ok: "page_ok c" "running_ok c"
    using d by (simp_all add: distributing_def coord_ok_def)
  let ?ds = "map (\<lambda>i. (nnet, sender, (!) (chunk_datagram c i), of_nat (length (chunk_datagram c i)))) [0..<total_chunks c]"
  let ?pe = "(nnet, sender, (!) (page_end_bytes c), of_nat (length (page_end_bytes c)))"
  note tr = datagrams_transfer(1) [OF l ok sz, of nnet sender]
  have s1: "s1 = fold (sensor_step E) (?ds @ [?pe]) s"
  proof -
    have step: "sensor_step E (nnet, sender, d, n) = sensor_udp_rx E nnet sender d n" for d n
      by (rule ext) (simp add: sensor_step_def)
    show ?thesis by (simp add: s1_def step fold_map comp_def)
  qed
  show dn': "pages_done E contents tracked im t (Suc k) s1"
    unfolding s1 by (rule page_transfer_delivers [OF tr sz]) (simp add: dn)
  let ?x = "fold (sensor_step E) ?ds s"
  have pe: "is_event E im t (PageEnd k) ?pe" using tr by (simp add: page_transfer_def del: is_event.simps)
  have s1x: "s1 = handle_page_end E nnet (fw_packet_at ((!) (page_end_bytes c)))
      (buf_bytes ((!) (page_end_bytes c)) 0 (unat (of_nat (length (page_end_bytes c)) :: u16))) (packet_should_forward nnet sender) ?x"
    unfolding s1 using sensor_step_page_end_eq [OF pe, of ?x] by simp
  have pkt: "pk_offset (fw_packet_at ((!) (page_end_bytes c))) = of_nat (4096 * k)"
    "pk_target_slot (fw_packet_at ((!) (page_end_bytes c))) = t"
    using pe by (simp_all add: is_page_end_def dgram_packet_def)
  have x: "ota_session_active ?x" "sensor_state.ota_target_slot ?x = t" "current_rx_page_offset ?x = of_nat (4096 * k)"
    using dn' handle_page_end_keeps [of E nnet "fw_packet_at ((!) (page_end_bytes c))" _ _ ?x]
    unfolding pages_done_def session_base_def s1x by simp_all
  show "report_to_send s1 = \<lparr>br_type = PKT_TYPE_BITMAP_REPORT, br_status = OTA_REPORT_STATUS_OK,
       br_page_offset = of_nat (4096 * k), br_bitmap = page_bitmap s1\<rparr>"
    unfolding s1x
    by (subst handle_page_end_reports [OF x(1)]) (simp_all add: pkt x page_not_no_page net del: of_nat_mult)
qed

text \<open>The schedule as a whole: the bitmap is complete, and a step later the page is done.\<close>

lemma lossless_round_step:
  assumes r: "rollout E im t sec ip c s" and b: "between im t k c s" and k: "4096 * k < im_size im"
    and sz: "im_size im + 4096 \<le> 2 ^ 32" and set: "lossless_setting cnet nnet" and only: "only_node ip c"
    and cs: "(c3, s2) = lossless_round E im cnet nnet sender ip (c, s)"
  shows "rollout E im t sec ip c3 s2" "distributing im t ip k c3 s2" "node_complete ip c3" "only_node ip c3"
    "distribute_resume cnet BitmapEvent c3 = finish_page c3"
proof -
  define p where "p = unat (page_start_offset c)"
  define e where "e = unat (expected_page_size c)"
  obtain hop where hop: "ready_hop hop cnet" using set by (auto simp: lossless_setting_def)
  have net: "node_id nnet \<noteq> 1" using set by (simp add: lossless_setting_def)
  define c2 where "c2 = timer_run (replicate (chunk_count e) cnet)
      (fold (ota_coordinator_handle_uart (crc16_data E) cnet) (py_page_lines p (im_bytes im p (p + e))) c)"
  have cb: "coord_between im t k c" and dn: "pages_done E contents tracked im t k s" using b by (simp_all add: between_def)
  note f = lossless_sends [OF cb k sz hop r, folded p_def e_def, folded c2_def]
  define sent where "sent = map (Pair hop) (map (chunk_datagram c2) [0..<total_chunks c2] @ [page_end_bytes c2])"
  have sent: "drop (length (sends (session_state.effects c))) (sends (session_state.effects c2)) = sent"
  proof -
    have "sends (session_state.effects c2) = sends (session_state.effects c) @ sent" unfolding sent_def by (rule f(7))
    then show ?thesis by simp
  qed
  define s1 where "s1 = fold (\<lambda>(hop, bs). sensor_udp_rx E nnet sender ((!) bs) (of_nat (length bs))) sent s"
  note rx = lossless_receives [OF f(4) sz net dn, where hop = hop and sender = sender, folded sent_def, OF s1_def]
  let ?r = "report_to_send s1"
  have bm: "length (br_bitmap ?r) = 8" "br_type ?r = PKT_TYPE_BITMAP_REPORT" "br_page_offset ?r = of_nat (4096 * k)"
    using rx by (simp_all add: pages_done_def session_base_def)
  have c3s2: "c3 = handle_coordinator_report ((!) (bitmap_report_bytes ?r)) (of_nat sizeof_bitmap_report) ip c2"
    "s2 = send_report_callback nnet s1"
    using cs unfolding lossless_round_def Let_def split_conv p_def [symmetric] e_def [symmetric] c2_def [symmetric] sent
      s1_def [symmetric] by simp_all
  have c3: "c3 = handle_bitmap_report ?r ip c2"
    unfolding c3s2(1) by (rule bitmap_report_delivered [OF bm(1,2)])
  have l: "page_loaded (crc16_data E) im t k c2" and ok2: "page_ok c2" "running_ok c2" "coord_ok c2"
    using f(4) by (simp_all add: distributing_def coord_ok_def)
  have "set sent \<subseteq> set (sends (session_state.effects c2))" by (auto simp: f(7) sent_def)
  then have "rollout E im t sec ip c2 s1"
    unfolding s1_def using datagrams_transfer(2) [OF l ok2(1,2) sz, of hop]
    by (intro rollout_deliver_all [OF f(1)]) (simp_all only: sent_def)
  then have r2: "rollout E im t sec ip c2 s2" unfolding c3s2(2) by (rule rollout.report_timer)
  have ne: "bitmap_report_bytes ?r \<noteq> []" by (simp add: bitmap_report_bytes_def)
  show r3: "rollout E im t sec ip c3 s2"
    unfolding c3s2(1) using report_sent [OF set, of s1] ne holds_bytes_self
    by (intro rollout.report [OF r2]) (auto simp: c3s2(2))
  have ses: "session_ok c2" using ok2 by (simp add: page_ok_def)
  have n1: "session_nodes_count c2 = 1" using only by (simp add: f(6) only_node_def)
  have "session_ok c" using b by (simp add: between_def coord_between_def takes_data_def coord_ok_def page_ok_def)
  then have node: "session_nodes c2 ! 0 = session_nodes c ! 0" "iid (session_nodes c2 ! 0) = iid ip"
    using f(5) active_one [OF ses n1] active_one [of c] only by (simp_all add: only_node_def)
  have an: "active_nodes c2 = [session_nodes c2 ! 0]" by (rule active_one [OF ses n1])
  have off: "br_page_offset ?r = page_start_offset c2" using bm(3) loaded_page_start [OF l] by simp
  have first: "first_page_report (page_start_offset c2) [(?r, ip)] (session_nodes c2 ! 0) = Some ?r"
    by (simp add: first_page_report_def off node(2))
  have rs: "all_reported c2 [(?r, ip)]" "list_all (\<lambda>(r, a). length (br_bitmap r) = 8) [(?r, ip)]"
    using bm(1) first by (simp_all add: all_reported_def an)
  have "bitmap_bit (page_bitmap s1) ch" if ch: "ch < total_chunks c2" for ch
  proof -
    have i: "ch < 64" "64 * (64 * k + ch) < im_size im" using chunk_carried(1,3) [OF l ok2(1,2) sz ch] by simp_all
    have "(64 * k + ch) div 64 = k" "(64 * k + ch) mod 64 = ch" using i(1) by simp_all
    moreover have "\<forall>q. q div 64 = k \<longrightarrow> 64 * q < im_size im \<longrightarrow> bitmap_bit (page_bitmap s1) (q mod 64)"
      using rx(1) unfolding pages_done_def by simp
    ultimately show ?thesis using i(2) by metis
  qed
  moreover have "br_bitmap ?r = page_bitmap s1" by (subst rx(2)) simp
  ultimately have none: "chunks_missed c2 [(?r, ip)] = []"
    by (simp add: chunks_missed_def an reported_bitmap_def first filter_empty_conv)
  have d1: "distinct (map iid (active_nodes c2))" by (simp add: an)
  have pos: "0 < session_nodes_count c2" using n1 by simp
  have c3r: "c3 = fold (\<lambda>(r, sender). handle_bitmap_report r sender) [(?r, ip)] c2" by (simp add: c3)
  obtain nr bs es where c3s: "c3 = c2\<lparr>node_replied := nr, session_bitmaps := bs, session_state.effects := session_state.effects c2 @ es\<rparr>"
    and aw: "distribute_resume cnet BitmapEvent c3 = after_wait cnet c3" and m: "missing_chunks 0 c3 = chunks_missed c2 [(?r, ip)]"
    using reported_round [OF ok2(3) f(2,3) pos d1 rs, of cnet, folded c3r] by blast
  have comp: "ota_page_is_complete (total_chunks c3) c3" using m none missing_none_iff [of c3] by simp
  then show "distribute_resume cnet BitmapEvent c3 = finish_page c3" by (simp add: aw after_wait_def)
  show "node_complete ip c3"
    using comp n1 node(2) unfolding node_complete_def page_is_complete_iff
    by (intro exI [of _ 0]) (simp add: c3s)
  show "distributing im t ip k c3 s2"
    using l f(2) by (intro distributing_page [OF r3 sz]) (simp_all add: c3s page_loaded_def)
  show "only_node ip c3" using n1 node(2) by (simp add: only_node_def c3s)
qed

lemma lossless_page_step:
  assumes r: "rollout E im t sec ip c s" and b: "between im t k c s" and k: "4096 * k < im_size im"
    and sz: "im_size im + 4096 \<le> 2 ^ 32" and set: "lossless_setting cnet nnet" and only: "only_node ip c"
    and cs: "(c', s') = lossless_page E im cnet nnet sender ip (c, s)"
  shows "rollout E im t sec ip c' s'" "between im t (Suc k) c' s'" "only_node ip c'"
proof -
  obtain c3 s2 where lr: "(c3, s2) = lossless_round E im cnet nnet sender ip (c, s)" by (metis surj_pair)
  note f = lossless_round_step [OF r b k sz set only lr]
  have c': "c' = distribute_resume cnet BitmapEvent c3" and s': "s' = s2"
    using cs by (simp_all add: lossless_page_def lr [symmetric])
  have fin: "c' = finish_page c3" by (simp add: c' f(5))
  have nc: "node_complete ip c'" using f(3) by (simp add: fin node_complete_def finish_page_def Let_def)
  then show "rollout E im t sec ip c' s'" unfolding s' by (intro rollout.process [OF f(1) c']) simp
  have "\<not> distributing im t ip k c' s2" by (simp add: distributing_def fin finish_page_def Let_def)
  with process_keeps [OF f(2) sz c'] nc show "between im t (Suc k) c' s'" unfolding s' by blast
  show "only_node ip c'" using f(4) by (simp add: only_node_def fin finish_page_def Let_def)
qed

text \<open>One schedule per page, from the START to the end of the image.\<close>

lemma lossless_pages:
  assumes r: "rollout E im t sec ip c s" and b: "between im t 0 c s" and only: "only_node ip c"
    and sz: "im_size im + 4096 \<le> 2 ^ 32" and set: "lossless_setting cnet nnet"
    and n: "4096 * n < im_size im + 4096"
    and cs: "(lossless_page E im cnet nnet sender ip ^^ n) (c, s) = (c', s')"
  shows "rollout E im t sec ip c' s' \<and> between im t n c' s' \<and> only_node ip c'"
  using n cs
proof (induction n arbitrary: c' s')
  case 0
  with r b only show ?case by simp
next
  case (Suc n)
  obtain c1 s1 where cs1: "(lossless_page E im cnet nnet sender ip ^^ n) (c, s) = (c1, s1)" by fastforce
  have lt: "4096 * n < im_size im" using Suc.prems(1) by simp
  then have "4096 * n < im_size im + 4096" by simp
  note ih = Suc.IH [OF this cs1]
  have "(c', s') = lossless_page E im cnet nnet sender ip (c1, s1)" using Suc.prems(2) cs1 by simp
  from lossless_page_step [OF _ _ lt sz set _ this] ih show ?case by blast
qed

lemma admitted_between:
  assumes r: "rollout E im t sec ip c s" and c: "session_admitted im t c" "0 < im_size im" and sz: "im_size im + 4096 \<le> 2 ^ 32"
  shows "between im t 0 c s"
proof -
  from rollout_invariant [OF r sz] c(1) obtain k where b: "between im t k c s"
    by (auto simp: distributing_def session_admitted_def)
  then have "min (4096 * k) (im_size im) = 0" using c(1)
    by (simp add: between_def coord_between_def session_admitted_def page_end_offset_def)
  then have "k = 0" using c(2) by (simp add: min_def split: if_splits)
  with b show ?thesis by simp
qed

lemma first_round:
  assumes r: "rollout E im t sec ip c s" and c: "session_admitted im t c" "0 < im_size im" and only: "only_node ip c"
    and sz: "im_size im + 4096 \<le> 2 ^ 32" and set: "lossless_setting cnet nnet"
    and cs: "(c', s') = lossless_round E im cnet nnet sender ip (c, s)"
  shows "rollout E im t sec ip c' s'" "pc c' \<noteq> Idle" "node_complete ip c'" "unat (expected_page_size c') = min 4096 (im_size im)"
proof -
  have k: "4096 * 0 < im_size im" using c(2) by simp
  note f = lossless_round_step [OF r admitted_between [OF r c sz] k sz set only cs]
  show "rollout E im t sec ip c' s'" "pc c' \<noteq> Idle" "node_complete ip c'" "unat (expected_page_size c') = min 4096 (im_size im)"
    using f(1-3) by (simp_all add: distributing_def page_loaded_def page_end_offset_def)
qed

lemma lossless_completes:
  assumes r: "rollout E im t sec ip c s" and c: "session_admitted im t c" "0 < im_size im" and only: "only_node ip c"
    and sz: "im_size im + 4096 \<le> 2 ^ 32" and set: "lossless_setting cnet nnet"
    and cs: "(lossless_page E im cnet nnet sender ip ^^ ((im_size im + 4095) div 4096)) (c, s) = (c', s')"
  shows "rollout E im t sec ip c' s'" "pc c' = Idle" "unat (page_start_offset c') = im_size im"
proof -
  note l = lossless_pages [OF r admitted_between [OF r c sz] only sz set _ cs]
  have n: "4096 * ((im_size im + 4095) div 4096) < im_size im + 4096" "im_size im \<le> 4096 * ((im_size im + 4095) div 4096)"
    by linarith+
  show "rollout E im t sec ip c' s'" "pc c' = Idle" "unat (page_start_offset c') = im_size im"
    using l [OF n(1)] n(2) by (simp_all add: between_def coord_between_def page_end_offset_def)
qed

end

end
