(* ===== verification/Rollouts.thy ===== *)
theory Rollouts
  imports Sessions Lossless
begin

text \<open>
  Rollouts to the two real backends, up to the VERIFY: from the image file on the host to the boot
  metadata in the flash of the node.
\<close>

section \<open>Rollouts on the two backends\<close>

interpretation dual_lossy: lossy_flow
    "\<lparr>se_backend = dual_backend (env\<lparr>de_driver := nor_driver\<rparr>), crc16_data = py_crc16_data,
      OTA_STAGE_RESET_AFTER_VERIFY = reset\<rparr>" dual_contents dual_tracked
  for env reset
  by (intro lossy_flow.intro dual_flow.sensor_flow_axioms) (simp add: py.crc16_linear_axioms)

interpretation offchip_lossy: lossy_flow
    "\<lparr>se_backend = offchip_backend (env\<lparr>oe_flash := nor_ext_flash\<rparr>), crc16_data = py_crc16_data,
      OTA_STAGE_RESET_AFTER_VERIFY = reset\<rparr>" "offchip_contents ed_mem" "\<lambda>_ _ _. False"
  for env reset
  by (intro lossy_flow.intro offchip_flow.sensor_flow_axioms) (simp add: py.crc16_linear_axioms)

lemma dual_lossy_general:
  assumes "driver_never_fails (de_driver env)" "se_backend E = dual_backend env" "crc16_linear (crc16_data E)"
  shows "lossy_flow E dual_contents dual_tracked"
  using dual_flow_general [OF assms(1,2)] assms(3) by (intro lossy_flow.intro) (simp_all add: crc16_linear_def)

lemma offchip_lossy_general:
  assumes "ext_flash_ok (oe_flash env) cont is_open" "ext_never_fails (oe_flash env) is_open"
    "se_backend E = offchip_backend env" "crc16_linear (crc16_data E)"
  shows "lossy_flow E (offchip_contents cont) (\<lambda>_ _ _. False)"
  using offchip_flow_general [OF assms(1-3)] assms(4) by (intro lossy_flow.intro) (simp_all add: crc16_linear_def)

text \<open>The start of a rollout to a dual-onchip node that admits the session.\<close>

definition dual_admits :: "dual_env \<Rightarrow> image \<Rightarrow> u8 \<Rightarrow> u16 \<Rightarrow> bool" where
  "dual_admits env im t sec \<longleftrightarrow>
     unat t \<le> 1 \<and> t \<noteq> running_slot env \<and> 0 < im_size im \<and> im_size im \<le> unat (ota_flash_slot_size t) \<and>
     (sec = OTA_START_SEC_VER_UNKNOWN \<or> sec > dual_running_sec_ver env)"

lemma slot_image_size: "im_size im \<le> unat (ota_flash_slot_size t) \<Longrightarrow> im_size im + 4096 \<le> 2 ^ 32"
  by (simp add: ota_flash_slot_size_def layout_defs slot_defs split: if_splits)

lemma dual_rollout_begins:
  assumes drv: "driver_never_fails (de_driver env)" and E: "se_backend E = dual_backend env"
    and adm: "dual_admits env im t sec" and c: "session_admitted im t c" and d: "is_start im t sec d"
    and s: "br_bitmap (report_to_send s) = replicate 8 0"
  shows "rollout E im t sec ip c ((sensor_step E d s)\<lparr>sensor_state.effects := []\<rparr>)"
proof -
  have "unat (pk_offset (dgram_packet d)) = im_size im" using d by (simp add: is_start_def)
  with adm obtain q s' where
    "dual_start env t (pk_offset (dgram_packet d)) sec OTA_START_STATUS_REJECTED_TARGET (backend s) = ((True, q), s')"
    unfolding dual_admits_def by (metis dual_start_ok [OF drv])
  then show ?thesis by (intro rollout.admitted [OF c d _ s]) (simp add: E dual_backend_def)
qed

lemma dual_lossless_result:
  assumes drv: "driver_never_fails (de_driver env)" and E: "se_backend E = dual_backend env"
    and crc: "crc16_linear (crc16_data E)" and adm: "dual_admits env im t sec"
    and c: "session_admitted im t c" "only_node ip c" and d: "is_start im t sec d"
    and s: "br_bitmap (report_to_send s) = replicate 8 0" and net: "lossless_setting cnet nnet"
    and cs: "(lossless_page E im cnet nnet sender ip ^^ ((im_size im + 4095) div 4096))
      (c, (sensor_step E d s)\<lparr>sensor_state.effects := []\<rparr>) = (c', s')"
  shows "rollout E im t sec ip c' s' \<and> pc c' = Idle \<and> unat (page_start_offset c') = im_size im \<and>
    ota_session_active s' \<and> running_fw_crc s' = crc16_data E (im_bytes im 0 (im_size im)) 0 \<and>
    (\<forall>j < im_size im. fmem (backend s') (ota_flash_slot_start t + of_nat j) = im_byte im j)"
proof -
  note l = dual_lossy_general [OF drv E crc]
  have sz: "im_size im + 4096 \<le> 2 ^ 32" "0 < im_size im" using adm slot_image_size [of im t] by (simp_all add: dual_admits_def)
  note r = lossy_flow.lossless_completes [OF l dual_rollout_begins [OF drv E adm c(1) d s] c(1) sz(2) c(2) sz(1) net cs]
  show ?thesis using r lossy_flow.rollout_finished [OF l r(1) sz(1) r(2,3)] by (simp add: dual_contents_def)
qed

text \<open>C5. Without losses and flash faults a rollout finishes. The session consists of one dual-onchip node, which
  has reported nothing since it booted; its flash does not fail, the system's checksum routine is
  linear as a CRC is, its slot admits the START and the
  image, and it knows the root; the coordinator knows the next hop and its queue always has room.
  From the START on, one schedule per page (the host's lines, the pacing timers, every datagram in
  order, the node's report timer, its report, the posted event) is a rollout; after as many
  schedules as the image has pages the coordinator is past the last page, the node's session is
  active, and the node holds the image and its checksum.\<close>

theorem dual_lossless_rollout:
  assumes "driver_never_fails (de_driver env)" "se_backend E = dual_backend env"
    and "crc16_linear (crc16_data E)" "dual_admits env im t sec"
    and "session_admitted im t c" "only_node ip c" "is_start im t sec d"
    and "br_bitmap (report_to_send s) = replicate 8 0" "lossless_setting cnet nnet"
    and "(lossless_page E im cnet nnet sender ip ^^ ((im_size im + 4095) div 4096))
      (c, (sensor_step E d s)\<lparr>sensor_state.effects := []\<rparr>) = (c', s')"
  shows "rollout E im t sec ip c' s' \<and> pc c' = Idle \<and> unat (page_start_offset c') = im_size im \<and>
    ota_session_active s' \<and> running_fw_crc s' = crc16_data E (im_bytes im 0 (im_size im)) 0 \<and>
    (\<forall>j < im_size im. fmem (backend s') (ota_flash_slot_start t + of_nat j) = im_byte im j)"
  using assms by (rule dual_lossless_result)

section \<open>A small rollout\<close>

text \<open>The image of five bytes, a coordinator that has admitted node 2, and the node behind a ready route.\<close>

definition sample_admitted :: "u8 \<Rightarrow> coord_state" where
  "sample_admitted t = sample_taking\<lparr>current_file_size := 5, expected_page_size := 5, ota_target_slot := t\<rparr>"

definition sample_leaf :: net_env where
  "sample_leaf = sample_net\<lparr>root_ipaddr := Some (sample_ip 1)\<rparr>"

definition sample_started :: "dual_state sensor_state" where
  "sample_started = (sensor_step sample_sensor_env (sample_start 1) (sensor_initial sample_state))\<lparr>sensor_state.effects := []\<rparr>"

lemma sample_admitted_facts:
  "session_admitted sample_image t (sample_admitted t)" "only_node (sample_ip 2) (sample_admitted t)"
  by (simp_all add: session_admitted_def sample_admitted_def sample_taking_def takes_data_def coord_ok_def coord_inv_defs
      coord_initial_def list_all_iff PAGE_SIZE_def MAX_NODES_def sample_image_def only_node_def)

lemma sample_setting: "lossless_setting sample_routes sample_leaf"
  using sample_routes_ready
  by (auto simp: lossless_setting_def sample_leaf_def sample_net_def sample_ip_def uip_is_addr_unspecified_def)

lemma sample_rollout_env:
  "driver_never_fails (de_driver sample_env)" "se_backend sample_sensor_env = dual_backend sample_env"
  "crc16_linear (crc16_data sample_sensor_env)" "dual_admits sample_env sample_image 1 2" "is_start sample_image t 2 (sample_start t)"
  "br_bitmap (report_to_send (sensor_initial b)) = replicate 8 0"
  by (simp_all add: sample_env_facts sample_sensor_env_def py.crc16_linear_axioms dual_admits_def sample_image_def
      ota_flash_slot_size_def layout_defs slot_defs is_start_def sample_start_def sample_dgram_packet sensor_initial_def)

lemma sample_begins: "rollout sample_sensor_env sample_image 1 2 ip (sample_admitted 1) sample_started"
  unfolding sample_started_def
  by (rule dual_rollout_begins [OF sample_rollout_env(1,2,4) sample_admitted_facts(1) sample_rollout_env(5,6)])


text \<open>C1. A rollout in which a dual-onchip node is never given up delivers the image. The run begins when the
  coordinator has admitted the session and the node, which has reported nothing since it booted,
  has accepted its START, with no older datagram on the way; the host's lines arrive as the script
  writes them. Datagrams may be lost, repeated, delayed, reordered and forwarded, and other nodes
  may report anything. Every page ends with a complete bitmap of this node at the coordinator: a
  page can also end after ten recovery rounds with chunks missing, and runs with such a page are
  excluded. The node's flash does not fail, the system's checksum routine is
  linear as a CRC is, and the image ends at least one page below 4 GB. Then,
  when the coordinator is past the last page, the node's session is active, its slot holds every
  byte of the image, and its cumulative checksum is the image's.\<close>

theorem dual_rollout_delivers:
  assumes drv: "driver_never_fails (de_driver env)" and E: "se_backend E = dual_backend env"
    and crc: "crc16_linear (crc16_data E)" and r: "rollout E im t sec ip c s" and sz: "im_size im + 4096 \<le> 2 ^ 32"
    and n: "pc c = Idle" "unat (page_start_offset c) = im_size im"
  shows "ota_session_active s \<and> running_fw_crc s = crc16_data E (im_bytes im 0 (im_size im)) 0 \<and>
    (\<forall>j < im_size im. fmem (backend s) (ota_flash_slot_start t + of_nat j) = im_byte im j)"
  using lossy_flow.rollout_finished [OF dual_lossy_general [OF drv E crc] r sz n] by (simp add: dual_contents_def)

text \<open>C13. A rollout in which an offchip node is never given up delivers the image. The run begins when the
  coordinator has admitted the session and the node, which has reported nothing since it booted,
  has accepted its START, with no older datagram on the way; the host's lines arrive as the script
  writes them. Datagrams may be lost, repeated, delayed, reordered and forwarded, and other nodes
  may report anything. Every page ends with a complete bitmap of this node at the coordinator; runs
  in which a page ends otherwise, after ten recovery rounds, are excluded. The node's external flash
  does not fail, the system's checksum routine is linear as a CRC is, and the image ends at least one page below 4 GB. Then, when the coordinator is past
  the last page, the node's session is active, the external flash holds every byte of the image
  from the image address on, and the node's cumulative checksum is the image's.\<close>

theorem offchip_rollout_delivers:
  assumes drv: "ext_flash_ok (oe_flash env) cont is_open" "ext_never_fails (oe_flash env) is_open"
    and E: "se_backend E = offchip_backend env"
    and crc: "crc16_linear (crc16_data E)" and r: "rollout E im t sec ip c s" and sz: "im_size im + 4096 \<le> 2 ^ 32"
    and n: "pc c = Idle" "unat (page_start_offset c) = im_size im"
  shows "ota_session_active s \<and> running_fw_crc s = crc16_data E (im_bytes im 0 (im_size im)) 0 \<and>
    (\<forall>j < im_size im. cont (backend s) (OTA_EXT_IMAGE_ADDR + of_nat j) = im_byte im j)"
  using lossy_flow.rollout_finished [OF offchip_lossy_general [OF drv E crc] r sz n] by (simp add: offchip_contents_def)

section \<open>The VERIFY command\<close>

definition verify_datagram :: "u8 \<Rightarrow> u32 \<Rightarrow> u8 list" where
  "verify_datagram t checksum = PKT_TYPE_VERIFY # le32 checksum @ le16 0 @ [t]"

lemma verify_datagram_read:
  assumes "holds_bytes b (verify_datagram t checksum)"
  shows "pk_type (fw_packet_at b) = PKT_TYPE_VERIFY" "pk_offset (fw_packet_at b) = checksum"
    "pk_target_slot (fw_packet_at b) = t"
  using assms unfolding verify_datagram_def
  by (auto simp: holds_simps fw_packet_at_def numeral_eq_Suc dest!: holds_le32 holds_le16)

lemma uart_verify_line:
  assumes "0 < session_nodes_count c" "n < 2 ^ 32" "line_next_hop net = Some hop"
  shows "ota_coordinator_handle_uart crc net (py_verify_line n) c =
    say [SendTo hop (verify_datagram (session_state.ota_target_slot c) (of_nat n)), Uart ''FW:ACK''] (c\<lparr>shell_running := True\<rparr>)"
proof -
  have "scan_x (to_hex 8 n) = Some (of_nat n, [])" using scan_x_to_hex [of 8 n "[]"] assms(2) by simp
  then have scan: "scan_literal ''FW:V:'' (py_verify_line n) \<bind> scan_x = Some (of_nat n, [])"
    unfolding py_verify_line_def scan_literal_append by simp
  have "ota_coordinator_handle_uart crc net (py_verify_line n) c = uart_verify net (py_verify_line n) c"
    by (simp add: ota_coordinator_handle_uart_def py_verify_line_def)
  then show ?thesis
    using assms by (simp add: uart_verify_def scan Let_def send_packet_def send_to_all_def header_bytes verify_datagram_def)
qed

text \<open>The session is over and the image is in its slot, staged for the boot manager.\<close>

definition image_staged :: "image \<Rightarrow> u8 \<Rightarrow> u32 \<Rightarrow> u32 \<Rightarrow> u32 \<Rightarrow> dual_state sensor_state \<Rightarrow> bool" where
  "image_staged im t ver fsize fcrc s \<longleftrightarrow>
     \<not> ota_session_active s \<and>
     (\<exists>slot m. t = slot_no slot \<and> ota_flash_read_metadata (backend s) = (True, m) \<and>
        bv_candidate (boot_view_of m) = slot_no slot \<and> bv_attempts (boot_view_of m) = 0 \<and>
        bv_image (boot_view_of m) slot =
          \<lparr>img_state = OTA_IMAGE_STATE_PENDING, img_version = ver, img_size = fsize, img_crc = fcrc\<rparr>) \<and>
     (\<forall>j < im_size im. fmem (backend s) (ota_flash_slot_start t + of_nat j) = im_byte im j)"

lemma dual_staged_base:
  assumes drv: "driver_never_fails (de_driver env)" and E: "se_backend E = dual_backend env"
    and crc: "crc16_linear (crc16_data E)" and r: "rollout E im t sec ip c s" and sz: "im_size im + 4096 \<le> 2 ^ 32"
    and n: "pc c = Idle" "unat (page_start_offset c) = im_size im"
    and t: "unat t \<le> 1" "im_size im \<le> unat (ota_flash_slot_size t)"
    and hop: "line_next_hop net = Some hop"
    and c': "c' = ota_coordinator_handle_uart (crc16_data E) net
      (py_verify_line (unat (crc16_data E (im_bytes im 0 (im_size im)) 0))) c"
    and val: "validate_downloaded_image env (sensor_state.current_file_size s) t (backend s) = Some (ver, fsize, fcrc)"
  shows "\<exists>bs. session_state.effects c' = session_state.effects c @ [SendTo hop bs, Uart ''FW:ACK''] \<and>
    length bs = FW_PACKET_HEADER_LEN \<and>
    (\<forall>net' sender data datalen s'. holds_bytes data bs \<longrightarrow> unat datalen = length bs \<longrightarrow>
       s' = sensor_udp_rx E net' sender data datalen s \<longrightarrow>
       image_staged im t ver fsize fcrc s')"
proof -
  let ?crc = "crc16_data E (im_bytes im 0 (im_size im)) 0"
  let ?bs = "verify_datagram t (of_nat (unat ?crc))"
  note fin = lossy_flow.rollout_finished [OF dual_lossy_general [OF drv E crc] r sz n]
  have laws: "crc16_laws (crc16_data E)" using crc by (simp add: crc16_linear_def)
  have "unat ?crc < 2 ^ 32" using unat_u16_less [of ?crc] by simp
  then have "session_state.effects c' = session_state.effects c @ [SendTo hop ?bs, Uart ''FW:ACK'']"
    using uart_verify_line [of c _ net hop] fin(5,6) hop by (simp add: c' takes_data_def say_def)
  moreover have "image_staged im t ver fsize fcrc s'"
    if h: "holds_bytes data ?bs" and len: "unat datalen = length ?bs" and s': "s' = sensor_udp_rx E net' sender data datalen s"
    for net' sender data datalen s'
  proof -
    have u: "ucast (ucast w :: u32) = w" for w :: u16
      by (rule bit_word_eqI) (simp add: bit_simps)
    have "is_verify E im t (net', sender, data, datalen)"
      using verify_datagram_read [OF h] len
      by (simp add: is_verify_def dgram_complete_def dgram_packet_def verify_datagram_def FW_PACKET_HEADER_LEN_def u)
    from dual_verify_result [OF drv E laws t fin(1,2,4) _ this val] fin(7)
    show ?thesis by (simp add: s' sensor_step_def dual_contents_def image_staged_def)
  qed
  moreover have "length ?bs = FW_PACKET_HEADER_LEN" by (simp add: verify_datagram_def FW_PACKET_HEADER_LEN_def)
  ultimately show ?thesis by blast
qed


section \<open>The small rollout, to its end\<close>

definition sample_round :: "coord_state \<times> dual_state sensor_state" where
  "sample_round = lossless_round sample_sensor_env sample_image sample_routes sample_leaf (sample_ip 1) (sample_ip 2)
     (sample_admitted 1, sample_started)"

definition sample_rollout :: "coord_state \<times> dual_state sensor_state" where
  "sample_rollout = lossless_page sample_sensor_env sample_image sample_routes sample_leaf (sample_ip 1) (sample_ip 2)
     (sample_admitted 1, sample_started)"

lemma sample_image_size: "im_size sample_image = 5" "im_byte sample_image j = of_nat (j + 1)"
  by (simp_all add: sample_image_def)

lemma sample_round_facts:
  "rollout sample_sensor_env sample_image 1 2 (sample_ip 2) (fst sample_round) (snd sample_round)"
  "pc (fst sample_round) \<noteq> Idle" "node_complete (sample_ip 2) (fst sample_round)"
  "unat (expected_page_size (fst sample_round)) = 5"
  using lossy_flow.first_round [OF dual_lossy_general [OF sample_rollout_env(1-3)] sample_begins sample_admitted_facts(1)
      _ sample_admitted_facts(2) _ sample_setting, of "fst sample_round" "snd sample_round" "sample_ip 1"]
  by (simp_all add: sample_image_size sample_round_def)

lemma sample_rollout_facts:
  "rollout sample_sensor_env sample_image 1 2 (sample_ip 2) (fst sample_rollout) (snd sample_rollout)"
  "pc (fst sample_rollout) = Idle" "unat (page_start_offset (fst sample_rollout)) = 5"
proof -
  have "(lossless_page sample_sensor_env sample_image sample_routes sample_leaf (sample_ip 1) (sample_ip 2) ^^
      ((im_size sample_image + 4095) div 4096)) (sample_admitted 1, sample_started) = (fst sample_rollout, snd sample_rollout)"
    by (simp add: sample_image_size sample_rollout_def)
  from dual_lossless_result [OF sample_rollout_env(1-4) sample_admitted_facts sample_rollout_env(5)
      sample_rollout_env(6) [where b = sample_state] sample_setting, folded sample_started_def, OF this]
  show "rollout sample_sensor_env sample_image 1 2 (sample_ip 2) (fst sample_rollout) (snd sample_rollout)"
    "pc (fst sample_rollout) = Idle" "unat (page_start_offset (fst sample_rollout)) = 5"
    by (simp_all add: sample_image_size)
qed

theorem dual_lossless_rollout_witness:
  "unat (page_start_offset (fst sample_rollout)) = 5 \<and>
    running_fw_crc (snd sample_rollout) = py_crc16_data (im_bytes sample_image 0 5) 0"
proof -
  have "(lossless_page sample_sensor_env sample_image sample_routes sample_leaf (sample_ip 1) (sample_ip 2) ^^
      ((im_size sample_image + 4095) div 4096)) (sample_admitted 1, sample_started) = (fst sample_rollout, snd sample_rollout)"
    by (simp add: sample_image_size sample_rollout_def)
  from dual_lossless_rollout [OF sample_rollout_env(1-4) sample_admitted_facts sample_rollout_env(5)
      sample_rollout_env(6) [where b = sample_state] sample_setting, folded sample_started_def, OF this]
  show ?thesis by (simp add: sample_image_size sample_sensor_env_def)
qed


theorem dual_rollout_delivers_witness:
  "fmem (backend (snd sample_rollout)) (OTA_SLOT_B_START + 3) = 4"
proof -
  have sz: "im_size sample_image + 4096 \<le> 2 ^ 32" and p: "unat (page_start_offset (fst sample_rollout)) = im_size sample_image"
    by (simp_all add: sample_image_size sample_rollout_facts(3))
  note d = dual_rollout_delivers [OF sample_rollout_env(1-3) sample_rollout_facts(1) sz sample_rollout_facts(2) p]
  from d [THEN conjunct2, THEN conjunct2, rule_format, of 3]
  show ?thesis by (simp add: sample_image_size ota_flash_slot_start_def slot_defs)
qed


definition sample_offchip_started :: "ext_dev sensor_state" where
  "sample_offchip_started =
     (sensor_step sample_offchip_sensor_env (sample_start 0x80) (sensor_initial sample_ext_dev))\<lparr>sensor_state.effects := []\<rparr>"

definition sample_offchip_rollout :: "coord_state \<times> ext_dev sensor_state" where
  "sample_offchip_rollout = lossless_page sample_offchip_sensor_env sample_image sample_routes sample_leaf (sample_ip 1) (sample_ip 2)
     (sample_admitted 0x80, sample_offchip_started)"

theorem offchip_rollout_delivers_witness:
  "ed_mem (backend (snd sample_offchip_rollout)) 0x10004 = 5"
proof -
  let ?E = sample_offchip_sensor_env
  have drv: "ext_flash_ok (oe_flash sample_offchip_env) ed_mem ed_open" "ext_never_fails (oe_flash sample_offchip_env) ed_open"
    "se_backend ?E = offchip_backend sample_offchip_env" "crc16_linear (crc16_data ?E)"
    by (simp_all add: sample_offchip_sensor_env_def sample_offchip_env_def nor_ext_flash_ok nor_ext_never_fails py.crc16_linear_axioms)
  have d: "is_start sample_image 0x80 2 (sample_start 0x80)" and sz: "im_size sample_image + 4096 \<le> 2 ^ 32" "0 < im_size sample_image"
    and fs: "pk_offset (dgram_packet (sample_start 0x80)) \<noteq> 0" and n: "(im_size sample_image + 4095) div 4096 = 1"
    by (rule sample_rollout_env(5)) (simp_all add: sample_image_size sample_start_def sample_dgram_packet)
  have sec: "(2 :: u16) = OTA_START_SEC_VER_UNKNOWN \<or> 2 > OTA_RUNNING_SEC_VER sample_offchip_env"
    by (simp add: sample_offchip_env_def)
  obtain s' where ok: "be_start (se_backend ?E) 0x80 (pk_offset (dgram_packet (sample_start 0x80))) 2 OTA_START_STATUS_REJECTED_TARGET
      (backend (sensor_initial sample_ext_dev)) = ((True, OTA_START_STATUS_REJECTED_TARGET), s')"
    using offchip_start_ok [OF drv(1-3) fs sec] unfolding OTA_TARGET_OFFCHIP_def by blast
  note r = rollout.admitted [OF sample_admitted_facts(1) d ok sample_rollout_env(6), of "sample_ip 2", folded sample_offchip_started_def]
  note l = offchip_lossy_general [OF drv]
  have run: "(lossless_page ?E sample_image sample_routes sample_leaf (sample_ip 1) (sample_ip 2) ^^
      ((im_size sample_image + 4095) div 4096)) (sample_admitted 0x80, sample_offchip_started) =
      (fst sample_offchip_rollout, snd sample_offchip_rollout)"
    by (simp add: n sample_offchip_rollout_def)
  note c = lossy_flow.lossless_completes [OF l r sample_admitted_facts(1) sz(2) sample_admitted_facts(2) sz(1) sample_setting run]
  from offchip_rollout_delivers [OF drv c(1) sz(1) c(2,3), THEN conjunct2, THEN conjunct2, rule_format, of 4]
  show ?thesis by (simp add: sample_image_size OTA_EXT_IMAGE_ADDR_def)
qed

end
