(* ===== verification/Sender.thy ===== *)
theory Sender
  imports Uart
begin

text \<open>
  The host script, \<open>uart_sender.py\<close>, from its arguments to the lines it writes. What it reads from the
  serial port is a tape: the lines in the order they arrive, with a \<open>TimeUp\<close> where the loop that is
  waiting then finds its deadline passed. An exhausted tape is a port that stays silent. A line is
  what \<open>readline\<close> returned, decoded and stripped. The log file and what is printed on the terminal are
  not modelled, nor is \<open>int(value, 0)\<close>: the security version comes as a number, \<open>None\<close> if absent.
  Texts of arguments are ASCII.
\<close>

section \<open>Arguments\<close>

definition py_space :: "char \<Rightarrow> bool" where
  "py_space c \<longleftrightarrow> isspace c \<or> (let n = (of_char c :: nat) in 0x1C \<le> n \<and> n \<le> 0x1F)"

definition py_strip :: "string \<Rightarrow> string" where
  "py_strip s = rev (dropWhile py_space (rev (dropWhile py_space s)))"

definition py_lower :: "string \<Rightarrow> string" where
  "py_lower = map (\<lambda>c. let n = (of_char c :: nat) in if 0x41 \<le> n \<and> n \<le> 0x5A then char_of (n + 0x20) else c)"

definition parse_slot :: "string \<Rightarrow> u8 option" where
  "parse_slot slot_text =
     (let slot = py_lower (py_strip slot_text)
      in if slot \<in> {''0'', ''a'', ''slot-a'', ''slota''} then Some OTA_SLOT_A
         else if slot \<in> {''1'', ''b'', ''slot-b'', ''slotb''} then Some OTA_SLOT_B
         else None)"

text \<open>The test \<open>pattern in bytes\<close>.\<close>

fun py_contains :: "u8 list \<Rightarrow> u8 list \<Rightarrow> bool" where
  "py_contains pat [] \<longleftrightarrow> pat = []"
| "py_contains pat (b # bs) \<longleftrightarrow> take (length pat) (b # bs) = pat \<or> py_contains pat bs"

definition detect_target_slot :: "u8 list \<Rightarrow> u8 option" where
  "detect_target_slot data =
     (let header = take 256 data
      in if py_contains (le32 0x0002E000) header \<or> py_contains (le32 0x0002E100) header then Some OTA_SLOT_B else None)"

text \<open>The target the main program passes on; \<open>None\<close> is its exit with an error.\<close>

definition py_main_target :: "nat option \<Rightarrow> string option \<Rightarrow> u8 list \<Rightarrow> string option" where
  "py_main_target image_sec_ver target data =
     (case target of
        Some t \<Rightarrow> Some t
      | None \<Rightarrow>
          if image_sec_ver \<noteq> None then Some ''offchip''
          else case detect_target_slot data of
            None \<Rightarrow> None
          | Some detected \<Rightarrow> Some (if detected = OTA_SLOT_B then ''B'' else ''A''))"

section \<open>Waiting and retrying\<close>

datatype reading = Line string | TimeUp

fun wait_line :: "string \<Rightarrow> reading list \<Rightarrow> bool \<times> reading list" where
  "wait_line expected [] = (False, [])"
| "wait_line expected (TimeUp # tape) = (False, tape)"
| "wait_line expected (Line line # tape) = (if line = expected then (True, tape) else wait_line expected tape)"

text \<open>The result, the lines written, and the rest of the tape.\<close>

fun send_attempts :: "nat \<Rightarrow> string \<Rightarrow> string \<Rightarrow> reading list \<Rightarrow> bool \<times> string list \<times> reading list" where
  "send_attempts 0 cmd expected tape = (False, [], tape)"
| "send_attempts (Suc n) cmd expected tape =
     (case wait_line expected tape of
        (True, tape) \<Rightarrow> (True, [cmd], tape)
      | (False, tape) \<Rightarrow>
          (case send_attempts n cmd expected tape of (ok, out, tape) \<Rightarrow> (ok, cmd # out, tape)))"

definition send_command_with_ack :: "string \<Rightarrow> string \<Rightarrow> reading list \<Rightarrow> bool \<times> string list \<times> reading list" where
  "send_command_with_ack cmd expected_ack tape =
     (if cmd = '''' then case wait_line expected_ack tape of (ok, tape) \<Rightarrow> (ok, [], tape)
      else send_attempts 5 cmd expected_ack tape)"

datatype start_status = StartAck | StartNoTargets | StartTimeout

text \<open>The wait of \<open>send_start_and_wait\<close>, after the line has been written.\<close>

fun start_wait :: "reading list \<Rightarrow> start_status \<times> reading list" where
  "start_wait [] = (StartTimeout, [])"
| "start_wait (TimeUp # tape) = (StartTimeout, tape)"
| "start_wait (Line line # tape) =
     (if line = ''FW:ACK'' then (StartAck, tape)
      else if line = ''FW:NO_TARGETS'' then (StartNoTargets, tape)
      else start_wait tape)"

section \<open>A transfer\<close>

text \<open>The chunks of a page, up to the first one that is not acknowledged in five attempts.\<close>

fun send_lines :: "string list \<Rightarrow> reading list \<Rightarrow> bool \<times> string list \<times> reading list" where
  "send_lines [] tape = (True, [], tape)"
| "send_lines (cmd # cmds) tape =
     (case send_command_with_ack cmd ''FW:ACK'' tape of
        (False, out, tape) \<Rightarrow> (False, out, tape)
      | (True, out, tape) \<Rightarrow>
          (case send_lines cmds tape of (ok, out', tape) \<Rightarrow> (ok, out @ out', tape)))"

text \<open>The pages from an offset on; \<open>rest\<close> is the file from there.\<close>

function send_pages :: "nat \<Rightarrow> u8 list \<Rightarrow> reading list \<Rightarrow> bool \<times> string list \<times> reading list" where
  "send_pages page_offset rest tape =
     (if rest = [] then (True, [], tape)
      else case send_lines (py_page_lines page_offset (take 4096 rest)) tape of
        (False, out, tape) \<Rightarrow> (False, out, tape)
      | (True, out, tape) \<Rightarrow>
          (case send_command_with_ack '''' ''FW:PAGE_OK'' tape of
             (False, _, tape) \<Rightarrow> (False, out, tape)
           | (True, _, tape) \<Rightarrow>
               (case send_pages (page_offset + 4096) (drop 4096 rest) tape of
                  (ok, out', tape) \<Rightarrow> (ok, out @ out', tape))))"
  by auto
termination by (relation "measure (\<lambda>(page_offset, rest, tape). length rest)") auto

declare send_pages.simps [simp del]

datatype sender_outcome = Completed | NoTargets | GaveUp | Refused

text \<open>The decimal digits of a number.\<close>

fun to_dec :: "nat \<Rightarrow> string" where
  "to_dec n = (if n < 10 then [] else to_dec (n div 10)) @ [hex_digit (n mod 10)]"

declare to_dec.simps [simp del]

text \<open>The target field of the START line, \<open>None\<close> for a slot that cannot be parsed.\<close>

definition start_target_name :: "string option \<Rightarrow> string option" where
  "start_target_name target_slot =
     (let target_text = py_lower (py_strip (case target_slot of None \<Rightarrow> ''offchip'' | Some t \<Rightarrow> if t = '''' then ''offchip'' else t))
      in if target_text = ''offchip'' then Some ''offchip''
         else map_option (\<lambda>target_slot_id. if target_slot_id = OTA_SLOT_A then ''A'' else ''B'') (parse_slot target_text))"

definition send_firmware ::
    "u8 list \<Rightarrow> nat option \<Rightarrow> string option \<Rightarrow> reading list \<Rightarrow> sender_outcome \<times> string list" where
  "send_firmware data image_sec_ver target_slot tape =
     (case (image_sec_ver, start_target_name target_slot) of
        (Some sec_ver, Some target) \<Rightarrow>
          let cmd = py_start_line (length data) (to_dec sec_ver) target
          in (case start_wait tape of
                (StartNoTargets, _) \<Rightarrow> (NoTargets, [cmd])
              | (StartTimeout, _) \<Rightarrow> (GaveUp, [cmd])
              | (StartAck, tape) \<Rightarrow>
                  (case send_pages 0 data tape of
                     (False, out, _) \<Rightarrow> (GaveUp, cmd # out)
                   | (True, out, tape) \<Rightarrow>
                       (case send_command_with_ack (py_verify_line (unat (py_crc16_data data 0))) ''FW:ACK'' tape of
                          (ok, out', _) \<Rightarrow> (if ok then Completed else GaveUp, cmd # out @ out'))))
      | _ \<Rightarrow> (Refused, []))"

text \<open>The main program, from its parsed arguments: a version outside 1 to 65535 and a missing target that
  cannot be detected end it before the port is opened.\<close>

definition sender_main ::
    "u8 list \<Rightarrow> nat option \<Rightarrow> string option \<Rightarrow> reading list \<Rightarrow> sender_outcome \<times> string list" where
  "sender_main data image_sec_ver target tape =
     (if (case image_sec_ver of None \<Rightarrow> False | Some v \<Rightarrow> v = 0 \<or> v > 0xFFFF) then (Refused, [])
      else case py_main_target image_sec_ver target data of
        None \<Rightarrow> (Refused, [])
      | Some t \<Rightarrow> send_firmware data image_sec_ver (Some t) tape)"

section \<open>What it writes\<close>

text \<open>The lines of a file after the START line.\<close>

function file_lines :: "nat \<Rightarrow> u8 list \<Rightarrow> string list" where
  "file_lines page_offset rest =
     (if rest = [] then []
      else py_page_lines page_offset (take 4096 rest) @ file_lines (page_offset + 4096) (drop 4096 rest))"
  by auto
termination by (relation "measure (\<lambda>(page_offset, rest). length rest)") auto

declare file_lines.simps [simp del]

text \<open>Each line written at least once and at most five times, before the next one.\<close>

definition attempts_of :: "string list \<Rightarrow> string list \<Rightarrow> bool" where
  "attempts_of ls out \<longleftrightarrow>
     (\<exists>ks. length ks = length ls \<and> list_all (\<lambda>k. 1 \<le> k \<and> k \<le> 5) ks \<and> out = concat (map2 replicate ks ls))"

lemma attempts_of_Nil [simp]: "attempts_of [] []"
  by (simp add: attempts_of_def)

lemma attempts_of_one: "1 \<le> k \<Longrightarrow> k \<le> 5 \<Longrightarrow> attempts_of [l] (replicate k l)"
  unfolding attempts_of_def by (intro exI [of _ "[k]"]) simp

lemma attempts_of_append:
  assumes "attempts_of ls out" "attempts_of ls' out'"
  shows "attempts_of (ls @ ls') (out @ out')"
proof -
  obtain ks ks' where "length ks = length ls" "list_all (\<lambda>k. 1 \<le> k \<and> k \<le> 5) ks" "out = concat (map2 replicate ks ls)"
    "length ks' = length ls'" "list_all (\<lambda>k. 1 \<le> k \<and> k \<le> 5) ks'" "out' = concat (map2 replicate ks' ls')"
    using assms unfolding attempts_of_def by blast
  then show ?thesis unfolding attempts_of_def by (intro exI [of _ "ks @ ks'"]) simp
qed

text \<open>A prefix of the lines, all of them when the exchange succeeded.\<close>

definition writes_prefix :: "string list \<Rightarrow> bool \<Rightarrow> string list \<Rightarrow> bool" where
  "writes_prefix ls ok out \<longleftrightarrow> (\<exists>m \<le> length ls. attempts_of (take m ls) out \<and> (ok \<longrightarrow> m = length ls))"

lemma writes_prefix_ok: "writes_prefix ls True out \<longleftrightarrow> attempts_of ls out"
  unfolding writes_prefix_def by auto

lemma writes_prefix_fail:
  assumes "writes_prefix ls False out"
  shows "writes_prefix (ls @ ls') False out"
proof -
  obtain m where "m \<le> length ls" "attempts_of (take m ls) out" using assms unfolding writes_prefix_def by blast
  then show ?thesis unfolding writes_prefix_def by (intro exI [of _ m]) simp
qed

lemma writes_prefix_append:
  assumes "attempts_of ls out" "writes_prefix ls' ok out'"
  shows "writes_prefix (ls @ ls') ok (out @ out')"
proof -
  obtain m where m: "m \<le> length ls'" "attempts_of (take m ls') out'" "ok \<longrightarrow> m = length ls'"
    using assms(2) unfolding writes_prefix_def by blast
  then show ?thesis unfolding writes_prefix_def
    using attempts_of_append [OF assms(1) m(2)] by (intro exI [of _ "length ls + m"]) simp
qed

lemma send_attempts_writes:
  "send_attempts n cmd expected tape = (ok, out, tape') \<Longrightarrow> \<exists>k \<le> n. out = replicate k cmd \<and> (0 < n \<longrightarrow> 1 \<le> k)"
proof (induction n arbitrary: tape ok out tape')
  case (Suc n)
  obtain hit t where w: "wait_line expected tape = (hit, t)" by (cases "wait_line expected tape")
  obtain ok1 out1 t1 where r: "send_attempts n cmd expected t = (ok1, out1, t1)" using prod_cases3 by blast
  then obtain k where k: "k \<le> n" "out1 = replicate k cmd" using Suc.IH [OF r] by blast
  show ?case
  proof (cases hit)
    case True
    then show ?thesis using Suc.prems w by (intro exI [of _ 1]) auto
  next
    case False
    then show ?thesis using Suc.prems w r k by (intro exI [of _ "Suc k"]) auto
  qed
qed simp

lemma send_command_writes:
  "send_command_with_ack cmd expected tape = (ok, out, tape') \<Longrightarrow> cmd \<noteq> '''' \<Longrightarrow> attempts_of [cmd] out"
  using send_attempts_writes [of 5 cmd expected tape] by (auto simp: send_command_with_ack_def intro: attempts_of_one)

lemma send_lines_writes:
  "send_lines ls tape = (ok, out, tape') \<Longrightarrow> '''' \<notin> set ls \<Longrightarrow> writes_prefix ls ok out"
proof (induction ls arbitrary: tape ok out tape')
  case Nil
  then show ?case by (simp add: writes_prefix_def)
next
  case (Cons l ls)
  obtain hit out1 t1 where c: "send_command_with_ack l ''FW:ACK'' tape = (hit, out1, t1)" using prod_cases3 by blast
  have one: "attempts_of [l] out1" using send_command_writes [OF c] Cons.prems(2) by auto
  obtain ok2 out2 t2 where r: "send_lines ls t1 = (ok2, out2, t2)" using prod_cases3 by blast
  have IH: "writes_prefix ls ok2 out2" using Cons.IH [OF r] Cons.prems(2) by simp
  show ?case
  proof (cases hit)
    case True
    then show ?thesis using Cons.prems(1) c r writes_prefix_append [OF one IH] by simp
  next
    case False
    then show ?thesis
      using Cons.prems(1) c one unfolding writes_prefix_def by (intro exI [of _ 1]) auto
  qed
qed

lemma py_lines_nonempty [simp]: "py_data_line off c \<noteq> ''''" "py_verify_line n \<noteq> ''''" "'''' \<notin> set (py_page_lines off bs)"
  using py_page_lines_split [of off 0 bs] by (auto simp: py_data_line_def py_verify_line_def)

lemma send_pages_writes:
  "send_pages off rest tape = (ok, out, tape') \<Longrightarrow> writes_prefix (file_lines off rest) ok out"
proof (induction "length rest" arbitrary: off rest tape ok out tape' rule: less_induct)
  case less
  show ?case
  proof (cases "rest = []")
    case True
    then show ?thesis
      using less.prems by (simp add: send_pages.simps [of off] file_lines.simps [of off] writes_prefix_def)
  next
    case False
    let ?ls = "py_page_lines off (take 4096 rest)" and ?more = "file_lines (off + 4096) (drop 4096 rest)"
    have fl: "file_lines off rest = ?ls @ ?more"
      using False by (subst file_lines.simps) simp
    obtain hit out1 t1 where c: "send_lines ?ls tape = (hit, out1, t1)" using prod_cases3 by blast
    obtain hit2 o2 t2 where p: "send_command_with_ack '''' ''FW:PAGE_OK'' t1 = (hit2, o2, t2)" using prod_cases3 by blast
    obtain ok3 out3 t3 where r: "send_pages (off + 4096) (drop 4096 rest) t2 = (ok3, out3, t3)" using prod_cases3 by blast
    have w: "writes_prefix ?ls hit out1" using send_lines_writes [OF c] by simp
    have IH: "writes_prefix ?more ok3 out3" using False by (intro less.hyps [OF _ r]) simp
    have res: "(ok, out) = (if \<not> hit \<or> \<not> hit2 then (False, out1) else (ok3, out1 @ out3))"
      using less.prems False c p r by (cases hit; cases hit2) (simp_all add: send_pages.simps [of off rest])
    show ?thesis
    proof (cases "hit \<and> hit2")
      case True
      then show ?thesis using res w writes_prefix_append [OF _ IH] by (simp add: fl writes_prefix_ok)
    next
      case no: False
      have "writes_prefix ?ls False out1" using w unfolding writes_prefix_def by auto
      then show ?thesis using res no writes_prefix_fail by (auto simp: fl split: if_splits)
    qed
  qed
qed

text \<open>Lower case and surrounding spaces make no difference to a name a second time.\<close>

lemma py_lower_char_space:
  "py_space (let n = (of_char c :: nat) in if 0x41 \<le> n \<and> n \<le> 0x5A then char_of (n + 0x20) else c) = py_space c"
proof (cases "0x41 \<le> (of_char c :: nat) \<and> (of_char c :: nat) \<le> 0x5A")
  case True
  let ?n = "of_char c :: nat"
  have n: "of_char (char_of (?n + 0x20) :: char) = ?n + 0x20" using True by simp
  have ne: "c \<noteq> d" if "(of_char d :: nat) < 0x41" for d using True that by auto
  have ne': "char_of (?n + 0x20) \<noteq> d" if "(of_char d :: nat) < 0x41" for d :: char
  proof
    assume "char_of (?n + 0x20) = d"
    with n have "of_char d = ?n + 0x20" by simp
    with True that show False by simp
  qed
  show ?thesis using True ne ne' n by (simp add: py_space_def isspace_def Let_def)
qed (simp only: Let_def if_False)

lemma py_strip_lower: "py_strip (py_lower s) = py_lower (py_strip s)"
  by (simp add: py_strip_def py_lower_def dropWhile_map rev_map comp_def py_lower_char_space)

lemma py_strip_idem: "py_strip (py_strip s) = py_strip s"
proof -
  let ?l = "dropWhile py_space s" and ?t = "dropWhile py_space (rev (dropWhile py_space s))"
  have "dropWhile py_space (rev ?t) = rev ?t"
  proof (cases ?t rule: rev_cases)
    case (snoc xs c)
    have "rev ?l = takeWhile py_space (rev ?l) @ ?t" by simp
    then have "?l = rev ?t @ rev (takeWhile py_space (rev ?l))" by (metis rev_append rev_rev_ident)
    then have l: "?l = c # rev xs @ rev (takeWhile py_space (rev ?l))" by (simp only: snoc) simp
    have "\<not> py_space c" using hd_dropWhile [of py_space s] l by (metis list.distinct(1) list.sel(1))
    then show ?thesis by (simp add: snoc)
  next
    case Nil
    show ?thesis unfolding Nil by simp
  qed
  then show ?thesis by (simp add: py_strip_def)
qed

lemma py_lower_idem: "py_lower (py_lower s) = py_lower s"
  by (auto simp: py_lower_def Let_def)

text \<open>The names \<open>uart_sender.py\<close> accepts.\<close>

definition known_target :: "string \<Rightarrow> bool" where
  "known_target name \<longleftrightarrow>
     name \<in> {''offchip'', ''0'', ''a'', ''slot-a'', ''slota'', ''1'', ''b'', ''slot-b'', ''slotb''}"

definition target_text :: "string option \<Rightarrow> string" where
  "target_text target_slot =
     py_lower (py_strip (case target_slot of None \<Rightarrow> ''offchip'' | Some t \<Rightarrow> if t = '''' then ''offchip'' else t))"

lemma target_text_norm: "py_lower (py_strip (target_text ts)) = target_text ts"
  by (simp only: target_text_def py_strip_lower py_strip_idem py_lower_idem)

lemma start_target_name_result:
  "start_target_name target_slot =
     (let name = target_text target_slot
      in if name = ''offchip'' then Some ''offchip''
         else if name \<in> {''0'', ''a'', ''slot-a'', ''slota''} then Some ''A''
         else if name \<in> {''1'', ''b'', ''slot-b'', ''slotb''} then Some ''B'' else None)"
proof -
  let ?t = "target_text target_slot"
  have "start_target_name target_slot = (if ?t = ''offchip'' then Some ''offchip''
      else map_option (\<lambda>i. if i = OTA_SLOT_A then ''A'' else ''B'') (parse_slot ?t))"
    by (simp add: start_target_name_def Let_def target_text_def)
  moreover have "parse_slot ?t = (if ?t \<in> {''0'', ''a'', ''slot-a'', ''slota''} then Some OTA_SLOT_A
      else if ?t \<in> {''1'', ''b'', ''slot-b'', ''slotb''} then Some OTA_SLOT_B else None)"
    unfolding parse_slot_def Let_def target_text_norm ..
  ultimately show ?thesis by (simp add: Let_def slot_defs)
qed

lemma sender_writes_base:
  "case send_firmware data image_sec_ver target_slot tape of (outcome, out) \<Rightarrow>
     (case image_sec_ver of
        Some sec_ver \<Rightarrow>
          if known_target (target_text target_slot) then
            \<exists>out'. out = py_start_line (length data) (to_dec sec_ver) (the (start_target_name target_slot)) # out' \<and>
              (case fst (start_wait tape) of
                 StartNoTargets \<Rightarrow> outcome = NoTargets \<and> out' = []
               | StartTimeout \<Rightarrow> outcome = GaveUp \<and> out' = []
               | StartAck \<Rightarrow> outcome \<in> {Completed, GaveUp} \<and>
                   writes_prefix (file_lines 0 data @ [py_verify_line (unat (py_crc16_data data 0))]) (outcome = Completed) out')
          else outcome = Refused \<and> out = []
      | None \<Rightarrow> outcome = Refused \<and> out = [])"
proof (cases "image_sec_ver = None \<or> \<not> known_target (target_text target_slot)")
  case True
  moreover have "start_target_name target_slot = None" if "\<not> known_target (target_text target_slot)"
    using that by (auto simp: start_target_name_result known_target_def Let_def)
  ultimately show ?thesis by (auto simp: send_firmware_def split: option.split)
next
  case False
  then obtain v where a: "image_sec_ver = Some v" "known_target (target_text target_slot)" by auto
  then obtain name where name: "start_target_name target_slot = Some name"
    by (auto simp: start_target_name_result known_target_def Let_def split: if_splits)
  let ?v = "py_verify_line (unat (py_crc16_data data 0))" and ?fl = "file_lines 0 data"
  obtain status t where st: "start_wait tape = (status, t)" by fastforce
  obtain ok1 out1 t1 where p: "send_pages 0 data t = (ok1, out1, t1)" using prod_cases3 by blast
  obtain ok2 out2 t2 where c: "send_command_with_ack ?v ''FW:ACK'' t1 = (ok2, out2, t2)" using prod_cases3 by blast
  have w: "writes_prefix ?fl ok1 out1" by (rule send_pages_writes [OF p])
  have v: "attempts_of [?v] out2" by (rule send_command_writes [OF c]) simp
  show ?thesis
  proof (cases "status = StartAck \<and> ok1")
    case True
    then have "attempts_of (?fl @ [?v]) (out1 @ out2)"
      using w v by (simp add: attempts_of_append writes_prefix_ok)
    then have "writes_prefix (?fl @ [?v]) ok (out1 @ out2)" for ok
      unfolding writes_prefix_def by (intro exI [of _ "length (?fl @ [?v])"]) simp
    then show ?thesis using True by (simp add: send_firmware_def a name st p c Let_def)
  next
    case False
    then show ?thesis
      using w writes_prefix_fail [of ?fl out1 "[?v]"]
      by (cases status; cases ok1) (simp_all add: send_firmware_def a name st p Let_def)
  qed
qed

section \<open>A transfer without timeouts\<close>

definition awaited :: "reading \<Rightarrow> bool" where
  "awaited r \<longleftrightarrow> r \<in> {Line ''FW:ACK'', Line ''FW:PAGE_OK'', Line ''FW:NO_TARGETS'', TimeUp}"

lemma wait_line_hit:
  assumes "filter awaited tape = Line e # xs"
  shows "\<exists>t. wait_line e tape = (True, t) \<and> filter awaited t = xs"
proof -
  have "Line e \<in> set (filter awaited tape)" by (simp add: assms del: set_filter)
  then have "awaited (Line e)" by simp
  then show ?thesis using assms
  proof (induction tape)
    case (Cons r tape)
    then show ?case by (cases r) (auto simp: awaited_def split: if_splits)
  qed simp
qed

lemma start_wait_hit:
  "filter awaited tape = Line ''FW:ACK'' # xs \<Longrightarrow> \<exists>t. start_wait tape = (StartAck, t) \<and> filter awaited t = xs"
proof (induction tape)
  case (Cons r tape)
  then show ?case by (cases r) (auto simp: awaited_def split: if_splits)
qed simp

lemma send_command_hit:
  assumes "filter awaited tape = Line e # xs"
  shows "\<exists>t. send_command_with_ack cmd e tape = (True, if cmd = '''' then [] else [cmd], t) \<and> filter awaited t = xs"
  using wait_line_hit [OF assms] by (auto simp: send_command_with_ack_def numeral_eq_Suc)

lemma send_lines_hit:
  "filter awaited tape = replicate (length ls) (Line ''FW:ACK'') @ xs \<Longrightarrow> '''' \<notin> set ls \<Longrightarrow>
   \<exists>t. send_lines ls tape = (True, ls, t) \<and> filter awaited t = xs"
proof (induction ls arbitrary: tape)
  case (Cons l ls)
  then have "filter awaited tape = Line ''FW:ACK'' # replicate (length ls) (Line ''FW:ACK'') @ xs" by simp
  from send_command_hit [OF this, of l] Cons.prems(2) obtain t where
    c: "send_command_with_ack l ''FW:ACK'' tape = (True, [l], t)" "filter awaited t = replicate (length ls) (Line ''FW:ACK'') @ xs"
    by auto
  from Cons.IH [OF c(2)] Cons.prems(2) show ?case by (auto simp: c(1))
qed simp

text \<open>The answers a coordinator gives on a file: an acknowledgement per chunk, \<open>FW:PAGE_OK\<close> per page.\<close>

function file_answers :: "u8 list \<Rightarrow> reading list" where
  "file_answers rest =
     (if rest = [] then []
      else replicate ((length (take 4096 rest) + 31) div 32) (Line ''FW:ACK'') @ Line ''FW:PAGE_OK'' # file_answers (drop 4096 rest))"
  by auto
termination by (relation "measure length") auto

declare file_answers.simps [simp del]

lemma length_py_page_lines: "length (py_page_lines off bs) = (length bs + 31) div 32"
  using py_page_lines_split [of off 0 bs] page_split_facts(3) [of 0 bs] by simp

lemma send_pages_hit:
  "filter awaited tape = file_answers rest @ xs \<Longrightarrow>
   \<exists>t. send_pages off rest tape = (True, file_lines off rest, t) \<and> filter awaited t = xs"
proof (induction "length rest" arbitrary: off rest tape rule: less_induct)
  case less
  show ?case
  proof (cases "rest = []")
    case True
    then show ?thesis
      using less.prems by (simp add: send_pages.simps [of off] file_lines.simps [of off] file_answers.simps)
  next
    case False
    let ?ls = "py_page_lines off (take 4096 rest)"
    have "filter awaited tape = replicate (length ?ls) (Line ''FW:ACK'') @ Line ''FW:PAGE_OK'' # file_answers (drop 4096 rest) @ xs"
      using less.prems False by (simp only: file_answers.simps [of rest] length_py_page_lines) simp
    from send_lines_hit [OF this] obtain t1 where
      1: "send_lines ?ls tape = (True, ?ls, t1)" "filter awaited t1 = Line ''FW:PAGE_OK'' # file_answers (drop 4096 rest) @ xs"
      by auto
    from send_command_hit [OF 1(2), of "''''"] obtain t2 where
      2: "send_command_with_ack '''' ''FW:PAGE_OK'' t1 = (True, [], t2)" "filter awaited t2 = file_answers (drop 4096 rest) @ xs"
      by auto
    from False have "length (drop 4096 rest) < length rest" by simp
    from less.hyps [OF this 2(2)] obtain t3 where
      "send_pages (off + 4096) (drop 4096 rest) t2 = (True, file_lines (off + 4096) (drop 4096 rest), t3)" "filter awaited t3 = xs"
      by blast
    then show ?thesis
      using False 1(1) 2(1) by (simp add: send_pages.simps [of off rest] file_lines.simps [of off rest])
  qed
qed

text \<open>C16. What the host writes, whatever it reads. With no security version, or with a target that is not,
  up to case and surrounding spaces, one of the nine names it knows (none at all stands for
  offchip), it refuses and writes nothing. In every other case it writes one START line with the
  file's length, the version and the target. If the host then reads \<open>FW:NO_TARGETS\<close> first it stops
  for want of targets, and if nothing comes in time it gives up, both without writing more. After
  \<open>FW:ACK\<close> it writes the chunks of the file in order, each at least once and at most five times
  before the next, and after the last page the VERIFY line with the checksum of the file; it stops
  before the end only by giving up, and reports completion only when everything was written.\<close>

theorem sender_writes:
  "case send_firmware data image_sec_ver target_slot tape of (outcome, out) \<Rightarrow>
     (case image_sec_ver of
        Some sec_ver \<Rightarrow>
          if known_target (target_text target_slot) then
            \<exists>out'. out = py_start_line (length data) (to_dec sec_ver) (the (start_target_name target_slot)) # out' \<and>
              (case fst (start_wait tape) of
                 StartNoTargets \<Rightarrow> outcome = NoTargets \<and> out' = []
               | StartTimeout \<Rightarrow> outcome = GaveUp \<and> out' = []
               | StartAck \<Rightarrow> outcome \<in> {Completed, GaveUp} \<and>
                   writes_prefix (file_lines 0 data @ [py_verify_line (unat (py_crc16_data data 0))]) (outcome = Completed) out')
          else outcome = Refused \<and> out = []
      | None \<Rightarrow> outcome = Refused \<and> out = [])"
  by (rule sender_writes_base)

theorem sender_completes:
  assumes t: "start_target_name target_slot = Some target"
    and tape: "filter awaited tape = Line ''FW:ACK'' # file_answers data @ [Line ''FW:ACK'']"
  shows "send_firmware data (Some sec_ver) target_slot tape =
    (Completed, py_start_line (length data) (to_dec sec_ver) target # file_lines 0 data @
       [py_verify_line (unat (py_crc16_data data 0))])"
proof -
  obtain t1 where 1: "start_wait tape = (StartAck, t1)" "filter awaited t1 = file_answers data @ [Line ''FW:ACK'']"
    using start_wait_hit [OF tape] by blast
  obtain t2 where 2: "send_pages 0 data t1 = (True, file_lines 0 data, t2)" "filter awaited t2 = [Line ''FW:ACK'']"
    using send_pages_hit [OF 1(2)] by blast
  obtain t3 where "send_command_with_ack (py_verify_line (unat (py_crc16_data data 0))) ''FW:ACK'' t2 =
      (True, [py_verify_line (unat (py_crc16_data data 0))], t3)"
    using send_command_hit [OF 2(2), of "py_verify_line (unat (py_crc16_data data 0))"] by auto
  then show ?thesis using t 1(1) 2(1) by (simp add: send_firmware_def Let_def)
qed

text \<open>Without a security version the main program always ends without writing, although it goes on to
  detect a target.\<close>

lemma no_version_refused: "sender_main data None target tape = (Refused, [])"
  by (simp add: sender_main_def send_firmware_def split: option.split)

section \<open>A late acknowledgement\<close>

lemma page_lines_append:
  "32 dvd length xs \<Longrightarrow> py_page_lines off (xs @ ys) = py_page_lines off xs @ py_page_lines (off + length xs) ys"
proof (induction off xs rule: py_page_lines.induct)
  case (1 off xs)
  show ?case
  proof (cases "xs = []")
    case True
    then show ?thesis by (simp add: py_page_lines.simps [of off "[]"])
  next
    case False
    then have l: "32 \<le> length xs" using 1(2) by (simp add: dvd_imp_le)
    have "32 dvd length (drop 32 xs)" using 1(2) by simp
    from 1(1) [OF False this] show ?thesis
      using False l by (simp add: py_page_lines.simps [of off "xs @ ys"] py_page_lines.simps [of off xs])
  qed
qed

lemma distribution_begins:
  assumes "0 < session_nodes_count st" "0 < unat (expected_page_size st)"
  shows "page_buffer (distribute_start crc net st) = page_buffer st"
    "distribution_in_progress (distribute_start crc net st) = distribution_in_progress st"
    "start_admission_in_progress (distribute_start crc net st) = start_admission_in_progress st"
    "session_nodes_count (distribute_start crc net st) = session_nodes_count st"
    "page_crc (distribute_start crc net st) = crc (take (unat (expected_page_size st)) (page_buffer st)) 0"
    "\<exists>es. effects (distribute_start crc net st) = effects st @ es \<and> (\<forall>s. Uart s \<notin> set es)"
proof -
  have "(unat (expected_page_size st) + 63) div 64 \<noteq> 0" using assms(2) by (simp add: div_eq_0_iff)
  then obtain u where u: "distribute_start crc net st = first_pass_chunk net u" "page_buffer u = page_buffer st"
    "distribution_in_progress u = distribution_in_progress st" "effects u = effects st"
    "start_admission_in_progress u = start_admission_in_progress st" "session_nodes_count u = session_nodes_count st"
    "page_crc u = crc (take (unat (expected_page_size st)) (page_buffer st)) 0"
    using assms(1) by (simp add: distribute_start_def first_pass_def Let_def)
  note defs = first_pass_chunk_def send_paced_def send_chunk_def wait_queue_def Let_def
  show "page_buffer (distribute_start crc net st) = page_buffer st"
    "distribution_in_progress (distribute_start crc net st) = distribution_in_progress st"
    "start_admission_in_progress (distribute_start crc net st) = start_admission_in_progress st"
    "session_nodes_count (distribute_start crc net st) = session_nodes_count st"
    "page_crc (distribute_start crc net st) = crc (take (unat (expected_page_size st)) (page_buffer st)) 0"
    unfolding u(1) using u by (simp_all add: defs)
  have "Uart s \<notin> set (send_packet net pkt n)" for s pkt n
    using send_to_all_sends by (fastforce simp: send_packet_def)
  then show "\<exists>es. effects (distribute_start crc net st) = effects st @ es \<and> (\<forall>s. Uart s \<notin> set es)"
    unfolding u(1) using u(4) by (simp add: defs say_def)
qed

lemma line_while_distributing:
  assumes "distribution_in_progress st" "0 < session_nodes_count st" "\<not> start_admission_in_progress st"
    and "off < 2 ^ 32" "c \<noteq> []" "length c \<le> 64"
  shows "ota_coordinator_handle_uart crc net (py_data_line off c) st = st"
  using assms
  by (simp add: uart_data_line uart_data_def scan_py_data_line ota_start_admission_is_in_progress_def)

text \<open>C31. One late acknowledgement spoils a page. The host waits half a second for the acknowledgement of the
  first chunk, and writes the chunk again; the late acknowledgement and those that follow then each
  confirm the chunk before, down to the last, and the host takes the page for transferred. The
  coordinator, without any line lost, has counted the first chunk twice: it has sent exactly the
  acknowledgements the host has read, has started the distribution before the last chunk, and has
  ignored that chunk. The page it distributes ends with 32 bytes of the page before, and its checksum
  is computed over them, so every node finds the page correct.\<close>

theorem late_ack_spoils_page:
  assumes ready: "takes_data st" and zero: "page_bytes_received st = 0" "pc st = Idle"
    and len: "length bytes = unat (expected_page_size st)" "64 \<le> length bytes" "32 dvd length bytes"
    and ls: "ls = py_page_lines (unat (page_start_offset st)) bytes"
    and out: "send_lines ls (TimeUp # replicate (length ls) (Line ''FW:ACK'')) = (ok, out, tape)"
    and st': "st' = fold (ota_coordinator_handle_uart crc net) out st"
  shows "ok \<and> tape = [] \<and> out = hd ls # ls \<and>
    (let spoiled = take (length bytes - 32) bytes @ take 32 (drop (length bytes - 32) (page_buffer st))
     in take (length bytes) (page_buffer st') = spoiled \<and> page_crc st' = crc spoiled 0) \<and>
    distribution_in_progress st' \<and>
    (\<exists>es es'. effects st' = effects st @ es @ es' \<and> es = replicate (length ls) (Uart ''FW:ACK'') \<and> Uart ''FW:ACK'' \<notin> set es')"
proof -
  let ?p = "unat (page_start_offset st)"
  define n where "n = length bytes - 32"
  define a b where "a = take n bytes" and "b = drop n bytes"
  have ab: "a @ b = bytes" "length a = n" "length b = 32" using len(2) by (simp_all add: a_def b_def n_def)
  have "32 dvd length a" unfolding ab(2) n_def using len(3) by simp
  from page_lines_append [OF this, of ?p b] have "ls = py_page_lines ?p a @ py_page_lines (?p + n) b"
    unfolding ls ab(1,2) .
  moreover have "py_page_lines (?p + n) b = [py_data_line (?p + n) b]"
    using ab(3) by (subst py_page_lines.simps, cases b) (simp_all add: py_page_lines.simps [of "?p + n + 32"])
  ultimately have split: "ls = py_page_lines ?p a @ [py_data_line (?p + n) b]" by simp
  have "bytes \<noteq> []" using len(2) by auto
  then obtain more where first: "ls = py_data_line ?p (take 32 bytes) # more" by (simp add: ls py_page_lines.simps [of ?p])
  have nonempty: "'''' \<notin> set ls" by (simp add: ls)
  have rest: "send_lines cs (replicate (length cs) (Line ''FW:ACK'')) = (True, cs, [])" if "'''' \<notin> set cs" for cs
    using that by (induction cs) (auto simp: send_command_with_ack_def numeral_eq_Suc)
  have "send_lines ls (TimeUp # replicate (length ls) (Line ''FW:ACK'')) = (True, hd ls # ls, [])"
    using nonempty rest [of more] by (simp add: first send_command_with_ack_def numeral_eq_Suc)
  then have out: "ok" "tape = []" "out = hd ls # ls" using out by simp_all
  let ?s = "st\<lparr>page_buffer := take n bytes @ drop n (page_buffer st), page_bytes_received := expected_page_size st,
         effects := effects st @ replicate (Suc ((n + 31) div 32)) (Uart ''FW:ACK''), distribution_in_progress := True\<rparr>"
  let ?d = "distribute_start crc net ?s"
  have "fold (ota_coordinator_handle_uart crc net) (hd ls # py_page_lines ?p a) st = ?d"
    using repeated_chunk_result [OF ready zero(1) len(1,2), of crc net] zero(2)
    by (simp add: first a_def start_distribute_def n_def)
  then have st': "st' = ota_coordinator_handle_uart crc net (py_data_line (?p + n) b) ?d"
    unfolding st' out(3) by (subst split) simp
  have facts: "0 < session_nodes_count ?s" "0 < unat (expected_page_size ?s)" "\<not> start_admission_in_progress ?s"
    using ready len by (simp_all add: takes_data_def)
  note d = distribution_begins [OF facts(1,2), of crc net]
  have "?p + length bytes < 2 ^ 32"
    using ready len(1) transfer_ok_no_wrap [of st] by (simp add: takes_data_def coord_ok_def page_ok_def)
  then have st': "st' = ?d"
    unfolding st' using d(2,3,4) facts ab(3) len(2) unfolding n_def by (intro line_while_distributing) auto
  have "length bytes + 31 = 32 + (n + 31)" using len(2) by (simp add: n_def)
  then have count: "Suc ((n + 31) div 32) = length ls"
    unfolding ls length_py_page_lines by (simp add: div_add_self1)
  have buf: "take (length bytes) (page_buffer ?s) = take n bytes @ take 32 (drop n (page_buffer st))"
    using len(2) by (simp add: n_def)
  let ?spoiled = "take n bytes @ take 32 (drop n (page_buffer st))"
  have "page_buffer st' = page_buffer ?s" "page_crc st' = crc (take (length bytes) (page_buffer ?s)) 0"
    "distribution_in_progress st'"
    by (simp_all only: st' d(1,2,5) len(1)) simp_all
  then have res: "take (length bytes) (page_buffer st') = ?spoiled" "page_crc st' = crc ?spoiled 0" "distribution_in_progress st'"
    by (simp_all only: buf)
  obtain es where "effects ?d = effects ?s @ es" "\<forall>s. Uart s \<notin> set es" using d(6) by blast
  then have "effects st' = effects st @ replicate (length ls) (Uart ''FW:ACK'') @ es" "Uart ''FW:ACK'' \<notin> set es"
    by (simp_all only: st' count [symmetric]) simp_all
  then show ?thesis unfolding Let_def n_def [symmetric] using out res by blast
qed

theorem late_ack_spoils_page_witness:
  "page_crc (fold (ota_coordinator_handle_uart py_crc16_data sample_routes)
      (hd (py_page_lines 0 (replicate 96 7)) # py_page_lines 0 (replicate 96 7)) sample_taking) =
    py_crc16_data (replicate 64 7 @ replicate 32 0) 0"
proof -
  let ?ls = "py_page_lines 0 (replicate 96 7)"
  obtain ok out tape where o: "send_lines ?ls (TimeUp # replicate (length ?ls) (Line ''FW:ACK'')) = (ok, out, tape)"
    using prod_cases3 by blast
  have pre: "pc sample_taking = Idle" "length (replicate 96 (7 :: u8)) = unat (expected_page_size sample_taking)"
    "64 \<le> length (replicate 96 (7 :: u8))" "32 dvd length (replicate 96 (7 :: u8))"
    "?ls = py_page_lines (unat (page_start_offset sample_taking)) (replicate 96 7)"
    by (simp_all add: sample_taking_fields) (simp add: sample_taking_def coord_initial_def)
  from late_ack_spoils_page [OF sample_taking_ready sample_taking_fields(2) pre o refl, of py_crc16_data sample_routes]
  show ?thesis by (auto simp: Let_def sample_taking_fields)
qed

end
