(* ===== verification/Session_Start.thy ===== *)
theory Session_Start
  imports Sender Rollout
begin

text \<open>
  From the START line of the host to an admitted session: what the coordinator reads from the line, what
  it sends, and the state in which the admission window leaves it, from which a rollout begins.
\<close>

section \<open>The line\<close>

lemma to_dec_digits: "c \<in> set (to_dec n) \<Longrightarrow> \<exists>d < 10. c = hex_digit d"
proof (induction n rule: to_dec.induct)
  case (1 n)
  have "c = hex_digit (n mod 10) \<or> (\<not> n < 10 \<and> c \<in> set (to_dec (n div 10)))"
    using 1(2) by (subst (asm) to_dec.simps) (auto split: if_splits)
  moreover have "n mod 10 < 10" by simp
  ultimately show ?case using 1(1) by blast
qed

lemma to_dec_is_digit: "c \<in> set (to_dec n) \<Longrightarrow> is_digit 10 c"
  by (auto dest!: to_dec_digits simp: is_digit_def digit_value_hex_digit)

lemma digits_value_to_dec: "digits_value 10 (to_dec n) = n"
proof (induction n rule: to_dec.induct)
  case (1 n)
  then show ?case
    by (subst to_dec.simps) (simp add: digits_value_snoc digit_value_hex_digit digits_value_def)
qed

lemma hex_digit_nonzero: "0 < d \<Longrightarrow> d < 16 \<Longrightarrow> hex_digit d \<noteq> CHR ''0''"
  using digit_value_hex_digit [of d] by (auto simp: digit_value_def [of "CHR ''0''"])

lemma to_dec_first: "0 < n \<Longrightarrow> to_dec n \<noteq> [] \<and> hd (to_dec n) \<noteq> CHR ''0''"
proof (induction n rule: to_dec.induct)
  case (1 n)
  show ?case
  proof (cases "n < 10")
    case True
    then show ?thesis using 1(2) hex_digit_nonzero [of n] by (simp add: to_dec.simps [of n])
  next
    case False
    with 1(1) show ?thesis by (simp add: to_dec.simps [of n] hd_append)
  qed
qed

lemma strtoul_to_dec:
  assumes "0 < n" "n \<le> 0xFFFF"
  shows "fst (strtoul (to_dec n)) = of_nat n"
proof -
  obtain c cs where c: "to_dec n = c # cs" "c \<noteq> CHR ''0''"
    using to_dec_first [OF assms(1)] by (cases "to_dec n") auto
  have d: "is_digit 10 c" using to_dec_is_digit [of c n] c(1) by simp
  have 1: "dropWhile isspace (to_dec n) = to_dec n" using digit_not_special(1) [OF d] by (simp add: c)
  have 2: "split_sign (to_dec n) = (False, to_dec n)" using digit_not_special [OF d] by (simp add: c)
  have 3: "split_0x (to_dec n) = (False, to_dec n)" using c(2) by (cases cs) (simp_all add: c)
  have 4: "takeWhile (is_digit 10) (to_dec n) = to_dec n" by (simp add: takeWhile_eq_all_conv to_dec_is_digit)
  have 5: "to_dec n \<noteq> []" "hd (to_dec n) \<noteq> CHR ''0''" using c by simp_all
  show ?thesis
    using assms(2) 5 by (simp add: strtoul_def 1 2 3 4 Let_def unsigned_long_def digits_value_to_dec)
qed

lemma length_to_dec: "n < 10 ^ k \<Longrightarrow> 0 < k \<Longrightarrow> length (to_dec n) \<le> k"
proof (induction k arbitrary: n)
  case (Suc k)
  show ?case
  proof (cases "n < 10")
    case True
    then show ?thesis by (simp add: to_dec.simps [of n])
  next
    case False
    then have "0 < k" using Suc.prems by (cases k) simp_all
    moreover have "n div 10 < 10 ^ k" using Suc.prems by (simp add: less_mult_imp_div_less mult.commute)
    ultimately show ?thesis using Suc.IH False by (simp add: to_dec.simps [of n])
  qed
qed simp

lemma scan_set_word:
  assumes "w \<noteq> []" "length w \<le> n" "\<And>c. c \<in> set w \<Longrightarrow> P c" "rest = [] \<or> \<not> P (hd rest)"
  shows "scan_set P n (w @ rest) = Some (w, rest)"
proof -
  have "takeWhile P (take (n - length w) rest) = []"
    using assms(4) by (cases rest; cases "n - length w") auto
  then have "takeWhile P (take n (w @ rest)) = w"
    using assms(2,3) by (simp add: takeWhile_append)
  with assms(1) show ?thesis by (simp add: scan_set_def)
qed

text \<open>The three targets the sender can name.\<close>

definition start_target :: "u8 \<Rightarrow> bool" where
  "start_target t \<longleftrightarrow> t \<in> {OTA_SLOT_A, OTA_SLOT_B, OTA_TARGET_OFFCHIP}"

lemma target_name_facts:
  assumes "start_target t"
  shows "ota_target_name t \<noteq> []" "length (ota_target_name t) \<le> 15" "\<And>c. c \<in> set (ota_target_name t) \<Longrightarrow> \<not> isspace c"
    "ota_parse_target (Some (ota_target_name t)) = t" "t \<noteq> OTA_TARGET_INVALID"
proof -
  from assms consider "t = OTA_SLOT_A" | "t = OTA_SLOT_B" | "t = OTA_TARGET_OFFCHIP" by (auto simp: start_target_def)
  then show "ota_target_name t \<noteq> []" "length (ota_target_name t) \<le> 15" "\<And>c. c \<in> set (ota_target_name t) \<Longrightarrow> \<not> isspace c"
    "ota_parse_target (Some (ota_target_name t)) = t" "t \<noteq> OTA_TARGET_INVALID"
    by (cases; auto simp: ota_target_name_def ota_parse_target_def isspace_def OTA_SLOT_A_def OTA_SLOT_B_def
        OTA_TARGET_OFFCHIP_def OTA_TARGET_INVALID_def)+
qed

lemma scan_py_start_line:
  assumes "fsz < 2 ^ 32" "sec \<le> 0xFFFF" "start_target t"
  shows "scan_start_command (py_start_line fsz (to_dec sec) (ota_target_name t)) =
    Some (of_nat fsz, to_dec sec, Some (ota_target_name t))"
proof -
  let ?w = "ota_target_name t"
  have 1: "scan_x (to_hex 8 fsz @ CHR '':'' # r) = Some (of_nat fsz, CHR '':'' # r)" for r
    using assms(1) by (intro scan_x_to_hex) simp_all
  have "length (to_dec sec) \<le> 5" using assms(2) by (intro length_to_dec) simp_all
  moreover have "to_dec sec \<noteq> []" by (subst to_dec.simps) simp
  ultimately have 2: "scan_set (\<lambda>c. c \<noteq> CHR '':'') 15 (to_dec sec @ CHR '':'' # r) = Some (to_dec sec, CHR '':'' # r)" for r
    by (intro scan_set_word) (auto dest!: to_dec_is_digit dest: digit_not_special(4))
  have 3: "scan_s 15 ?w = Some (?w, [])"
    using scan_s_word [of ?w 15 "[]"] target_name_facts(1-3) [OF assms(3)] by simp
  show ?thesis
    unfolding scan_start_command_def py_start_line_def scan_literal_append by (simp add: 1 2 3)
qed

section \<open>The nodes of the session\<close>

lemma populate_loop_active:
  assumes "session_ok st"
  shows "\<exists>ns k. populate_loop rs st = st\<lparr>session_nodes := ns, session_nodes_count := k\<rparr> \<and>
    session_ok (populate_loop rs st) \<and>
    active_nodes (populate_loop rs st) = active_nodes st @ take (MAX_NODES - session_nodes_count st) rs"
  using assms
proof (induction rs arbitrary: st)
  case Nil
  have "st = st\<lparr>session_nodes := session_nodes st, session_nodes_count := session_nodes_count st\<rparr>" by simp
  with Nil show ?case by (metis append_Nil2 populate_loop.simps(1) take_Nil)
next
  case (Cons r rs)
  show ?case
  proof (cases "session_nodes_count st < MAX_NODES")
    case True
    let ?k = "session_nodes_count st"
    let ?s = "st\<lparr>session_nodes := (session_nodes st)[?k := r], session_nodes_count := ?k + 1\<rparr>"
    have len: "length (session_nodes st) = MAX_NODES" using Cons.prems by (simp add: session_ok_def)
    have ok: "session_ok ?s" using Cons.prems True by (simp add: session_ok_def)
    have "active_nodes ?s = active_nodes st @ [r]"
      using True len by (simp add: active_nodes_def take_Suc_conv_app_nth)
    moreover have "MAX_NODES - ?k = Suc (MAX_NODES - Suc ?k)" using True by simp
    ultimately show ?thesis using Cons.IH [OF ok] True by auto
  next
    case False
    then have k: "session_nodes_count st = MAX_NODES" using Cons.prems by (simp add: session_ok_def)
    have "st = st\<lparr>session_nodes := session_nodes st, session_nodes_count := session_nodes_count st\<rparr>" by simp
    with Cons.prems k show ?thesis by (metis False append_Nil2 diff_self_eq_0 populate_loop.simps(2) take0 take_eq_Nil)
  qed
qed

lemma populate_active:
  assumes "session_ok st"
  shows "\<exists>ns k. ota_populate_session_nodes_from_routes net st = st\<lparr>session_nodes := ns, session_nodes_count := k\<rparr> \<and>
    session_ok (ota_populate_session_nodes_from_routes net st) \<and>
    active_nodes (ota_populate_session_nodes_from_routes net st) = take MAX_NODES (map fst (routes net))"
proof -
  have "session_ok (st\<lparr>session_nodes_count := 0\<rparr>)" using assms by (simp add: session_ok_def)
  from populate_loop_active [OF this, of "map fst (routes net)"] show ?thesis
    by (force simp: ota_populate_session_nodes_from_routes_def active_nodes_def)
qed

text \<open>What the admission window leaves alone as long as a node remains.\<close>

definition transfer_of :: "coord_state \<Rightarrow> u32 \<times> u32 \<times> u16 \<times> u16 \<times> bool \<times> u8 \<times> dist_pc" where
  "transfer_of st =
     (session_state.current_file_size st, page_start_offset st, page_bytes_received st, expected_page_size st,
      distribution_in_progress st, session_state.ota_target_slot st, pc st)"

lemma finish_start_admission_keeps:
  assumes "session_ok st" "session_nodes_count (finish_start_admission st) \<noteq> 0"
  shows "transfer_of (finish_start_admission st) = transfer_of st \<and> session_nodes_count st \<noteq> 0"
proof -
  let ?s = "st\<lparr>start_admission_in_progress := False\<rparr>" and ?k = "\<lambda>i. node_replied st ! i \<and> session_start_accepted st ! i"
  have "session_ok ?s" using assms(1) by (simp add: session_ok_def)
  from compact_nodes_result(1) [OF this, of ?k]
  obtain ns bs where c: "compact_nodes ?k ?s =
      ?s\<lparr>session_nodes := ns, session_bitmaps := bs, session_nodes_count := length (filter ?k [0..<session_nodes_count st])\<rparr>"
    by auto
  have "length (filter ?k [0..<session_nodes_count st]) \<le> session_nodes_count st"
    using length_filter_le [of ?k "[0..<session_nodes_count st]"] by simp
  then obtain m where c: "compact_nodes ?k ?s =
      ?s\<lparr>session_nodes := ns, session_bitmaps := bs, session_nodes_count := m\<rparr>" "m \<le> session_nodes_count st"
    using c by blast
  show ?thesis
    using assms(2) c by (auto simp: finish_start_admission_def Let_def transfer_of_def ota_notify_uart_no_targets_def
        ota_reset_transfer_state_def say_def split: if_splits)
qed

text \<open>The same for all reports in the window and its expiry.\<close>

lemma coord_session_ok: "coord_ok st \<Longrightarrow> session_ok st"
  by (simp add: coord_ok_def page_ok_def)

lemma start_report_keeps:
  assumes "coord_ok st" "session_nodes_count (ota_coordinator_handle_start_report r a st) \<noteq> 0"
  shows "transfer_of (ota_coordinator_handle_start_report r a st) = transfer_of st \<and> session_nodes_count st \<noteq> 0"
proof (cases "start_admission_in_progress st \<and> find_session_node_by_addr a st \<noteq> None")
  case True
  then obtain f where f: "find_session_node_by_addr a st = Some f" by auto
  define u where "u = st\<lparr>node_replied := (node_replied st)[f := True],
      session_start_accepted := (session_start_accepted st)[f := sr_status r = OTA_START_STATUS_ACCEPTED]\<rparr>"
  have u: "session_ok (say [StopTimer StartAdmissionTimer] (u\<lparr>start_admission_timer := False\<rparr>))"
    "transfer_of (say [StopTimer StartAdmissionTimer] (u\<lparr>start_admission_timer := False\<rparr>)) = transfer_of st"
    "transfer_of u = transfer_of st" "session_nodes_count u = session_nodes_count st"
    using coord_session_ok [OF assms(1)] by (simp_all add: u_def session_ok_def transfer_of_def say_def)
  show ?thesis
    using assms(2) True f u finish_start_admission_keeps [OF u(1)]
    by (auto simp: ota_coordinator_handle_start_report_def Let_def u_def [symmetric] split: if_splits)
qed (use assms(2) in \<open>auto simp: ota_coordinator_handle_start_report_def\<close>)

lemma start_reports_keep:
  assumes "coord_ok st"
  shows "coord_ok (receive_start_reports rs st) \<and>
    (session_nodes_count (receive_start_reports rs st) \<noteq> 0 \<longrightarrow>
     transfer_of (receive_start_reports rs st) = transfer_of st \<and> session_nodes_count st \<noteq> 0)"
  using assms
proof (induction rs arbitrary: st)
  case (Cons ra rs)
  obtain r a where ra: "ra = (r, a)" by (cases ra)
  have "coord_ok (ota_coordinator_handle_start_report r a st)" using Cons.prems by (rule start_report_ok)
  from Cons.IH [OF this] start_report_keeps [OF Cons.prems, of r a] show ?case by (simp add: ra)
qed simp

lemma admission_expired_keeps:
  assumes "coord_ok st" "session_nodes_count (start_admission_expired st) \<noteq> 0"
  shows "transfer_of (start_admission_expired st) = transfer_of st"
proof -
  have s: "session_ok (st\<lparr>start_admission_timer := False\<rparr>)" "transfer_of (st\<lparr>start_admission_timer := False\<rparr>) = transfer_of st"
    using coord_session_ok [OF assms(1)] by (simp_all add: session_ok_def transfer_of_def)
  show ?thesis
    using assms(2) finish_start_admission_keeps [OF s(1)] s(2) by (auto simp: start_admission_expired_def split: if_splits)
qed

section \<open>The session begins\<close>

definition start_datagram :: "nat \<Rightarrow> nat \<Rightarrow> u8 \<Rightarrow> u8 list" where
  "start_datagram fsz sec t = PKT_TYPE_START # le32 (of_nat fsz) @ le16 (of_nat sec) @ [t]"

lemma uart_start_line:
  assumes ok: "coord_ok st" "pc st = Idle"
    and args: "fsz < 2 ^ 32" "0 < sec" "sec \<le> 0xFFFF" "start_target t"
    and net: "routes net \<noteq> []" "line_next_hop net = Some hop"
  shows "\<exists>u. ota_coordinator_handle_uart crc net (py_start_line fsz (to_dec sec) (ota_target_name t)) st =
      ota_start_admission_begin net u \<and> session_ok u \<and> active_nodes u = take MAX_NODES (map fst (routes net)) \<and>
    (\<exists>es. session_state.effects u = session_state.effects st @ es @ [SendTo hop (start_datagram fsz sec t)] \<and> sends es = []) \<and>
    transfer_of u = (of_nat fsz, 0, 0, if of_nat fsz > (of_nat PAGE_SIZE :: u32) then of_nat PAGE_SIZE else ucast (of_nat fsz :: u32), False, t, Idle)"
proof -
  let ?line = "py_start_line fsz (to_dec sec) (ota_target_name t)"
  let ?c = "ota_start_admission_cancel (st\<lparr>shell_running := False\<rparr>)"
  have "session_ok ?c"
    using coord_session_ok [OF ok(1)] by (simp add: ota_start_admission_cancel_def session_ok_def)
  from populate_active [OF this, of net] obtain ns k where
    q: "ota_populate_session_nodes_from_routes net ?c = ?c\<lparr>session_nodes := ns, session_nodes_count := k\<rparr>"
      "session_ok (ota_populate_session_nodes_from_routes net ?c)"
      "active_nodes (ota_populate_session_nodes_from_routes net ?c) = take MAX_NODES (map fst (routes net))" by blast
  let ?q = "ota_populate_session_nodes_from_routes net ?c"
  have "active_nodes ?q \<noteq> []" unfolding q(3) using net(1) by (simp add: MAX_NODES_def)
  then have k: "session_nodes_count ?q \<noteq> 0" by (auto simp: active_nodes_def)
  let ?pkt = "\<lparr>pk_type = PKT_TYPE_START, pk_offset = of_nat fsz, pk_length = of_nat sec, pk_target_slot = t, pk_data = (\<lambda>_. 0)\<rparr>"
  let ?u = "ota_reset_transfer_state (of_nat fsz) (say (send_packet net ?pkt FW_PACKET_HEADER_LEN) (?q\<lparr>session_state.ota_target_slot := t\<rparr>))"
  have send: "send_packet net ?pkt FW_PACKET_HEADER_LEN = [SendTo hop (start_datagram fsz sec t)]"
    using net(2) by (simp add: send_packet_def send_to_all_def header_bytes start_datagram_def)
  have sec: "(ucast (fst (strtoul (to_dec sec))) :: u16) = of_nat sec"
    unfolding strtoul_to_dec [OF args(2,3)] using args(3)
    by (simp add: word_unat_eq_iff unat_of_nat unsigned_ucast_eq take_bit_eq_mod)
  note scan = scan_py_start_line [OF args(1,3,4)] and t = target_name_facts(4,5) [OF args(4)]
  have "ota_coordinator_handle_uart crc net ?line st = uart_start net ?line st"
    by (simp add: ota_coordinator_handle_uart_def py_start_line_def)
  also have "\<dots> = ota_start_admission_begin net ?u"
    using k t by (simp add: uart_start_def scan Let_def sec)
  finally have step: "ota_coordinator_handle_uart crc net ?line st = ota_start_admission_begin net ?u" .
  have pcq: "pc ?q = Idle" unfolding q(1) using ok(2) by (simp add: ota_start_admission_cancel_def)
  have "session_ok ?u" "active_nodes ?u = active_nodes ?q"
    using q(2) by (simp_all add: ota_reset_transfer_state_def session_ok_def active_nodes_def)
  moreover have "\<exists>es. session_state.effects ?u = session_state.effects st @ es @ [SendTo hop (start_datagram fsz sec t)] \<and> sends es = []"
  proof -
    have "session_state.effects ?c = session_state.effects st \<or>
        session_state.effects ?c = session_state.effects st @ [StopTimer StartAdmissionTimer]"
      by (simp add: ota_start_admission_cancel_def)
    moreover have "session_state.effects ?q = session_state.effects ?c" unfolding q(1) by simp
    then have "session_state.effects ?u = session_state.effects ?c @ [SendTo hop (start_datagram fsz sec t)]"
      unfolding send by (simp only: ota_reset_transfer_state_def) (simp add: say_def)
    ultimately show ?thesis
      by (auto intro: exI [of _ "[]"] exI [of _ "[StopTimer StartAdmissionTimer]"])
  qed
  moreover have "transfer_of ?u = (of_nat fsz, 0, 0, if of_nat fsz > (of_nat PAGE_SIZE :: u32) then of_nat PAGE_SIZE else ucast (of_nat fsz :: u32), False, t, Idle)"
    using pcq by (simp add: ota_reset_transfer_state_def transfer_of_def say_def)
  ultimately show ?thesis using step q(3) by (intro exI [of _ ?u]) simp
qed

lemma session_admitted_of:
  assumes ok: "coord_ok st" "session_nodes_count st \<noteq> 0" "\<not> start_admission_in_progress st"
    and fsz: "0 < im_size im" "im_size im < 2 ^ 32"
    and tr: "transfer_of st = (of_nat (im_size im), 0, 0,
      if of_nat (im_size im) > (of_nat PAGE_SIZE :: u32) then of_nat PAGE_SIZE else ucast (of_nat (im_size im) :: u32), False, t, Idle)"
  shows "session_admitted im t (st\<lparr>session_state.effects := []\<rparr>)"
proof -
  have n: "unat (of_nat (im_size im) :: u32) = im_size im" using fsz(2) by (rule unat_of_nat_u32)
  have "unat (if of_nat (im_size im) > (of_nat PAGE_SIZE :: u32) then of_nat PAGE_SIZE else ucast (of_nat (im_size im) :: u32) :: u16) =
      min 4096 (im_size im)"
    using n by (auto simp: PAGE_SIZE_def word_less_nat_alt min_def unsigned_ucast_eq take_bit_nat_eq_self)
  then have "unat (expected_page_size st) = min 4096 (im_size im)" using tr by (simp add: transfer_of_def)
  moreover have "coord_ok (st\<lparr>session_state.effects := []\<rparr>)"
    using ok(1) by (simp add: coord_ok_def coord_inv_defs)
  ultimately show ?thesis
    using ok(2,3) tr n by (simp add: session_admitted_def takes_data_def transfer_of_def)
qed

lemma start_admits_base:
  assumes ok: "coord_ok st" "pc st = Idle"
    and args: "0 < im_size im" "im_size im < 2 ^ 32" "0 < sec" "sec \<le> 0xFFFF" "start_target t"
    and net: "routes net \<noteq> []" "line_next_hop net = Some hop"
    and d: "distinct (map iid (take MAX_NODES (map fst (routes net))))"
    and st1: "st1 = ota_coordinator_handle_uart crc net (py_start_line (im_size im) (to_dec sec) (ota_target_name t)) st"
    and st2: "st2 = start_admission_expired (receive_start_reports rs st1)"
  shows "(\<exists>es. session_state.effects st1 = session_state.effects st @ es \<and> sends es = [(hop, start_datagram (im_size im) sec t)]) \<and>
    active_nodes st2 = filter (admits rs) (take MAX_NODES (map fst (routes net))) \<and>
    (if active_nodes st2 = [] then last (session_state.effects st2) = Uart ''FW:NO_TARGETS''
     else last (session_state.effects st2) = Uart ''FW:ACK'' \<and> session_admitted im t (st2\<lparr>session_state.effects := []\<rparr>))"
proof -
  obtain u where u: "st1 = ota_start_admission_begin net u" "session_ok u" "active_nodes u = take MAX_NODES (map fst (routes net))"
    "\<exists>es. session_state.effects u = session_state.effects st @ es @ [SendTo hop (start_datagram (im_size im) sec t)] \<and> sends es = []"
    "transfer_of u = (of_nat (im_size im), 0, 0,
      if of_nat (im_size im) > (of_nat PAGE_SIZE :: u32) then of_nat PAGE_SIZE else ucast (of_nat (im_size im) :: u32), False, t, Idle)"
    using uart_start_line [OF ok args(2-5) net, of crc] unfolding st1 by blast
  have sent: "(\<exists>es. session_state.effects st1 = session_state.effects st @ es \<and> sends es = [(hop, start_datagram (im_size im) sec t)])"
    unfolding u(1) using u(4) by (force simp: ota_start_admission_begin_def)
  have d': "distinct (map iid (active_nodes u))" using d by (simp add: u(3))
  have closed: "admission_closed u rs st2"
    using admission_expires [OF admission_run [OF admission_begins [OF u(2), of net] d', of rs]] by (simp add: st2 u(1))
  have ok1: "coord_ok st1" unfolding st1 using ok by (intro uart_ok) (simp_all add: start_while_distributing_def)
  note r = start_reports_keep [OF ok1, of rs]
  have ok2: "coord_ok st2" unfolding st2 using r by (intro start_admission_expired_ok) blast
  have tr1: "transfer_of st1 = transfer_of u" unfolding u(1) by (simp add: ota_start_admission_begin_def transfer_of_def)
  have "session_admitted im t (st2\<lparr>session_state.effects := []\<rparr>)" if "active_nodes st2 \<noteq> []"
  proof -
    have n: "session_nodes_count st2 \<noteq> 0" using that by (auto simp: active_nodes_def)
    have ok_r: "coord_ok (receive_start_reports rs st1)" using r by blast
    have "session_ok ((receive_start_reports rs st1)\<lparr>start_admission_timer := False\<rparr>)"
      using coord_session_ok [OF ok_r] by (simp add: session_ok_def)
    from finish_start_admission_keeps [OF this] n have "session_nodes_count (receive_start_reports rs st1) \<noteq> 0"
      unfolding st2 start_admission_expired_def by (auto split: if_splits)
    with r admission_expired_keeps [OF ok_r n [unfolded st2]] have "transfer_of st2 = transfer_of u" by (simp add: st2 tr1)
    then show ?thesis
      using closed u(5) by (intro session_admitted_of ok2 n args) (simp_all add: admission_closed_def)
  qed
  then show ?thesis using closed sent u(3) by (auto simp: admission_closed_def)
qed

text \<open>C7. From the START line to the session. When no page is on its way, the line the host writes for an
  image, a security version and a target makes the coordinator send one START datagram with exactly
  these values along the line, and open the window for the nodes of its routing table, at most 16.
  Whatever START reports then arrive, when the window is over the session consists of the routed
  nodes whose first report accepted, in their order. The routing table is not empty, its first route has
  a next hop, and its nodes have different interface identifiers. The host hears \<open>FW:NO_TARGETS\<close> if there are
  none; otherwise it hears \<open>FW:ACK\<close>, and the coordinator is in the state from which a rollout of the
  image begins, at its first page.\<close>

theorem start_line_admits:
  assumes ok: "coord_ok st" "pc st = Idle"
    and args: "0 < im_size im" "im_size im < 2 ^ 32" "0 < sec" "sec \<le> 0xFFFF" "start_target t"
    and net: "routes net \<noteq> []" "line_next_hop net = Some hop"
    and d: "distinct (map iid (take MAX_NODES (map fst (routes net))))"
    and st1: "st1 = ota_coordinator_handle_uart crc net (py_start_line (im_size im) (to_dec sec) (ota_target_name t)) st"
    and st2: "st2 = start_admission_expired (receive_start_reports rs st1)"
  shows "(\<exists>es. session_state.effects st1 = session_state.effects st @ es \<and> sends es = [(hop, start_datagram (im_size im) sec t)]) \<and>
    active_nodes st2 = filter (admits rs) (take MAX_NODES (map fst (routes net))) \<and>
    (if active_nodes st2 = [] then last (session_state.effects st2) = Uart ''FW:NO_TARGETS''
     else last (session_state.effects st2) = Uart ''FW:ACK'' \<and> session_admitted im t (st2\<lparr>session_state.effects := []\<rparr>))"
  using assms by (rule start_admits_base)

text \<open>A node that receives the datagram reads a START for this image.\<close>

lemma start_datagram_is_start:
  assumes "holds_bytes data (start_datagram (im_size im) sec t)" "unat datalen = length (start_datagram (im_size im) sec t)"
    and "im_size im < 2 ^ 32"
  shows "is_start im t (of_nat sec) (net, sender, data, datalen)"
proof -
  have "pk_type (fw_packet_at data) = PKT_TYPE_START" "pk_offset (fw_packet_at data) = of_nat (im_size im)"
    "pk_length (fw_packet_at data) = of_nat sec" "pk_target_slot (fw_packet_at data) = t"
    using assms(1) unfolding start_datagram_def
    by (auto simp: holds_simps fw_packet_at_def numeral_eq_Suc dest!: holds_le32 holds_le16)
  then show ?thesis
    using assms(2) unat_of_nat_u32 [OF assms(3)]
    by (simp add: is_start_def dgram_packet_def dgram_complete_def start_datagram_def FW_PACKET_HEADER_LEN_def)
qed

theorem start_line_admits_witness:
  "\<exists>st2. active_nodes st2 = [sample_ip 2] \<and> session_admitted \<lparr>im_byte = (\<lambda>_. 7), im_size = 5\<rparr> OTA_SLOT_B st2"
proof -
  let ?im = "\<lparr>im_byte = (\<lambda>_. 7), im_size = 5\<rparr>"
  let ?rs = "[(sample_report 1, sample_ip 3), (sample_report 0, sample_ip 2)]"
  let ?st2 = "start_admission_expired (receive_start_reports ?rs (ota_coordinator_handle_uart py_crc16_data sample_routes
      (py_start_line (im_size ?im) (to_dec 2) (ota_target_name OTA_SLOT_B)) coord_initial))"
  have nodes: "take MAX_NODES (map fst (routes sample_routes)) = [sample_ip 2, sample_ip 3]"
    by (simp add: sample_routes_def MAX_NODES_def)
  have pre: "pc coord_initial = Idle" "0 < im_size ?im" "im_size ?im < 2 ^ 32" "0 < (2 :: nat)" "(2 :: nat) \<le> 0xFFFF"
    "start_target OTA_SLOT_B" "routes sample_routes \<noteq> []" "line_next_hop sample_routes = Some (sample_ip 2)"
    "distinct (map iid (take MAX_NODES (map fst (routes sample_routes))))"
    unfolding nodes by (simp_all add: coord_initial_def start_target_def sample_routes_def line_next_hop_def iid_def sample_ip_def)
  have filt: "filter (admits ?rs) [sample_ip 2, sample_ip 3] = [sample_ip 2]"
    by (simp add: admits_def first_report_def sample_report_def iid_def sample_ip_def start_status_defs)
  define st2 where "st2 = ?st2"
  note w = start_line_admits [OF coord_initial_ok pre refl st2_def, unfolded nodes filt]
  from w have a: "active_nodes st2 = [sample_ip 2]" by blast
  with w have "session_admitted ?im OTA_SLOT_B (st2\<lparr>session_state.effects := []\<rparr>)" by simp
  with a show ?thesis
    by (intro exI [of _ "st2\<lparr>session_state.effects := []\<rparr>"]) (simp add: active_nodes_def)
qed

end
