(* ===== verification/End_To_End.thy ===== *)
theory End_To_End
  imports Rollouts Session_Start
begin

text \<open>
  One complete update of a dual-onchip node, from the START line to the staged image, as an explicit
  run: every step is a function of the model applied to what the step before has put on the serial
  line or on the air. The logs of effects are begun anew after the handshake.
\<close>

section \<open>The handshake\<close>

definition start_handshake ::
    "'s sensor_env \<Rightarrow> image \<Rightarrow> nat \<Rightarrow> u8 \<Rightarrow> net_env \<Rightarrow> net_env \<Rightarrow> ipaddr \<Rightarrow> ipaddr \<Rightarrow>
      coord_state \<times> 's sensor_state \<Rightarrow> coord_state \<times> 's sensor_state" where
  "start_handshake E im sec t cnet nnet sender ip cs =
     (let c = ota_coordinator_handle_uart (crc16_data E) cnet (py_start_line (im_size im) (to_dec sec) (ota_target_name t)) (fst cs);
          datagram = snd (last (sends (session_state.effects c)));
          s = sensor_udp_rx E nnet sender ((!) datagram) (of_nat (length datagram)) (snd cs);
          answer = snd (last (sends (sensor_state.effects s)));
          c = handle_coordinator_report ((!) answer) (of_nat (length answer)) ip c
      in (c\<lparr>session_state.effects := []\<rparr>, s\<lparr>sensor_state.effects := []\<rparr>))"

text \<open>A node that can start the session answers with an accepting report.\<close>

lemma start_answer:
  assumes d: "is_start im t sec (nnet, sender, data, datalen)" and net: "lossless_setting cnet nnet"
    and ok: "be_start (se_backend E) t (pk_offset (fw_packet_at data)) sec OTA_START_STATUS_REJECTED_TARGET (backend s) = ((True, q), b)"
  shows "\<exists>r. sr_type r = PKT_TYPE_START_REPORT \<and> sr_status r = OTA_START_STATUS_ACCEPTED \<and>
    snd (last (sends (sensor_state.effects (sensor_udp_rx E nnet sender data datalen s)))) = start_report_bytes r"
proof -
  let ?p = "fw_packet_at data" and ?raw = "buf_bytes data 0 (unat datalen)" and ?fwd = "packet_should_forward nnet sender"
  have p: "pk_type ?p = PKT_TYPE_START" "pk_length ?p = sec" "pk_target_slot ?p = t" "FW_PACKET_HEADER_LEN \<le> unat datalen"
    using d by (simp_all add: is_start_def dgram_packet_def dgram_complete_def)
  then have "data 0 = PKT_TYPE_START" by (simp add: fw_packet_at_def)
  then have step: "sensor_udp_rx E nnet sender data datalen s = handle_start E nnet ?p ?raw ?fwd s"
    using p(1,4) by (simp add: sensor_udp_rx_def Let_def pkt_type_defs)
  have b: "backend (forward nnet ?fwd ?raw s) = backend s" by (simp add: forward_def emit_def)
  let ?r = "\<lparr>sr_type = PKT_TYPE_START_REPORT, sr_status = OTA_START_STATUS_ACCEPTED, sr_image_sec_ver = sec,
        sr_running_sec_ver = be_running_sec_ver (se_backend E), sr_target_slot = t\<rparr>"
  have "\<exists>hop. send_to_coordinator nnet (start_report_bytes ?r) = [SendTo hop (start_report_bytes ?r)]"
    using net by (auto simp: lossless_setting_def send_to_coordinator_def Let_def split: option.splits)
  then obtain hop where "send_to_coordinator nnet (start_report_bytes ?r) = [SendTo hop (start_report_bytes ?r)]" ..
  then have "snd (last (sends (sensor_state.effects (sensor_udp_rx E nnet sender data datalen s)))) = start_report_bytes ?r"
    using ok p(2,3) by (simp add: step handle_start_def Let_def b reset_rx_state_def send_start_report_def emit_def)
  then show ?thesis by (intro exI [of _ ?r]) simp
qed

text \<open>The answer of the only node ends the window before its timer.\<close>

lemma single_answer:
  fixes u :: coord_state
  assumes u: "session_ok u" "active_nodes u = [ip]" and r: "sr_type r = PKT_TYPE_START_REPORT"
    and c1_def: "c1 = ota_start_admission_begin cnet u"
  shows "handle_coordinator_report ((!) (start_report_bytes r)) (of_nat (length (start_report_bytes r))) ip c1 =
    start_admission_expired (receive_start_reports [(r, ip)] c1)"
proof -
  have n: "session_nodes_count u = 1" using length_active_nodes [OF u(1)] u(2) by simp
  have ip: "session_nodes u ! 0 = ip" using u by (simp add: active_nodes_map n)
  have read: "start_report_at ((!) (start_report_bytes r)) = r" by (rule start_report_read [OF holds_bytes_self])
  have len: "length (start_report_bytes r) = 7" "start_report_bytes r ! 0 = PKT_TYPE_START_REPORT"
    by (simp_all add: start_report_bytes_def r)
  have "handle_coordinator_report ((!) (start_report_bytes r)) (of_nat (length (start_report_bytes r))) ip c1 =
      ota_coordinator_handle_start_report r ip c1"
    by (simp add: handle_coordinator_report_def len sizeof_start_report_def read)
  moreover have "\<not> start_admission_timer (ota_coordinator_handle_start_report r ip c1)"
  proof -
    have f: "find_session_node_by_addr ip c1 = Some 0"
      by (simp add: find_session_node_Some c1_def ota_start_admission_begin_def n ip)
    define s where "s = c1\<lparr>node_replied := (node_replied c1)[0 := True],
        session_start_accepted := (session_start_accepted c1)[0 := sr_status r = OTA_START_STATUS_ACCEPTED]\<rparr>"
    have "all_replied s" by (simp add: s_def all_replied_def c1_def ota_start_admission_begin_def n MAX_NODES_def)
    then have "ota_coordinator_handle_start_report r ip c1 =
        finish_start_admission (say [StopTimer StartAdmissionTimer] (s\<lparr>start_admission_timer := False\<rparr>))"
      using f by (simp add: ota_coordinator_handle_start_report_def s_def c1_def ota_start_admission_begin_def MAX_NODES_def)
    moreover have "\<not> start_admission_timer (finish_start_admission w)" if "session_ok w" "\<not> start_admission_timer w" for w :: coord_state
    proof -
      have "session_ok (w\<lparr>start_admission_in_progress := False\<rparr>)" using that(1) by (simp add: session_ok_def)
      from compact_nodes_result(1) [OF this, of "\<lambda>i. node_replied w ! i \<and> session_start_accepted w ! i"] that(2)
      show ?thesis
        by (auto simp: finish_start_admission_def Let_def ota_notify_uart_no_targets_def ota_reset_transfer_state_def)
    qed
    moreover have "session_ok (say [StopTimer StartAdmissionTimer] (s\<lparr>start_admission_timer := False\<rparr>))"
      using u(1) by (simp add: s_def c1_def ota_start_admission_begin_def session_ok_def)
    ultimately show ?thesis by simp
  qed
  ultimately show ?thesis by (simp add: start_admission_expired_def)
qed

lemma handshake_admits:
  assumes ok: "coord_ok c0" "pc c0 = Idle"
    and args: "0 < im_size im" "im_size im < 2 ^ 32" "0 < sec" "sec \<le> 0xFFFF" "start_target t"
    and net: "routes cnet = [(ip, Some hop)]" "lossless_setting cnet nnet"
    and starts: "\<And>fsz. unat fsz = im_size im \<Longrightarrow>
      \<exists>q b. be_start (se_backend E) t fsz (of_nat sec) OTA_START_STATUS_REJECTED_TARGET (backend s0) = ((True, q), b)"
    and h: "start_handshake E im sec t cnet nnet sender ip (c0, s0) = (c1, s1)"
  shows "session_admitted im t c1" "only_node ip c1"
    "\<exists>d. is_start im t (of_nat sec) d \<and> s1 = (sensor_step E d s0)\<lparr>sensor_state.effects := []\<rparr>"
proof -
  have hop: "routes cnet \<noteq> []" "line_next_hop cnet = Some hop" by (simp_all add: net(1) line_next_hop_def)
  let ?bs = "start_datagram (im_size im) sec t"
  define c where "c = ota_coordinator_handle_uart (crc16_data E) cnet (py_start_line (im_size im) (to_dec sec) (ota_target_name t)) c0"
  obtain u es where u: "c = ota_start_admission_begin cnet u" "session_ok u" "active_nodes u = [ip]"
    "session_state.effects u = session_state.effects c0 @ es @ [SendTo hop ?bs]"
    using uart_start_line [OF ok args(2-5) hop, of "crc16_data E"] unfolding c_def by (auto simp: net(1) MAX_NODES_def)
  have sent: "snd (last (sends (session_state.effects c))) = ?bs"
    by (simp add: u(1,4) ota_start_admission_begin_def)
  have len: "length ?bs = 8" by (simp add: start_datagram_def)
  define d where "d = (nnet, sender, (!) ?bs, of_nat 8 :: u16)"
  have d: "is_start im t (of_nat sec) d"
    unfolding d_def by (intro start_datagram_is_start holds_bytes_self args(2)) (simp add: len)
  let ?s = "sensor_udp_rx E nnet sender ((!) ?bs) (of_nat 8) s0"
  have "unat (pk_offset (fw_packet_at ((!) ?bs))) = im_size im" using d by (simp add: d_def is_start_def dgram_packet_def)
  from starts [OF this] obtain q b where
    "be_start (se_backend E) t (pk_offset (fw_packet_at ((!) ?bs))) (of_nat sec) OTA_START_STATUS_REJECTED_TARGET (backend s0) = ((True, q), b)"
    by blast
  from start_answer [OF d [unfolded d_def] net(2) this] obtain r where
    r: "sr_type r = PKT_TYPE_START_REPORT" "sr_status r = OTA_START_STATUS_ACCEPTED"
      "snd (last (sends (sensor_state.effects ?s))) = start_report_bytes r" by blast
  let ?c2 = "start_admission_expired (receive_start_reports [(r, ip)] c)"
  have c1: "c1 = ?c2\<lparr>session_state.effects := []\<rparr>" and s1: "s1 = ?s\<lparr>sensor_state.effects := []\<rparr>"
    using h single_answer [OF u(2,3) r(1) u(1)] r(3)
    by (simp_all only: start_handshake_def Let_def fst_conv snd_conv c_def [symmetric] sent len prod.inject)
  define w where "w = ?c2"
  have "distinct (map iid (take MAX_NODES (map fst (routes cnet))))" by (simp add: net(1) MAX_NODES_def)
  note w = start_admits_base [OF ok args hop this c_def w_def]
  have admit: "admits [(r, ip)] ip" by (simp add: admits_def first_report_def r(2))
  have nodes: "active_nodes w = [ip]" using w admit by (simp add: net(1) MAX_NODES_def)
  have c1w: "c1 = w\<lparr>session_state.effects := []\<rparr>" unfolding w_def by (rule c1)
  from w nodes have adm: "session_admitted im t c1" by (simp add: c1w)
  show "session_admitted im t c1" by (rule adm)
  have "session_ok w" using adm by (auto simp: c1w session_admitted_def takes_data_def coord_ok_def coord_inv_defs)
  moreover from this have n: "session_nodes_count w = 1" using length_active_nodes [of w] nodes by simp
  ultimately show "only_node ip c1"
    using length_active_nodes [of w] active_nodes_map [of w, unfolded n] nodes n
    by (simp add: only_node_def c1w)
  show "\<exists>d. is_start im t (of_nat sec) d \<and> s1 = (sensor_step E d s0)\<lparr>sensor_state.effects := []\<rparr>"
    using d by (intro exI [of _ d]) (simp add: s1 d_def sensor_step_def)
qed


section \<open>The whole update\<close>

definition verify_exchange ::
    "'s sensor_env \<Rightarrow> image \<Rightarrow> net_env \<Rightarrow> net_env \<Rightarrow> ipaddr \<Rightarrow> coord_state \<times> 's sensor_state \<Rightarrow> coord_state \<times> 's sensor_state" where
  "verify_exchange E im cnet nnet sender cs =
     (let c = ota_coordinator_handle_uart (crc16_data E) cnet
            (py_verify_line (unat (crc16_data E (im_bytes im 0 (im_size im)) 0))) (fst cs);
          datagram = snd (last (sends (session_state.effects c)))
      in (c, sensor_udp_rx E nnet sender ((!) datagram) (of_nat (length datagram)) (snd cs)))"

lemma dual_update_base:
  assumes drv: "driver_never_fails (de_driver env)" and E: "se_backend E = dual_backend env"
    and crc: "crc16_linear (crc16_data E)" and adm: "dual_admits env im t (of_nat sec)" "0 < sec" "sec \<le> 0xFFFF"
    and c0: "coord_ok c0" "pc c0 = Idle" and s0: "br_bitmap (report_to_send s0) = replicate 8 0"
    and net: "routes cnet = [(ip, Some hop)]" "lossless_setting cnet nnet"
    and 1: "start_handshake E im sec t cnet nnet sender ip (c0, s0) = (c1, s1)"
    and 2: "(lossless_page E im cnet nnet sender ip ^^ ((im_size im + 4095) div 4096)) (c1, s1) = (c2, s2)"
    and 3: "verify_exchange E im cnet nnet sender (c2, s2) = (c3, s3)"
    and val: "validate_downloaded_image env (of_nat (im_size im)) t (backend s2) = Some (ver, fsize, fcrc)"
  shows "image_staged im t ver fsize fcrc s3 \<and> last (session_state.effects c3) = Uart ''FW:ACK''"
proof -
  have t: "unat t \<le> 1" "im_size im \<le> unat (ota_flash_slot_size t)" "0 < im_size im"
    and small: "im_size im + 4096 \<le> 2 ^ 32"
    using adm(1) slot_image_size [of im t] by (simp_all add: dual_admits_def)
  have target: "start_target t"
    using t(1) by (auto simp: start_target_def OTA_SLOT_A_def OTA_SLOT_B_def word_unat_eq_iff)
  have starts: "\<exists>q b. be_start (se_backend E) t fsz (of_nat sec) OTA_START_STATUS_REJECTED_TARGET (backend s0) = ((True, q), b)"
    if size: "unat fsz = im_size im" for fsz
  proof -
    obtain q b where "dual_start env t fsz (of_nat sec) OTA_START_STATUS_REJECTED_TARGET (backend s0) = ((True, q), b)"
      by (rule dual_start_ok [OF drv, of t fsz "of_nat sec"]) (use adm(1) size in \<open>simp_all add: dual_admits_def\<close>)
    then show ?thesis by (simp add: E dual_backend_def)
  qed
  have lt: "im_size im < 2 ^ 32" using small by simp
  have h: "session_admitted im t c1" "only_node ip c1"
    "\<exists>d. is_start im t (of_nat sec) d \<and> s1 = (sensor_step E d s0)\<lparr>sensor_state.effects := []\<rparr>"
    by (rule handshake_admits [OF c0 t(3) lt adm(2,3) target net _ 1], erule starts)+
  from h(3) obtain d where d: "is_start im t (of_nat sec) d" "s1 = (sensor_step E d s0)\<lparr>sensor_state.effects := []\<rparr>" by blast
  note r = dual_lossless_result [OF drv E crc adm(1) h(1,2) d(1) s0 net(2) 2 [unfolded d(2)]]
  have hop: "line_next_hop cnet = Some hop" by (simp add: net(1) line_next_hop_def)
  have c3: "c3 = ota_coordinator_handle_uart (crc16_data E) cnet (py_verify_line (unat (crc16_data E (im_bytes im 0 (im_size im)) 0))) c2"
    using 3 by (simp add: verify_exchange_def Let_def)
  have fin: "pc c2 = Idle" "unat (page_start_offset c2) = im_size im" using r by blast+
  from lossy_flow.rollout_finished(3) [OF dual_lossy_general [OF drv E crc] r [THEN conjunct1] small fin]
  have "sensor_state.current_file_size s2 = of_nat (im_size im)" by (metis of_nat_unat ucast_id)
  with val have val2: "validate_downloaded_image env (sensor_state.current_file_size s2) t (backend s2) = Some (ver, fsize, fcrc)"
    by simp
  from dual_staged_base [OF drv E crc r [THEN conjunct1] small fin t(1,2) hop c3 val2] obtain bs where
    bs: "session_state.effects c3 = session_state.effects c2 @ [SendTo hop bs, Uart ''FW:ACK'']" "length bs = FW_PACKET_HEADER_LEN"
    and rx: "\<forall>net' sender data datalen s'. holds_bytes data bs \<longrightarrow> unat datalen = length bs \<longrightarrow>
       s' = sensor_udp_rx E net' sender data datalen s2 \<longrightarrow> image_staged im t ver fsize fcrc s'"
    by (elim exE conjE)
  have "s3 = sensor_udp_rx E nnet sender ((!) bs) (of_nat (length bs)) s2"
    using 3 bs(1) by (auto simp: verify_exchange_def Let_def)
  moreover have "unat (of_nat (length bs) :: u16) = length bs" by (simp add: bs(2) FW_PACKET_HEADER_LEN_def)
  ultimately have "image_staged im t ver fsize fcrc s3" using rx holds_bytes_self by blast
  then show ?thesis using bs(1) by simp
qed

text \<open>C2. One update of one dual-onchip node, from the host's START line to the staged image. The coordinator is
  at rest and the node is its only route; no datagram is lost, the queue always has room and the node knows the root; the
  node's flash does not fail, though it may hold anything, the system's checksum routine is linear
  as a CRC is, and the node has reported nothing since
  it booted (it is not retried after an earlier session); the image and its version are admissible
  for the slot. The START line, the datagram it makes the coordinator send and the node's report
  open the session; one schedule per page distributes the image; the VERIFY line carries the checksum
  of the file. If the backend's \<open>validate_downloaded_image\<close> accepts the bytes that are then in the
  slot, the node has ended its session with the image in the slot and the slot as the pending
  candidate in the boot metadata, and the last line the host hears is \<open>FW:ACK\<close>.\<close>

theorem dual_update_end_to_end:
  assumes drv: "driver_never_fails (de_driver env)" and E: "se_backend E = dual_backend env"
    and crc: "crc16_linear (crc16_data E)" and adm: "dual_admits env im t (of_nat sec)" "0 < sec" "sec \<le> 0xFFFF"
    and c0: "coord_ok c0" "pc c0 = Idle" and s0: "br_bitmap (report_to_send s0) = replicate 8 0"
    and net: "routes cnet = [(ip, Some hop)]" "lossless_setting cnet nnet"
    and 1: "start_handshake E im sec t cnet nnet sender ip (c0, s0) = (c1, s1)"
    and 2: "(lossless_page E im cnet nnet sender ip ^^ ((im_size im + 4095) div 4096)) (c1, s1) = (c2, s2)"
    and 3: "verify_exchange E im cnet nnet sender (c2, s2) = (c3, s3)"
    and val: "validate_downloaded_image env (of_nat (im_size im)) t (backend s2) = Some (ver, fsize, fcrc)"
  shows "image_staged im t ver fsize fcrc s3 \<and> last (session_state.effects c3) = Uart ''FW:ACK''"
  by (rule dual_update_base [OF assms])

section \<open>A small update\<close>

definition sample_line :: net_env where
  "sample_line = sample_routes\<lparr>routes := [(sample_ip 2, Some (sample_ip 2))]\<rparr>"

lemma sample_line_facts:
  "routes sample_line = [(sample_ip 2, Some (sample_ip 2))]" "lossless_setting sample_line sample_leaf"
  using sample_setting
  by (auto simp: sample_line_def lossless_setting_def ready_hop_def ota_downstream_queue_ready_def line_next_hop_def
      sample_routes_def OTA_QUEUE_MAX_GLOBAL_PENDING_def)

theorem dual_update_end_to_end_witness:
  "\<exists>c3 s3. verify_exchange sample_sensor_env sample_image sample_line sample_leaf (sample_ip 1)
      (lossless_page sample_sensor_env sample_image sample_line sample_leaf (sample_ip 1) (sample_ip 2)
        (start_handshake sample_sensor_env sample_image 2 1 sample_line sample_leaf (sample_ip 1) (sample_ip 2)
          (coord_initial, sensor_initial sample_state))) = (c3, s3) \<and>
    image_staged sample_image 1 0x01000000 5 77 s3 \<and> last (session_state.effects c3) = Uart ''FW:ACK''"
proof -
  let ?E = sample_sensor_env and ?l = sample_line
  obtain c1 s1 where 1: "start_handshake ?E sample_image 2 1 ?l sample_leaf (sample_ip 1) (sample_ip 2)
      (coord_initial, sensor_initial sample_state) = (c1, s1)" by fastforce
  obtain c2 s2 where p: "lossless_page ?E sample_image ?l sample_leaf (sample_ip 1) (sample_ip 2) (c1, s1) = (c2, s2)"
    by fastforce
  obtain c3 s3 where 3: "verify_exchange ?E sample_image ?l sample_leaf (sample_ip 1) (c2, s2) = (c3, s3)" by fastforce
  have 2: "(lossless_page ?E sample_image ?l sample_leaf (sample_ip 1) (sample_ip 2) ^^
      ((im_size sample_image + 4095) div 4096)) (c1, s1) = (c2, s2)" by (simp add: sample_image_size p)
  have adm: "dual_admits sample_env sample_image 1 (of_nat 2)" "0 < (2 :: nat)" "(2 :: nat) \<le> 0xFFFF"
    using sample_rollout_env(4) by simp_all
  have idle: "pc coord_initial = Idle" by (simp add: coord_initial_def)
  have val: "validate_downloaded_image sample_env (of_nat (im_size sample_image)) 1 (backend s2) = Some (0x01000000, 5, 77)"
    using sample_validates [of 5 "backend s2"] by (simp add: sample_image_size slot_defs)
  from dual_update_end_to_end [OF sample_rollout_env(1-3) adm coord_initial_ok idle sample_rollout_env(6)
      sample_line_facts 1 2 3 val]
  show ?thesis by (simp only: 1 p 3) blast
qed

end
