(* ===== verification/Recovery_Rounds.thy ===== *)
theory Recovery_Rounds
  imports Recovery
begin

text \<open>
  Several recovery rounds in a row: with answers from every node a page ends after at most ten of them.
\<close>

text \<open>The coordinator at the start of a round, in a network whose next hop is ready.\<close>

definition round_ready :: "ipaddr list \<Rightarrow> u32 \<Rightarrow> coord_state \<Rightarrow> bool" where
  "round_ready nodes p st \<longleftrightarrow>
     coord_ok st \<and> pc st = WaitReports \<and> node_replied st = replicate MAX_NODES False \<and> 0 < session_nodes_count st \<and>
     active_nodes st = nodes \<and> distinct (map iid nodes) \<and> page_start_offset st = p \<and> room_above st"

text \<open>One round: the reports arrive, the process goes on, and its timer expires after each chunk it
  sends again.\<close>

definition answered_round :: "net_env \<Rightarrow> (bitmap_report \<times> ipaddr) list \<Rightarrow> coord_state \<Rightarrow> coord_state" where
  "answered_round net rs st =
     timer_run (replicate (length (chunks_missed st rs)) net)
       (distribute_resume net BitmapEvent (receive_bitmap_reports rs st))"

fun answered_rounds :: "net_env \<Rightarrow> (bitmap_report \<times> ipaddr) list list \<Rightarrow> coord_state \<Rightarrow> coord_state" where
  "answered_rounds net [] st = st"
| "answered_rounds net (rs # rss) st =
     (if pc st = WaitReports then answered_rounds net rss (answered_round net rs st) else st)"

lemma timer_run_ok: "coord_ok st \<Longrightarrow> coord_ok (timer_run nets st)"
  by (induction nets arbitrary: st) (simp_all add: distribute_resume_ok)

lemma answered_round_step:
  assumes r: "round_ready nodes p st" and net: "ready_hop hop net"
    and rs: "all_reported st rs" "list_all (\<lambda>(r, a). length (br_bitmap r) = 8) rs"
  shows "pc (answered_round net rs st) = Idle \<or>
    recovery_round st < OTA_MAX_PAGE_RECOVERY_ROUNDS \<and> round_ready nodes p (answered_round net rs st) \<and>
    recovery_round (answered_round net rs st) = Suc (recovery_round st)"
proof -
  have ok: "coord_ok st" and w: "pc st = WaitReports" "node_replied st = replicate MAX_NODES False"
    and n: "0 < session_nodes_count st" and d: "distinct (map iid (active_nodes st))" and room: "room_above st"
    using r by (simp_all add: round_ready_def)
  define s where "s = receive_bitmap_reports rs st"
  obtain nr bs es1 where s: "s = st\<lparr>node_replied := nr, session_bitmaps := bs, effects := effects st @ es1\<rparr>"
    and go: "distribute_resume net BitmapEvent s = after_wait net s"
    and oks: "coord_ok s" and m: "missing_chunks 0 s = chunks_missed st rs"
    using reported_round [OF ok w n d rs, folded s_def] by blast
  have p: "page_ok s" "running_ok s" "pc s \<noteq> Undefined" "0 < session_nodes_count s" "room_above s"
    using oks w(1) n room by (simp_all add: coord_ok_def s room_above_def)
  have st': "answered_round net rs st = timer_run (replicate (length (missing_chunks 0 s)) net) (after_wait net s)"
    by (simp add: answered_round_def s_def [symmetric] go m)
  show ?thesis
  proof (cases "missing_chunks 0 s = []")
    case True
    then have "ota_page_is_complete (total_chunks s) s" by (simp add: missing_none_iff)
    then have "answered_round net rs st = finish_page s" unfolding st' True by (simp add: after_wait_def)
    then show ?thesis by (simp add: finish_page_def Let_def)
  next
    case False
    have ok': "coord_ok (answered_round net rs st)"
      unfolding st' go [symmetric] by (intro timer_run_ok distribute_resume_ok oks)
    have nets: "length (replicate (length (missing_chunks 0 s)) net) = length (missing_chunks 0 s)"
      "list_all (ready_hop hop) (net # replicate (length (missing_chunks 0 s)) net)"
      using net by (simp_all add: list_all_iff)
    note run = after_wait_run [OF p False nets, folded st']
    show ?thesis
    proof (cases "recovery_round s < OTA_MAX_PAGE_RECOVERY_ROUNDS")
      case True
      with run obtain es es' pkt where e: "answered_round net rs st = s\<lparr>dist_chunk_idx := total_chunks s,
          recovery_round := Suc (recovery_round s), node_replied := replicate MAX_NODES False, retry_count := 0, end_pkt := pkt,
          pc := WaitReports, effects := effects s @ es @ es'\<rparr>" by (simp only: if_True) blast
      show ?thesis
        using ok' True r by (simp add: round_ready_def e) (simp add: s active_nodes_def room_above_def)
    next
      case False
      with run show ?thesis by (auto simp: finish_page_def Let_def)
    qed
  qed
qed

text \<open>C11. A page on which every node answers every round ends. From the start of a round, once as many
  rounds as are left of the ten, and one more, have been answered by all nodes, whatever their
  bitmaps say, the distribution of the page is over. The queue has room whenever the process looks,
  and no two nodes of the session share an interface identifier.\<close>

theorem answered_page_ends:
  assumes "round_ready nodes p st" and net: "ready_hop hop net"
    and rss: "list_all (\<lambda>rs. list_all (\<lambda>ip. first_page_report p rs ip \<noteq> None) nodes \<and>
      list_all (\<lambda>(r, a). length (br_bitmap r) = 8) rs) rss"
    and n: "OTA_MAX_PAGE_RECOVERY_ROUNDS < recovery_round st + length rss"
  shows "pc (answered_rounds net rss st) = Idle"
  using assms(1) rss n
proof (induction rss arbitrary: st)
  case Nil
  then show ?case by (simp add: round_ready_def coord_ok_def coord_inv_defs)
next
  case (Cons rs rss)
  have w: "pc st = WaitReports" using Cons.prems(1) by (simp add: round_ready_def)
  have rs: "all_reported st rs" "list_all (\<lambda>(r, a). length (br_bitmap r) = 8) rs"
    using Cons.prems(1,2) by (simp_all add: all_reported_def round_ready_def)
  have idle: "pc s = Idle \<Longrightarrow> answered_rounds net rss s = s" for s by (cases rss) simp_all
  from answered_round_step [OF Cons.prems(1) net rs] show ?case
  proof
    assume "pc (answered_round net rs st) = Idle"
    then show ?thesis using idle by (simp add: w)
  next
    assume a: "recovery_round st < OTA_MAX_PAGE_RECOVERY_ROUNDS \<and> round_ready nodes p (answered_round net rs st) \<and>
      recovery_round (answered_round net rs st) = Suc (recovery_round st)"
    then show ?thesis using Cons.IH [of "answered_round net rs st"] Cons.prems(2,3) by (simp add: w)
  qed
qed

text \<open>Two nodes; the second one never gets a chunk.\<close>

theorem answered_page_ends_witness:
  "pc (answered_rounds sample_routes
     (replicate 10 [(sample_bitmap_report 3, sample_ip 2), (sample_bitmap_report 0, sample_ip 3)]) sample_awaiting) = Idle"
proof -
  have "round_ready [sample_ip 2, sample_ip 3] 0 sample_awaiting"
    using sample_awaiting_facts by (simp add: round_ready_def)
  moreover have "list_all (\<lambda>rs. list_all (\<lambda>ip. first_page_report 0 rs ip \<noteq> None) [sample_ip 2, sample_ip 3] \<and>
      list_all (\<lambda>(r, a). length (br_bitmap r) = 8) rs)
    (replicate 10 [(sample_bitmap_report 3, sample_ip 2), (sample_bitmap_report 0, sample_ip 3)])"
    by (simp add: list_all_iff first_page_report_def sample_bitmap_report_def iid_def sample_ip_def)
  moreover have "OTA_MAX_PAGE_RECOVERY_ROUNDS < recovery_round sample_awaiting +
      length (replicate 10 [(sample_bitmap_report 3, sample_ip 2), (sample_bitmap_report 0, sample_ip 3)])"
    by (simp add: OTA_MAX_PAGE_RECOVERY_ROUNDS_def sample_awaiting_facts)
  ultimately show ?thesis by (rule answered_page_ends [OF _ sample_routes_ready])
qed

end
