(* ===== verification/Legacy_Sensor.thy ===== *)
theory Legacy_Sensor
  imports Sensor Offchip_Backend
begin

text \<open>
  The sensor node of the build without a boot manager, \<open>sensor-node-legacy.c\<close>: the image goes to the
  external flash from address 0 on, without a session, a target or a staging step. The driver is the
  \<open>ext_flash\<close> of the offchip backend; the code ignores the results of its erase, write and read.
  \<open>le_buf\<close> is what the local buffer of the checksum loop holds before anything is read into it.
\<close>

section \<open>State\<close>

record 'd legacy_env =
  le_flash :: "'d ext_flash"
  le_crc16 :: "u8 list \<Rightarrow> u16 \<Rightarrow> u16"
  le_buf :: "u8 list"

record 'd legacy_state =
  l_current_file_size :: u32
  l_current_rx_page_offset :: u32
  l_page_bitmap :: "u8 list"
  l_page_0_erased :: bool
  l_running_fw_crc :: u16
  l_report_to_send :: bitmap_report
  l_flash :: 'd
  l_effects :: "effect list"

definition legacy_initial :: "'d \<Rightarrow> 'd legacy_state" where
  "legacy_initial d =
     \<lparr>l_current_file_size = 0, l_current_rx_page_offset = NO_PAGE, l_page_bitmap = replicate 8 0, l_page_0_erased = False,
      l_running_fw_crc = 0, l_report_to_send = \<lparr>br_type = 0, br_status = 0, br_page_offset = 0, br_bitmap = replicate 8 0\<rparr>,
      l_flash = d, l_effects = []\<rparr>"

definition legacy_emit :: "effect list \<Rightarrow> 'd legacy_state \<Rightarrow> 'd legacy_state" where
  "legacy_emit es st = st\<lparr>l_effects := l_effects st @ es\<rparr>"

section \<open>Reports\<close>

definition legacy_do_send_bitmap :: "net_env \<Rightarrow> 'd legacy_state \<Rightarrow> 'd legacy_state" where
  "legacy_do_send_bitmap net st =
     (if node_id net \<noteq> 1 then
        case root_ipaddr net of
          None \<Rightarrow> st
        | Some root_ip \<Rightarrow>
            if uip_is_addr_unspecified root_ip then st
            else
              let coordinator_ll_ip = link_local_of root_ip; payload = bitmap_report_bytes (l_report_to_send st)
              in if defrt_choose net = Some coordinator_ll_ip then legacy_emit [SendTo coordinator_ll_ip payload] st
                 else legacy_emit [SendTo root_ip payload] st
      else st)"

definition legacy_send_report_callback :: "net_env \<Rightarrow> 'd legacy_state \<Rightarrow> 'd legacy_state" where
  "legacy_send_report_callback net st = legacy_do_send_bitmap net st"

definition legacy_schedule_bitmap_send :: "net_env \<Rightarrow> 'd legacy_state \<Rightarrow> 'd legacy_state" where
  "legacy_schedule_bitmap_send net st =
     legacy_emit [SetTimer ReportTimer (unat (random_rand net) mod 500 * CLOCK_SECOND net div 1000)] st"

text \<open>\<open>print_page_bitmap\<close>; the status byte of the static report stays 0.\<close>

definition legacy_print_page_bitmap :: "net_env \<Rightarrow> 'd legacy_state \<Rightarrow> 'd legacy_state" where
  "legacy_print_page_bitmap net st =
     (if l_current_rx_page_offset st \<noteq> NO_PAGE \<and> node_id net \<noteq> 1 then
        legacy_schedule_bitmap_send net
          (st\<lparr>l_report_to_send := (l_report_to_send st)\<lparr>br_type := PKT_TYPE_BITMAP_REPORT,
                br_page_offset := l_current_rx_page_offset st, br_bitmap := l_page_bitmap st\<rparr>\<rparr>)
      else st)"

section \<open>Receiving\<close>

definition legacy_forward :: "net_env \<Rightarrow> bool \<Rightarrow> u8 list \<Rightarrow> 'd legacy_state \<Rightarrow> 'd legacy_state" where
  "legacy_forward net should_forward raw st = (if should_forward then legacy_emit (send_to_all net raw) st else st)"

text \<open>Open, erase a sector, close; the boolean says whether the flash could be opened.\<close>

definition legacy_erase :: "'d legacy_env \<Rightarrow> u32 \<Rightarrow> 'd \<Rightarrow> bool \<times> 'd" where
  "legacy_erase E addr d =
     (case ext_flash_open (le_flash E) d of
        (False, d) \<Rightarrow> (False, d)
      | (True, d) \<Rightarrow>
         (case ext_flash_erase (le_flash E) addr EXT_FLASH_ERASE_SECTOR_SIZE d of
            (_, d) \<Rightarrow> (True, ext_flash_close (le_flash E) d)))"

definition legacy_handle_start ::
    "'d legacy_env \<Rightarrow> net_env \<Rightarrow> fw_packet \<Rightarrow> u8 list \<Rightarrow> bool \<Rightarrow> 'd legacy_state \<Rightarrow> 'd legacy_state" where
  "legacy_handle_start E net pkt raw should_forward st =
     (let st = st\<lparr>l_current_file_size := pk_offset pkt, l_running_fw_crc := 0, l_current_rx_page_offset := NO_PAGE,
                l_page_bitmap := replicate 8 0, l_page_0_erased := False\<rparr>
      in case legacy_erase E 0 (l_flash st) of
           (opened, d) \<Rightarrow> legacy_forward net should_forward raw (st\<lparr>l_flash := d, l_page_0_erased := opened\<rparr>))"

text \<open>Selecting the page of a DATA packet; \<open>False\<close> for data of an older page, which is ignored.\<close>

definition legacy_select_page :: "'d legacy_env \<Rightarrow> fw_packet \<Rightarrow> 'd legacy_state \<Rightarrow> bool \<times> 'd legacy_state" where
  "legacy_select_page E pkt st =
     (let page_offset = pk_offset pkt - pk_offset pkt mod EXT_FLASH_ERASE_SECTOR_SIZE
      in if l_current_rx_page_offset st = NO_PAGE then
           let st = st\<lparr>l_current_rx_page_offset := page_offset, l_page_bitmap := replicate 8 0\<rparr>
           in if page_offset = 0 then
                if \<not> l_page_0_erased st then
                  case legacy_erase E 0 (l_flash st) of
                    (opened, d) \<Rightarrow> (True, st\<lparr>l_flash := d, l_page_0_erased := opened\<rparr>)
                else (True, st)
              else (True, st\<lparr>l_flash := snd (legacy_erase E page_offset (l_flash st))\<rparr>)
         else if page_offset > l_current_rx_page_offset st then
           (True, st\<lparr>l_current_rx_page_offset := page_offset, l_page_bitmap := replicate 8 0,
                    l_flash := snd (legacy_erase E page_offset (l_flash st))\<rparr>)
         else (\<not> page_offset < l_current_rx_page_offset st, st))"

definition legacy_store_chunk ::
    "'d legacy_env \<Rightarrow> net_env \<Rightarrow> fw_packet \<Rightarrow> u8 list \<Rightarrow> bool \<Rightarrow> 'd legacy_state \<Rightarrow> 'd legacy_state" where
  "legacy_store_chunk E net pkt raw should_forward st =
     (let chunk_idx = unat (pk_offset pkt mod EXT_FLASH_ERASE_SECTOR_SIZE) div 64;
          chunk_already_received = (chunk_idx < 64 \<and> bitmap_bit (l_page_bitmap st) chunk_idx);
          st = legacy_forward net should_forward raw st
      in if chunk_already_received then st
         else
           let st = (if pk_length pkt > 0 \<and> chunk_idx < 64
                     then st\<lparr>l_page_bitmap := bitmap_set chunk_idx (l_page_bitmap st)\<rparr> else st)
           in case ext_flash_open (le_flash E) (l_flash st) of
                (False, d) \<Rightarrow> st\<lparr>l_flash := d\<rparr>
              | (True, d) \<Rightarrow>
                  st\<lparr>l_flash := ext_flash_close (le_flash E)
                     (snd (ext_flash_write (le_flash E) (pk_offset pkt)
                        (buf_bytes (pk_data pkt) 0 (unat (pk_length pkt))) d))\<rparr>)"

definition legacy_handle_data ::
    "'d legacy_env \<Rightarrow> net_env \<Rightarrow> fw_packet \<Rightarrow> u8 list \<Rightarrow> bool \<Rightarrow> 'd legacy_state \<Rightarrow> 'd legacy_state" where
  "legacy_handle_data E net pkt raw should_forward st =
     (case legacy_select_page E pkt st of
        (False, st) \<Rightarrow> st
      | (True, st) \<Rightarrow> legacy_store_chunk E net pkt raw should_forward st)"

text \<open>The page a PAGE_END is for: the current one, the first one if nothing has arrived yet, or a later
  one of which nothing has arrived; anything else is ignored.\<close>

definition legacy_page_end_page :: "fw_packet \<Rightarrow> 'd legacy_state \<Rightarrow> 'd legacy_state option" where
  "legacy_page_end_page pkt st =
     (if pk_offset pkt = l_current_rx_page_offset st then Some st
      else if l_current_rx_page_offset st = NO_PAGE \<and> pk_offset pkt = 0 then
        Some (st\<lparr>l_current_rx_page_offset := 0, l_page_bitmap := replicate 8 0\<rparr>)
      else if pk_offset pkt > l_current_rx_page_offset st \<and> l_current_rx_page_offset st \<noteq> NO_PAGE then
        Some (st\<lparr>l_current_rx_page_offset := pk_offset pkt, l_page_bitmap := replicate 8 0\<rparr>)
      else None)"

definition legacy_page_len :: "'d legacy_state \<Rightarrow> u16" where
  "legacy_page_len st =
     (if l_current_rx_page_offset st + of_nat PAGE_SIZE > l_current_file_size st
      then ucast (l_current_file_size st - l_current_rx_page_offset st)
      else of_nat PAGE_SIZE)"

text \<open>The loop from index \<open>i\<close> with the buffer \<open>buf\<close>: both checksums and the flash.\<close>

function legacy_crc_loop ::
    "'d legacy_env \<Rightarrow> u32 \<Rightarrow> nat \<Rightarrow> nat \<Rightarrow> u8 list \<Rightarrow> u16 \<Rightarrow> u16 \<Rightarrow> 'd \<Rightarrow> u16 \<times> u16 \<times> 'd" where
  "legacy_crc_loop E page_offset page_len i buf page_crc fw_crc d =
     (if i < page_len then
        let chunk = (if page_len - i > 64 then 64 else page_len - i)
        in case ext_flash_read (le_flash E) (page_offset + of_nat i) chunk d of
             (bytes, d) \<Rightarrow>
               (let buf = (case bytes of Some bs \<Rightarrow> bs @ drop chunk buf | None \<Rightarrow> buf)
                in legacy_crc_loop E page_offset page_len (i + 64) buf
                     (le_crc16 E (take chunk buf) page_crc) (le_crc16 E (take chunk buf) fw_crc) d)
      else (page_crc, fw_crc, d))"
  by auto
termination by (relation "measure (\<lambda>(E, page_offset, page_len, i, _). page_len - i)") auto

declare legacy_crc_loop.simps [simp del]

definition legacy_handle_page_end ::
    "'d legacy_env \<Rightarrow> net_env \<Rightarrow> fw_packet \<Rightarrow> u8 list \<Rightarrow> bool \<Rightarrow> 'd legacy_state \<Rightarrow> 'd legacy_state" where
  "legacy_handle_page_end E net pkt raw should_forward st =
     (let st = legacy_forward net should_forward raw st
      in case legacy_page_end_page pkt st of
           None \<Rightarrow> st
         | Some st \<Rightarrow>
             let (flash_ok, page_crc, temp_fw_crc, d) =
                   (case ext_flash_open (le_flash E) (l_flash st) of
                      (False, d) \<Rightarrow> (False, 0, l_running_fw_crc st, d)
                    | (True, d) \<Rightarrow>
                        (case legacy_crc_loop E (l_current_rx_page_offset st) (unat (legacy_page_len st)) 0 (le_buf E) 0
                                (l_running_fw_crc st) d of
                           (page_crc, fw_crc, d) \<Rightarrow> (True, page_crc, fw_crc, ext_flash_close (le_flash E) d)));
                 st = st\<lparr>l_flash := d\<rparr>;
                 st = (if flash_ok \<and> page_crc = pk_length pkt then st\<lparr>l_running_fw_crc := temp_fw_crc\<rparr>
                       else st\<lparr>l_page_bitmap := replicate 8 0\<rparr>)
             in legacy_print_page_bitmap net st)"

text \<open>The comparison of the checksums is only logged.\<close>

definition legacy_handle_verify ::
    "net_env \<Rightarrow> fw_packet \<Rightarrow> u8 list \<Rightarrow> bool \<Rightarrow> 'd legacy_state \<Rightarrow> 'd legacy_state" where
  "legacy_handle_verify net pkt raw should_forward st =
     (legacy_print_page_bitmap net (legacy_forward net should_forward raw st))\<lparr>l_current_rx_page_offset := NO_PAGE\<rparr>"

definition legacy_verify_success :: "fw_packet \<Rightarrow> 'd legacy_state \<Rightarrow> bool" where
  "legacy_verify_success pkt st \<longleftrightarrow> l_running_fw_crc st = ucast (pk_offset pkt)"

text \<open>\<open>udp_rx_callback\<close> on a sensor node. The header length it compares with is the literal 7.\<close>

definition legacy_udp_rx ::
    "'d legacy_env \<Rightarrow> net_env \<Rightarrow> ipaddr \<Rightarrow> rx_buf \<Rightarrow> u16 \<Rightarrow> 'd legacy_state \<Rightarrow> 'd legacy_state" where
  "legacy_udp_rx E net sender_addr data datalen st =
     (if datalen < 7 then st
      else
        let pkt = fw_packet_at data;
            raw = buf_bytes data 0 (unat datalen);
            has_coord_ll = get_coordinator_ll_ip net;
            is_from_parent = (case defrt_choose net of Some parent_ip \<Rightarrow> sender_addr = parent_ip | None \<Rightarrow> False);
            is_from_coordinator = (case has_coord_ll of Some ip \<Rightarrow> sender_addr = ip | None \<Rightarrow> False);
            is_leaf = (routes net = []);
            should_forward = ((is_from_parent \<or> is_from_coordinator) \<and> \<not> is_leaf)
        in if pk_type pkt = PKT_TYPE_START then legacy_handle_start E net pkt raw should_forward st
           else if pk_type pkt = PKT_TYPE_DATA then legacy_handle_data E net pkt raw should_forward st
           else if pk_type pkt = PKT_TYPE_PAGE_END then legacy_handle_page_end E net pkt raw should_forward st
           else if pk_type pkt = PKT_TYPE_VERIFY then legacy_handle_verify net pkt raw should_forward st
           else st)"

end
