(* ===== verification/Legacy_Coordinator.thy ===== *)
theory Legacy_Coordinator
  imports Recovery
begin

text \<open>
  The coordinator of the build without a boot manager, \<open>coordinator-legacy.c\<close>. It has the same
  distribution process, without the queue checks, the START admission and the targets, so it runs on
  the same state; the fields of the admission are not used. Its packets are sent with literal
  lengths that count a header of seven bytes. \<open>junk\<close> is the byte the uninitialised field
  \<open>target_slot\<close> of a local packet holds.
\<close>

section \<open>The distribution process\<close>

definition legacy_page_is_complete :: "nat \<Rightarrow> coord_state \<Rightarrow> bool" where
  "legacy_page_is_complete n st =
     (if session_nodes_count st = 0 then True
      else list_all (\<lambda>i. list_all (\<lambda>chunk_idx.
             session_bitmaps st ! i ! (chunk_idx div 8) AND push_bit (chunk_idx mod 8) 1 \<noteq> 0) [0..<n])
           [0..<session_nodes_count st])"

text \<open>Building and sending a DATA packet, then 80 ms of pacing.\<close>

definition legacy_chunk_packet :: "u8 \<Rightarrow> coord_state \<Rightarrow> fw_packet" where
  "legacy_chunk_packet junk st =
     (let chunk_abs_offset = page_start_offset st + of_nat (dist_chunk_idx st * 64);
          page_end = page_start_offset st + ucast (expected_page_size st);
          len = (if chunk_abs_offset + 64 > page_end then ucast (page_end - chunk_abs_offset) else 64)
      in \<lparr>pk_type = PKT_TYPE_DATA, pk_offset = chunk_abs_offset, pk_length = len, pk_target_slot = junk,
          pk_data = (\<lambda>i. if i < unat len then page_buffer st ! (dist_chunk_idx st * 64 + i) else 0)\<rparr>)"

definition legacy_send_paced :: "net_env \<Rightarrow> u8 \<Rightarrow> dist_pc \<Rightarrow> coord_state \<Rightarrow> coord_state" where
  "legacy_send_paced net junk k st =
     (let pkt = legacy_chunk_packet junk st
      in if unat (pk_length pkt) > 64 \<or> dist_chunk_idx st * 64 + unat (pk_length pkt) > PAGE_SIZE
         then st\<lparr>pc := Undefined\<rparr>
         else say (send_packet net pkt (7 + unat (pk_length pkt)) @ [SetTimer DistTimer (CLOCK_SECOND net * 8 div 100)])
                (st\<lparr>pc := k\<rparr>))"

definition legacy_finish_page :: "coord_state \<Rightarrow> coord_state" where
  "legacy_finish_page st =
     (let st = st\<lparr>page_start_offset := page_start_offset st + ucast (expected_page_size st), page_bytes_received := 0\<rparr>;
          st = (if page_start_offset st < current_file_size st
                then st\<lparr>expected_page_size :=
                       (if current_file_size st - page_start_offset st > of_nat PAGE_SIZE then of_nat PAGE_SIZE
                        else ucast (current_file_size st - page_start_offset st))\<rparr>
                else st\<lparr>expected_page_size := 0\<rparr>)
      in say [Uart ''FW:PAGE_OK''] (st\<lparr>distribution_in_progress := False, pc := Idle\<rparr>))"

definition legacy_send_page_end :: "net_env \<Rightarrow> coord_state \<Rightarrow> coord_state" where
  "legacy_send_page_end net st =
     say (send_packet net (end_pkt st) 7 @ [SetTimer DistTimer (CLOCK_SECOND net * 15)]) (st\<lparr>pc := WaitReports\<rparr>)"

text \<open>The head of the recovery loop.\<close>

definition legacy_recovery_head :: "net_env \<Rightarrow> coord_state \<Rightarrow> coord_state" where
  "legacy_recovery_head net st =
     (if session_nodes_count st = 0 then legacy_finish_page st
      else if legacy_page_is_complete (total_chunks st) st then legacy_finish_page st
      else if recovery_round st \<ge> 10 then legacy_finish_page st
      else legacy_send_page_end net
             (st\<lparr>recovery_round := recovery_round st + 1, node_replied := replicate MAX_NODES False, retry_count := 0,
                end_pkt := (end_pkt st)\<lparr>pk_type := PKT_TYPE_PAGE_END, pk_offset := page_start_offset st,
                             pk_length := page_crc st\<rparr>\<rparr>))"

definition legacy_first_pass :: "net_env \<Rightarrow> u8 \<Rightarrow> coord_state \<Rightarrow> coord_state" where
  "legacy_first_pass net junk st =
     (if dist_chunk_idx st < total_chunks st then legacy_send_paced net junk PaceFirst st
      else legacy_recovery_head net (st\<lparr>recovery_round := 0\<rparr>))"

text \<open>The retransmission pass, with its inner loop that counts the nodes a chunk is missing from.\<close>

definition legacy_missed_count :: "nat \<Rightarrow> coord_state \<Rightarrow> nat" where
  "legacy_missed_count chunk_idx st =
     length (filter (\<lambda>i. session_bitmaps st ! i ! (chunk_idx div 8) AND push_bit (chunk_idx mod 8) 1 = 0)
       [0..<session_nodes_count st])"

function legacy_recover_pass :: "net_env \<Rightarrow> u8 \<Rightarrow> coord_state \<Rightarrow> coord_state" where
  "legacy_recover_pass net junk st =
     (if dist_chunk_idx st < total_chunks st then
        if legacy_missed_count (dist_chunk_idx st) st > 0 then legacy_send_paced net junk PaceRecover st
        else legacy_recover_pass net junk (st\<lparr>dist_chunk_idx := dist_chunk_idx st + 1\<rparr>)
      else legacy_recovery_head net st)"
  by auto
termination by (relation "measure (\<lambda>(net, junk, st). total_chunks st - dist_chunk_idx st)") auto

declare legacy_recover_pass.simps [simp del]

definition legacy_after_wait :: "net_env \<Rightarrow> u8 \<Rightarrow> coord_state \<Rightarrow> coord_state" where
  "legacy_after_wait net junk st =
     (if legacy_page_is_complete (total_chunks st) st then legacy_finish_page st
      else legacy_recover_pass net junk (st\<lparr>dist_chunk_idx := 0\<rparr>))"

text \<open>Compacting the node array: one step of its loop, then the loop.\<close>

definition legacy_drop_step :: "nat \<Rightarrow> nat \<times> coord_state \<Rightarrow> nat \<times> coord_state" where
  "legacy_drop_step i = (\<lambda>(write_idx, st).
     if node_replied st ! i then
       (write_idx + 1,
        if write_idx \<noteq> i
        then st\<lparr>session_nodes := (session_nodes st)[write_idx := session_nodes st ! i],
               session_bitmaps := (session_bitmaps st)[write_idx := session_bitmaps st ! i]\<rparr>
        else st)
     else (write_idx, st))"

definition legacy_drop_silent :: "coord_state \<Rightarrow> coord_state" where
  "legacy_drop_silent st =
     (case fold legacy_drop_step [0..<session_nodes_count st] (0, st) of
        (write_idx, st) \<Rightarrow> st\<lparr>session_nodes_count := write_idx\<rparr>)"

definition legacy_report_timeout :: "net_env \<Rightarrow> u8 \<Rightarrow> coord_state \<Rightarrow> coord_state" where
  "legacy_report_timeout net junk st =
     (let st = st\<lparr>retry_count := retry_count st + 1\<rparr>
      in if retry_count st \<ge> 3 then
           let replied_count = length (filter (\<lambda>i. node_replied st ! i) [0..<session_nodes_count st])
           in if replied_count > 0 then legacy_after_wait net junk (legacy_drop_silent st)
              else legacy_send_page_end net (st\<lparr>retry_count := 0\<rparr>)
         else legacy_send_page_end net st)"

definition legacy_reports_posted :: "net_env \<Rightarrow> u8 \<Rightarrow> coord_state \<Rightarrow> coord_state" where
  "legacy_reports_posted net junk st =
     (if list_all (\<lambda>i. node_replied st ! i) [0..<session_nodes_count st] then legacy_after_wait net junk st else st)"

definition legacy_distribute_start :: "(u8 list \<Rightarrow> u16 \<Rightarrow> u16) \<Rightarrow> net_env \<Rightarrow> u8 \<Rightarrow> coord_state \<Rightarrow> coord_state" where
  "legacy_distribute_start crc net junk st =
     legacy_first_pass net junk
       (st\<lparr>total_chunks := (unat (expected_page_size st) + 63) div 64,
          page_crc := crc (take (unat (expected_page_size st)) (page_buffer st)) 0,
          session_bitmaps := replicate MAX_NODES (replicate 8 0), dist_chunk_idx := 0\<rparr>)"

definition legacy_distribute_resume :: "net_env \<Rightarrow> u8 \<Rightarrow> proc_event \<Rightarrow> coord_state \<Rightarrow> coord_state" where
  "legacy_distribute_resume net junk ev st =
     (case (pc st, ev) of
        (PaceFirst, TimerEvent) \<Rightarrow> legacy_first_pass net junk (st\<lparr>dist_chunk_idx := dist_chunk_idx st + 1\<rparr>)
      | (WaitReports, TimerEvent) \<Rightarrow> legacy_report_timeout net junk st
      | (WaitReports, BitmapEvent) \<Rightarrow> legacy_reports_posted net junk st
      | (PaceRecover, TimerEvent) \<Rightarrow> legacy_recover_pass net junk (st\<lparr>dist_chunk_idx := dist_chunk_idx st + 1\<rparr>)
      | _ \<Rightarrow> st)"

section \<open>UART commands\<close>

text \<open>The loop that copies the routing table into the session, up to \<open>MAX_NODES\<close> entries.\<close>

fun legacy_populate :: "ipaddr list \<Rightarrow> coord_state \<Rightarrow> coord_state" where
  "legacy_populate [] st = st"
| "legacy_populate (route_ip # rs) st =
     (if session_nodes_count st < MAX_NODES
      then legacy_populate rs
             (st\<lparr>session_nodes := (session_nodes st)[session_nodes_count st := route_ip],
                session_nodes_count := session_nodes_count st + 1\<rparr>)
      else st)"

definition legacy_uart_start :: "net_env \<Rightarrow> u8 \<Rightarrow> string \<Rightarrow> coord_state \<Rightarrow> coord_state" where
  "legacy_uart_start net junk str st =
     (let st = st\<lparr>shell_running := False\<rparr>
      in case do { r \<leftarrow> scan_literal ''FW:S:'' str; scan_x r } of
        None \<Rightarrow> st
      | Some (offset, _) \<Rightarrow>
          let pkt = \<lparr>pk_type = PKT_TYPE_START, pk_offset = offset, pk_length = 0, pk_target_slot = junk, pk_data = (\<lambda>_. 0)\<rparr>;
              st = say (send_packet net pkt 7) st;
              st = legacy_populate (map fst (routes net)) (st\<lparr>session_nodes_count := 0\<rparr>)
          in say [Uart ''FW:ACK'']
               (st\<lparr>current_file_size := offset, page_start_offset := 0, page_bytes_received := 0,
                  expected_page_size := (if offset > of_nat PAGE_SIZE then of_nat PAGE_SIZE else ucast offset),
                  distribution_in_progress := False\<rparr>))"

definition legacy_uart_data ::
    "(u8 list \<Rightarrow> u16 \<Rightarrow> u16) \<Rightarrow> net_env \<Rightarrow> u8 \<Rightarrow> string \<Rightarrow> coord_state \<Rightarrow> coord_state" where
  "legacy_uart_data crc net junk str st =
     (case scan_data_command str of
        None \<Rightarrow> st
      | Some (offset, len, hexdata) \<Rightarrow>
          if distribution_in_progress st then st
          else if offset \<ge> page_start_offset st \<and> offset < page_start_offset st + ucast (expected_page_size st) then
            let rel_offset = offset - page_start_offset st
            in if rel_offset + len \<le> ucast (expected_page_size st) then
                 if of_nat (length hexdata) \<noteq> len * 2 then st
                 else
                   let st = say [Uart ''FW:ACK'']
                         (st\<lparr>page_buffer := decode_hex (unat rel_offset) (unat len) hexdata (page_buffer st),
                            page_bytes_received := page_bytes_received st + ucast len\<rparr>)
                   in if page_bytes_received st = expected_page_size st
                      then let st = st\<lparr>distribution_in_progress := True\<rparr>
                           in if pc st = Idle then legacy_distribute_start crc net junk st else st
                      else st
               else st
          else st)"

definition legacy_uart_verify :: "net_env \<Rightarrow> u8 \<Rightarrow> string \<Rightarrow> coord_state \<Rightarrow> coord_state" where
  "legacy_uart_verify net junk str st =
     (case do { r \<leftarrow> scan_literal ''FW:V:'' str; scan_x r } of
        None \<Rightarrow> st
      | Some (offset, _) \<Rightarrow>
          let pkt = \<lparr>pk_type = PKT_TYPE_VERIFY, pk_offset = offset, pk_length = 0, pk_target_slot = junk, pk_data = (\<lambda>_. 0)\<rparr>
          in say (send_packet net pkt 7 @ [Uart ''FW:ACK'']) (st\<lparr>shell_running := True\<rparr>))"

definition legacy_handle_uart ::
    "(u8 list \<Rightarrow> u16 \<Rightarrow> u16) \<Rightarrow> net_env \<Rightarrow> u8 \<Rightarrow> string \<Rightarrow> coord_state \<Rightarrow> coord_state" where
  "legacy_handle_uart crc net junk str st =
     (case drop 3 str of
        c # _ \<Rightarrow>
          if c = CHR ''S'' then legacy_uart_start net junk str st
          else if c = CHR ''D'' then legacy_uart_data crc net junk str st
          else if c = CHR ''V'' then legacy_uart_verify net junk str st
          else st
      | [] \<Rightarrow> st)"

section \<open>Reports\<close>

text \<open>The coordinator's branch of the legacy \<open>udp_rx_callback\<close>.\<close>

definition legacy_coordinator_report :: "rx_buf \<Rightarrow> u16 \<Rightarrow> ipaddr \<Rightarrow> coord_state \<Rightarrow> coord_state" where
  "legacy_coordinator_report data datalen sender_addr st =
     (if unat datalen \<ge> sizeof_bitmap_report then
        let report = bitmap_report_at data
        in if br_type report = PKT_TYPE_BITMAP_REPORT \<and> br_page_offset report = page_start_offset st then
             case List.find (\<lambda>i. iid (session_nodes st ! i) = iid sender_addr) [0..<session_nodes_count st] of
               None \<Rightarrow> st
             | Some found \<Rightarrow>
                 if node_replied st ! found then st
                 else
                   let st = st\<lparr>node_replied := (node_replied st)[found := True],
                              session_bitmaps := (session_bitmaps st)[found := br_bitmap report]\<rparr>
                   in if list_all (\<lambda>i. node_replied st ! i) [0..<session_nodes_count st]
                      then say [PostBitmapReceived] st else st
           else st
      else st)"

section \<open>The same state machine\<close>

text \<open>What is left of a state without the log of effects (what is sent, and with which delays) and
  without the packet the PAGE_END is built in.\<close>

definition machine :: "coord_state \<Rightarrow> coord_state" where
  "machine st = st\<lparr>effects := [], end_pkt := end_pkt coord_initial\<rparr>"

lemma legacy_complete_eq: "legacy_page_is_complete n st = ota_page_is_complete n st"
  by (simp add: legacy_page_is_complete_def ota_page_is_complete_def bitmap_bit_def)

lemma legacy_finish_eq: "legacy_finish_page st = finish_page st"
  by (simp add: legacy_finish_page_def finish_page_def Let_def say_def)

lemma legacy_drop_eq: "legacy_drop_silent st = compact_nodes (\<lambda>i. node_replied st ! i) st"
proof -
  have "fold legacy_drop_step ks (w, s) = fold (compact_step (\<lambda>i. node_replied st ! i)) ks (w, s)"
    if "node_replied s = node_replied st" for ks w s
    using that by (induction ks arbitrary: w s) (simp_all add: legacy_drop_step_def compact_step_def)
  then show ?thesis by (simp add: legacy_drop_silent_def compact_nodes_def)
qed

lemma legacy_packet_fields:
  "pk_length (legacy_chunk_packet junk st) = chunk_len st" "pk_offset (legacy_chunk_packet junk st) = chunk_abs_offset st"
  by (simp_all add: legacy_chunk_packet_def chunk_len_def chunk_abs_offset_def Let_def)

lemma legacy_missed_eq: "legacy_missed_count n st = missed_count n st"
  by (simp add: legacy_missed_count_def missed_count_def bitmap_bit_def)

lemma machine_updates:
  "machine (effects_update f st) = machine st" "machine (end_pkt_update g st) = machine st" "machine (say es st) = machine st"
  "machine (st\<lparr>pc := k\<rparr>) = (machine st)\<lparr>pc := k\<rparr>"
  "machine (st\<lparr>dist_chunk_idx := n\<rparr>) = (machine st)\<lparr>dist_chunk_idx := n\<rparr>"
  "machine (st\<lparr>recovery_round := n\<rparr>) = (machine st)\<lparr>recovery_round := n\<rparr>"
  "machine (st\<lparr>retry_count := n\<rparr>) = (machine st)\<lparr>retry_count := n\<rparr>"
  "machine (st\<lparr>node_replied := nr\<rparr>) = (machine st)\<lparr>node_replied := nr\<rparr>"
  "machine (st\<lparr>session_bitmaps := bs\<rparr>) = (machine st)\<lparr>session_bitmaps := bs\<rparr>"
  "machine (st\<lparr>session_nodes := ns\<rparr>) = (machine st)\<lparr>session_nodes := ns\<rparr>"
  "machine (st\<lparr>session_nodes_count := n\<rparr>) = (machine st)\<lparr>session_nodes_count := n\<rparr>"
  "machine (st\<lparr>page_start_offset := p\<rparr>) = (machine st)\<lparr>page_start_offset := p\<rparr>"
  "machine (st\<lparr>page_bytes_received := r\<rparr>) = (machine st)\<lparr>page_bytes_received := r\<rparr>"
  "machine (st\<lparr>expected_page_size := e\<rparr>) = (machine st)\<lparr>expected_page_size := e\<rparr>"
  "machine (st\<lparr>distribution_in_progress := b\<rparr>) = (machine st)\<lparr>distribution_in_progress := b\<rparr>"
  by (simp_all add: machine_def say_def)

lemma agree_fields:
  assumes "machine st = machine st'"
  shows "pc st = pc st'" "dist_chunk_idx st = dist_chunk_idx st'" "total_chunks st = total_chunks st'"
    "recovery_round st = recovery_round st'" "page_crc st = page_crc st'" "retry_count st = retry_count st'"
    "node_replied st = node_replied st'" "session_bitmaps st = session_bitmaps st'" "session_nodes st = session_nodes st'"
    "session_nodes_count st = session_nodes_count st'" "page_start_offset st = page_start_offset st'"
    "expected_page_size st = expected_page_size st'" "current_file_size st = current_file_size st'"
    "page_buffer st = page_buffer st'"
  using arg_cong [OF assms, of pc] arg_cong [OF assms, of dist_chunk_idx] arg_cong [OF assms, of total_chunks]
    arg_cong [OF assms, of recovery_round] arg_cong [OF assms, of page_crc] arg_cong [OF assms, of retry_count]
    arg_cong [OF assms, of node_replied] arg_cong [OF assms, of session_bitmaps] arg_cong [OF assms, of session_nodes]
    arg_cong [OF assms, of session_nodes_count] arg_cong [OF assms, of page_start_offset]
    arg_cong [OF assms, of expected_page_size] arg_cong [OF assms, of current_file_size] arg_cong [OF assms, of page_buffer]
  by (simp_all add: machine_def)

lemma agree_complete: "machine st = machine st' \<Longrightarrow> ota_page_is_complete n st = ota_page_is_complete n st'"
  using agree_fields [of st st'] by (simp add: ota_page_is_complete_def)

lemma agree_missed: "machine st = machine st' \<Longrightarrow> missed_count n st = missed_count n st'"
  using agree_fields [of st st'] by (simp add: missed_count_def)

lemma agree_chunk: "machine st = machine st' \<Longrightarrow> chunk_len st = chunk_len st'"
  using agree_fields [of st st'] by (simp add: chunk_len_def chunk_abs_offset_def)

lemma agree_finish: "machine st = machine st' \<Longrightarrow> machine (legacy_finish_page st) = machine (finish_page st')"
  unfolding legacy_finish_eq finish_page_def Let_def machine_updates by (simp add: agree_fields [of st st'])

lemma agree_page_end: "machine st = machine st' \<Longrightarrow> machine (legacy_send_page_end net st) = machine (send_page_end net st')"
  by (simp add: legacy_send_page_end_def send_page_end_def machine_updates)

lemma agree_paced:
  assumes "machine st = machine st'" "pc st' \<noteq> Undefined"
  shows "machine (legacy_send_paced net junk k st) = machine (send_paced net ms k st')"
proof (cases "unat (chunk_len st') > 64 \<or> dist_chunk_idx st' * 64 + unat (chunk_len st') > PAGE_SIZE")
  case True
  then show ?thesis
    using assms(1) by (simp add: legacy_send_paced_def send_paced_def send_chunk_def Let_def legacy_packet_fields
        agree_chunk [OF assms(1)] agree_fields [OF assms(1)] machine_updates)
next
  case False
  then show ?thesis
    using assms by (simp add: legacy_send_paced_def send_paced_def send_chunk_def Let_def legacy_packet_fields
        agree_chunk [OF assms(1)] agree_fields [OF assms(1)] machine_updates say_def)
qed

lemma agree_recovery_head:
  assumes "machine st = machine st'" and net: "ota_downstream_queue_ready net"
  shows "machine (legacy_recovery_head net st) = machine (recovery_head net st')"
  using assms by (simp add: legacy_recovery_head_def recovery_head_def Let_def legacy_complete_eq agree_complete [OF assms(1)]
      agree_fields [OF assms(1)] agree_finish OTA_MAX_PAGE_RECOVERY_ROUNDS_def)
    (intro impI agree_page_end, simp add: machine_updates agree_fields [OF assms(1)])

lemma agree_first_pass:
  assumes "machine st = machine st'" "pc st' \<noteq> Undefined" and net: "ota_downstream_queue_ready net"
  shows "machine (legacy_first_pass net junk st) = machine (first_pass net st')"
  using assms by (simp add: legacy_first_pass_def first_pass_def first_pass_chunk_def agree_fields [OF assms(1)] agree_paced)
    (intro impI agree_recovery_head, simp_all add: machine_updates)

lemma agree_recover_pass:
  assumes "machine st = machine st'" "pc st' \<noteq> Undefined" and net: "ota_downstream_queue_ready net"
  shows "machine (legacy_recover_pass net junk st) = machine (recover_pass net st')"
  using assms
proof (induction net junk st arbitrary: st' rule: legacy_recover_pass.induct)
  case (1 net junk st)
  note f = agree_fields [OF 1(2)]
  show ?case
    using 1(2-4) 1(1) [of "st'\<lparr>dist_chunk_idx := dist_chunk_idx st' + 1\<rparr>"] f(2)
    by (subst legacy_recover_pass.simps, subst recover_pass.simps)
      (simp add: legacy_missed_eq agree_missed [OF 1(2)] f agree_paced agree_recovery_head machine_updates)
qed

lemma agree_after_wait:
  assumes "machine st = machine st'" "pc st' \<noteq> Undefined" and net: "ota_downstream_queue_ready net"
  shows "machine (legacy_after_wait net junk st) = machine (after_wait net st')"
  using assms by (simp add: legacy_after_wait_def after_wait_def legacy_complete_eq agree_complete [OF assms(1)]
      agree_fields [OF assms(1)] agree_finish) (intro impI agree_recover_pass, simp_all add: machine_updates)

lemma agree_compact:
  assumes "machine st = machine st'"
  shows "machine (compact_nodes keep st) = machine (compact_nodes keep st')"
proof -
  have "fst (fold (compact_step keep) ks (w, s)) = fst (fold (compact_step keep) ks (w, s')) \<and>
      machine (snd (fold (compact_step keep) ks (w, s))) = machine (snd (fold (compact_step keep) ks (w, s')))"
    if "machine s = machine s'" for ks w s s'
    using that
  proof (induction ks arbitrary: w s s')
    case (Cons k ks)
    have "\<exists>w1 s1 s1'. compact_step keep k (w, s) = (w1, s1) \<and> compact_step keep k (w, s') = (w1, s1') \<and> machine s1 = machine s1'"
      using Cons.prems by (simp add: compact_step_def machine_updates agree_fields [OF Cons.prems])
    then obtain w1 s1 s1' where "compact_step keep k (w, s) = (w1, s1)" "compact_step keep k (w, s') = (w1, s1')"
      "machine s1 = machine s1'" by blast
    with Cons.IH [of s1 s1' w1] show ?case by simp
  qed simp
  note e = this [OF assms, of "[0..<session_nodes_count st']" 0]
  have "machine (compact_nodes keep s) = (machine (snd (fold (compact_step keep) [0..<session_nodes_count s] (0, s))))
      \<lparr>session_nodes_count := fst (fold (compact_step keep) [0..<session_nodes_count s] (0, s))\<rparr>" for s
    by (simp add: compact_nodes_def case_prod_unfold Let_def machine_updates)
  then show ?thesis using e by (simp add: agree_fields(10) [OF assms])
qed

lemma compact_keeps_pc: "pc (compact_nodes keep (st :: coord_state)) = pc st"
proof -
  have "pc (snd (fold (compact_step keep) ks (w, s))) = pc s" for ks w and s :: coord_state
    by (induction ks arbitrary: w s) (simp_all add: compact_step_def)
  then show ?thesis by (simp add: compact_nodes_def case_prod_unfold Let_def)
qed

lemma agree_report_timeout:
  assumes "machine st = machine st'" "pc st' \<noteq> Undefined" and net: "ota_downstream_queue_ready net"
  shows "machine (legacy_report_timeout net junk st) = machine (report_timeout net st')"
proof -
  note f = agree_fields [OF assms(1)]
  have ex: "list_ex (\<lambda>i. node_replied st' ! i) [0..<session_nodes_count st'] \<longleftrightarrow>
      filter (\<lambda>i. node_replied st' ! i) [0..<session_nodes_count st'] \<noteq> []"
    by (auto simp: list_ex_iff filter_empty_conv)
  have m: "machine (st\<lparr>retry_count := n\<rparr>) = machine (st'\<lparr>retry_count := n\<rparr>)" for n
    using assms(1) by (simp add: machine_updates)
  show ?thesis
    using agree_page_end [OF m, of net] agree_after_wait [OF agree_compact [OF m] _ net, of _ _ junk] assms(2) net
    by (simp add: legacy_report_timeout_def report_timeout_def resend_page_end_def Let_def f ex legacy_drop_eq compact_keeps_pc)
qed

lemma agree_resume:
  assumes "machine st = machine st'" and net: "ota_downstream_queue_ready net"
    and pc: "pc st' \<in> {Idle, PaceFirst, WaitReports, PaceRecover, Undefined}"
  shows "machine (legacy_distribute_resume net junk ev st) = machine (distribute_resume net ev st')"
  using assms agree_fields [OF assms(1)]
    agree_first_pass [OF _ _ net, of "st\<lparr>dist_chunk_idx := dist_chunk_idx st + 1\<rparr>" "st'\<lparr>dist_chunk_idx := dist_chunk_idx st' + 1\<rparr>" junk]
    agree_recover_pass [OF _ _ net, of "st\<lparr>dist_chunk_idx := dist_chunk_idx st + 1\<rparr>" "st'\<lparr>dist_chunk_idx := dist_chunk_idx st' + 1\<rparr>" junk]
    agree_report_timeout [OF assms(1) _ net, of junk] agree_after_wait [OF assms(1) _ net, of junk]
  by (cases ev) (auto simp: legacy_distribute_resume_def distribute_resume_def legacy_reports_posted_def reports_posted_def
      all_replied_def machine_updates)

lemma agree_report:
  assumes "machine st = machine st'" "data 0 = PKT_TYPE_BITMAP_REPORT"
  shows "machine (legacy_coordinator_report data datalen a st) = machine (handle_coordinator_report data datalen a st')"
proof -
  note f = agree_fields [OF assms(1)]
  have t: "br_type (bitmap_report_at data) = PKT_TYPE_BITMAP_REPORT" using assms(2) by (simp add: bitmap_report_at_def)
  show ?thesis
    using assms by (simp add: legacy_coordinator_report_def handle_coordinator_report_def handle_bitmap_report_def t Let_def
        find_session_node_by_addr_def all_replied_def f machine_updates pkt_type_defs split: option.split)
qed

text \<open>The legacy process never waits for the queue, and the other one does not either while the queue is
  ready.\<close>

lemma ready_never_waits:
  assumes net: "ota_downstream_queue_ready net" and pc: "pc st \<in> {Idle, PaceFirst, WaitReports, PaceRecover, Undefined}"
  shows "pc (distribute_resume net ev st) \<in> {Idle, PaceFirst, WaitReports, PaceRecover, Undefined}"
proof -
  have paced: "pc (send_paced net ms k s) \<in> {k, Undefined}" for ms k s
    by (auto simp: send_paced_def send_chunk_def Let_def say_def)
  have head: "pc (recovery_head net s) \<in> {Idle, WaitReports}" for s
    using net by (simp add: recovery_head_def finish_page_def send_page_end_def Let_def say_def)
  have rec: "pc (recover_pass net s) \<in> {Idle, WaitReports, PaceRecover, Undefined}" for s
    using net
  proof (induction net s rule: recover_pass.induct)
    case (1 net s)
    have "pc (recovery_head net s) \<in> {Idle, WaitReports}" and "pc (send_paced net ms k s) \<in> {k, Undefined}" for ms k
      using 1(2) by (simp_all add: recovery_head_def finish_page_def send_page_end_def send_paced_def send_chunk_def Let_def say_def)
    with 1 show ?case by (subst recover_pass.simps) auto
  qed
  have wait: "pc (after_wait net s) \<in> {Idle, WaitReports, PaceRecover, Undefined}" for s
    using rec by (simp add: after_wait_def finish_page_def Let_def say_def)
  have timeout: "pc (report_timeout net s) \<in> {Idle, WaitReports, PaceRecover, Undefined}" for s
    using wait net by (simp add: report_timeout_def resend_page_end_def send_page_end_def Let_def say_def)
  have first: "pc (first_pass net s) \<in> {Idle, PaceFirst, WaitReports, Undefined}" for s
    using head paced [of _ PaceFirst] net by (auto simp: first_pass_def first_pass_chunk_def)
  show ?thesis
    using pc first rec wait timeout
    by (auto simp: distribute_resume_def reports_posted_def split: dist_pc.splits proc_event.splits)
qed

text \<open>Runs of the legacy coordinator, over the events of \<open>coord_step\<close>; there is no admission timer.\<close>

definition legacy_step ::
    "(u8 list \<Rightarrow> u16 \<Rightarrow> u16) \<Rightarrow> net_env \<times> coord_event \<Rightarrow> u8 \<Rightarrow> coord_state \<Rightarrow> coord_state" where
  "legacy_step crc e junk st =
     (if pc st = Undefined then st
      else case e of
        (net, UartLine str) \<Rightarrow> legacy_handle_uart crc net junk str st
      | (net, Datagram sender data datalen) \<Rightarrow> legacy_coordinator_report data datalen sender st
      | (net, AdmissionTimer) \<Rightarrow> st
      | (net, Resume ev) \<Rightarrow> legacy_distribute_resume net junk ev st)"

fun page_event :: "net_env \<times> coord_event \<Rightarrow> bool" where
  "page_event (net, Resume ev) \<longleftrightarrow> ota_downstream_queue_ready net"
| "page_event (net, Datagram sender data datalen) \<longleftrightarrow> data 0 = PKT_TYPE_BITMAP_REPORT"
| "page_event (net, UartLine str) \<longleftrightarrow> False"
| "page_event (net, AdmissionTimer) \<longleftrightarrow> False"

lemma report_keeps_pc: "data 0 = PKT_TYPE_BITMAP_REPORT \<Longrightarrow> pc (handle_coordinator_report data datalen a st) = pc st"
  by (simp add: handle_coordinator_report_def handle_bitmap_report_def pkt_type_defs Let_def say_def split: option.split)

text \<open>C18. The two coordinators distribute a page in the same way. As long as the queue is ready whenever the
  process is resumed, any sequence of resumptions and bitmap reports takes the legacy coordinator and
  the coordinator of the boot-manager builds through the same states: the same chunk index, recovery
  round, retries, nodes, bitmaps and page, whatever the sending delays and the packets' bytes.\<close>

theorem legacy_same_machine:
  assumes "list_all (\<lambda>(e, junk). page_event e) evs" "pc st \<in> {Idle, PaceFirst, WaitReports, PaceRecover, Undefined}"
  shows "machine (fold (\<lambda>(e, junk). legacy_step crc e junk) evs st) = machine (fold (\<lambda>(e, junk). coord_step crc e) evs st)"
proof -
  have "machine (fold (\<lambda>(e, junk). legacy_step crc e junk) evs s) = machine (fold (\<lambda>(e, junk). coord_step crc e) evs s')"
    if "machine s = machine s'" "pc s' \<in> {Idle, PaceFirst, WaitReports, PaceRecover, Undefined}" for s s'
    using assms(1) that
  proof (induction evs arbitrary: s s')
    case (Cons ev evs)
    obtain net e junk where ev: "ev = ((net, e), junk)" by (metis surj_pair)
    have "machine (legacy_step crc (net, e) junk s) = machine (coord_step crc (net, e) s') \<and>
      pc (coord_step crc (net, e) s') \<in> {Idle, PaceFirst, WaitReports, PaceRecover, Undefined}"
    proof (cases "pc s' = Undefined")
      case True
      then show ?thesis using Cons.prems(2) agree_fields(1) [OF Cons.prems(2)] by (simp add: legacy_step_def coord_step_def)
    next
      case False
      then have d: "legacy_step crc (net, Resume r) junk s = legacy_distribute_resume net junk r s"
          "coord_step crc (net, Resume r) s' = distribute_resume net r s'"
        and g: "legacy_step crc (net, Datagram a d n) junk s = legacy_coordinator_report d n a s"
          "coord_step crc (net, Datagram a d n) s' = handle_coordinator_report d n a s'" for r a d n
        using agree_fields(1) [OF Cons.prems(2)] by (simp_all add: legacy_step_def coord_step_def)
      show ?thesis
      proof (cases e)
        case (Resume r)
        then have net: "ota_downstream_queue_ready net" using Cons.prems(1) by (simp add: ev)
        show ?thesis unfolding Resume d
          by (intro conjI agree_resume [OF Cons.prems(2) net Cons.prems(3)] ready_never_waits [OF net Cons.prems(3)])
      next
        case (Datagram a d n)
        then have t: "d 0 = PKT_TYPE_BITMAP_REPORT" using Cons.prems(1) by (simp add: ev)
        show ?thesis unfolding Datagram g report_keeps_pc [where data = d, OF t]
          by (intro conjI agree_report [where data = d, OF Cons.prems(2) t] Cons.prems(3))
      qed (use Cons.prems(1) in \<open>simp_all add: ev\<close>)
    qed
    from Cons.IH [OF _ this [THEN conjunct1] this [THEN conjunct2]] Cons.prems(1) show ?case by (simp add: ev)
  qed simp
  then show ?thesis using assms(2) by blast
qed

theorem legacy_same_machine_witness:
  "let evs = [((sample_routes, Resume TimerEvent), 0xAA), ((sample_routes, Resume TimerEvent), 0xBB)];
       st = sample_awaiting\<lparr>retry_count := 1, node_replied := [False, True] @ replicate 14 False\<rparr>
   in pc (fold (\<lambda>(e, junk). legacy_step py_crc16_data e junk) evs st) =
      pc (fold (\<lambda>(e, junk). coord_step py_crc16_data e) evs st)"
proof -
  let ?st = "sample_awaiting\<lparr>retry_count := 1, node_replied := [False, True] @ replicate 14 False\<rparr>"
  let ?evs = "[((sample_routes, Resume TimerEvent), 0xAA), ((sample_routes, Resume TimerEvent), 0xBB)]"
  have "list_all (\<lambda>(e, junk). page_event e) ?evs" "pc ?st \<in> {Idle, PaceFirst, WaitReports, PaceRecover, Undefined}"
    using sample_routes_ready by (simp_all add: ready_hop_def sample_awaiting_facts)
  from legacy_same_machine [OF this, of py_crc16_data] show ?thesis
    unfolding Let_def by (rule agree_fields(1))
qed

section \<open>The legacy packets\<close>

text \<open>The last byte of a byte string, left out.\<close>

lemma legacy_packet_eq: "legacy_chunk_packet junk st = chunk_packet (st\<lparr>ota_target_slot := junk\<rparr>)"
proof -
  have l: "chunk_len (st\<lparr>ota_target_slot := junk\<rparr>) = chunk_len st" "chunk_abs_offset (st\<lparr>ota_target_slot := junk\<rparr>) = chunk_abs_offset st"
    by (simp_all add: chunk_len_def chunk_abs_offset_def)
  show ?thesis
    by (rule fw_packet.equality)
      (simp_all add: chunk_packet_def l legacy_packet_fields,
        simp_all add: legacy_chunk_packet_def chunk_len_def chunk_abs_offset_def Let_def cong: if_cong)
qed

lemma length_fw_packet_bytes: "length (fw_packet_bytes p) = 72"
  by (simp add: fw_packet_bytes_def)

text \<open>A legacy DATA datagram is the complete datagram of its chunk without the last byte. The packet has
  a header of eight bytes, the code sends \<open>7 + len\<close> bytes of it; the datagram still announces the whole
  length. The target byte is the uninitialised one.\<close>

theorem legacy_datagram_short:
  assumes ok: "page_ok st" "running_ok st" and k: "dist_chunk_idx st < total_chunks st" "room_above st"
    and hop: "line_next_hop net = Some hop"
  shows "\<exists>ticks. effects (legacy_send_paced net junk q st) = effects st @
    [SendTo hop (butlast (data_datagram junk (unat (page_start_offset st) + 64 * dist_chunk_idx st)
       (take 64 (drop (64 * dist_chunk_idx st) (page_bytes st))))), SetTimer DistTimer ticks]"
proof -
  let ?s = "st\<lparr>ota_target_slot := junk\<rparr>" and ?n = "unat (chunk_len st)"
  have same: "?s\<lparr>dist_chunk_idx := dist_chunk_idx st\<rparr> = ?s" "chunk_len ?s = chunk_len st"
    by (simp_all add: chunk_len_def chunk_abs_offset_def)
  have oks: "page_ok ?s" "running_ok ?s" using ok by (simp_all add: coord_inv_defs running_ok_def)
  have e: "chunk_bytes ?s (dist_chunk_idx st) = chunk_datagram ?s (dist_chunk_idx st)"
    using chunk_bytes_eq [OF oks] k by (simp add: room_above_def)
  have safe: "?n \<le> 64" "dist_chunk_idx st * 64 + ?n \<le> PAGE_SIZE" using chunk_in_buffers [OF ok k(1)] by simp_all
  have "take (7 + ?n) (fw_packet_bytes (chunk_packet ?s)) = butlast (take (8 + ?n) (fw_packet_bytes (chunk_packet ?s)))"
    using safe(1) by (subst butlast_take) (simp_all add: length_fw_packet_bytes)
  also have "take (8 + ?n) (fw_packet_bytes (chunk_packet ?s)) = chunk_datagram ?s (dist_chunk_idx st)"
    using e by (simp add: chunk_bytes_def Let_def same FW_PACKET_HEADER_LEN_def)
  finally have bytes: "take (7 + ?n) (fw_packet_bytes (legacy_chunk_packet junk st)) =
      butlast (data_datagram junk (unat (page_start_offset st) + 64 * dist_chunk_idx st)
        (take 64 (drop (64 * dist_chunk_idx st) (page_bytes st))))"
    by (simp add: legacy_packet_eq chunk_datagram_def page_bytes_def)
  show ?thesis
    using safe bytes hop
    by (simp add: legacy_send_paced_def Let_def legacy_packet_fields send_packet_def send_to_all_def say_def)
qed

theorem legacy_datagram_short_witness:
  "\<exists>ticks. effects (legacy_send_paced sample_routes 0xAA PaceFirst (sample_awaiting\<lparr>dist_chunk_idx := 1\<rparr>)) =
    [SendTo (sample_ip 2) (PKT_TYPE_DATA # le32 64 @ le16 32 @ 0xAA # replicate 31 0), SetTimer DistTimer ticks]"
proof -
  let ?st = "sample_awaiting\<lparr>dist_chunk_idx := 1\<rparr>"
  have ok: "page_ok ?st" "running_ok ?st" "dist_chunk_idx ?st < total_chunks ?st" "room_above ?st" "line_next_hop sample_routes = Some (sample_ip 2)"
    using sample_routes_ready
    by (simp_all add: coord_inv_defs sample_awaiting_def coord_initial_def list_all_iff PAGE_SIZE_def MAX_NODES_def chunk_count_def
        room_above_def ready_hop_def running_ok_def OTA_MAX_PAGE_RECOVERY_ROUNDS_def)
  have f: "page_start_offset sample_awaiting = 0" "effects sample_awaiting = []"
    "page_bytes (sample_awaiting\<lparr>dist_chunk_idx := Suc 0\<rparr>) = replicate 96 0"
    by (simp_all add: sample_awaiting_def coord_initial_def page_bytes_def PAGE_SIZE_def)
  have b: "data_datagram 0xAA 64 (replicate 32 0) = PKT_TYPE_DATA # le32 64 @ le16 32 @ 0xAA # replicate 32 0"
    by (simp add: data_datagram_def)
  have "butlast (data_datagram 0xAA 64 (replicate 32 0)) = PKT_TYPE_DATA # le32 64 @ le16 32 @ 0xAA # replicate 31 0"
    unfolding b by (simp add: butlast_append butlast_conv_take)
  with legacy_datagram_short [where junk = "0xAA" and q = PaceFirst, OF ok] show ?thesis by (simp add: f)
qed

end
