(* ===== verification/Legacy_Flow.thy ===== *)
theory Legacy_Flow
  imports Legacy_Sensor Legacy_Coordinator Rollouts
begin

text \<open>
  What the legacy node does with what the legacy coordinator sends: how a chunk is stored, what a
  PAGE_END checks and commits, and what happens to chunks whose datagrams lack their last byte.
\<close>

section \<open>Storing a chunk\<close>

lemma legacy_forward_fields [simp]:
  "l_flash (legacy_forward net f raw st) = l_flash st" "l_page_bitmap (legacy_forward net f raw st) = l_page_bitmap st"
  "l_current_rx_page_offset (legacy_forward net f raw st) = l_current_rx_page_offset st"
  "l_running_fw_crc (legacy_forward net f raw st) = l_running_fw_crc st"
  "l_current_file_size (legacy_forward net f raw st) = l_current_file_size st"
  by (simp_all add: legacy_forward_def legacy_emit_def)

lemma legacy_print_fields [simp]:
  "l_flash (legacy_print_page_bitmap net st) = l_flash st" "l_page_bitmap (legacy_print_page_bitmap net st) = l_page_bitmap st"
  "l_current_rx_page_offset (legacy_print_page_bitmap net st) = l_current_rx_page_offset st"
  "l_running_fw_crc (legacy_print_page_bitmap net st) = l_running_fw_crc st"
  "l_current_file_size (legacy_print_page_bitmap net st) = l_current_file_size st"
  by (simp_all add: legacy_print_page_bitmap_def legacy_schedule_bitmap_send_def legacy_emit_def)

lemma legacy_chunk_stored:
  assumes ok: "ext_flash_ok (le_flash E) cont is_open" and rel: "ext_never_fails (le_flash E) is_open"
    and d: "holds_bytes data (data_datagram t (4096 * k + 64 * i) bs)" "\<not> datalen < 7"
    and bs: "0 < length bs" "length bs \<le> 64" "i < 64" "4096 * Suc k \<le> 2 ^ 32"
    and cur: "l_current_rx_page_offset st = of_nat (4096 * k)" and new: "\<not> bitmap_bit (l_page_bitmap st) i"
  shows "cont (l_flash (legacy_udp_rx E net sender data datalen st)) =
      mem_program (of_nat (4096 * k + 64 * i)) bs (cont (l_flash st))"
    "l_page_bitmap (legacy_udp_rx E net sender data datalen st) = bitmap_set i (l_page_bitmap st)"
proof -
  let ?pkt = "fw_packet_at data"
  note r = data_datagram_read [OF d(1)]
  have off: "unat (of_nat (4096 * k + 64 * i) :: u32) = 4096 * k + 64 * i" by (rule unat_of_nat_u32) (use bs in simp)
  have m: "pk_offset ?pkt mod EXT_FLASH_ERASE_SECTOR_SIZE = of_nat (64 * i)"
  proof (rule word_unat_eq_iff [THEN iffD2])
    have "unat (pk_offset ?pkt mod EXT_FLASH_ERASE_SECTOR_SIZE) = (4096 * k + 64 * i) mod 4096"
      by (simp add: r(2) off EXT_FLASH_ERASE_SECTOR_SIZE_def unat_mod_distrib del: of_nat_add of_nat_mult)
    also have "\<dots> = 64 * i" using bs(3) by simp
    also have "\<dots> = unat (of_nat (64 * i) :: u32)" by (rule unat_of_nat_u32 [symmetric]) (use bs(3) in simp)
    finally show "unat (pk_offset ?pkt mod EXT_FLASH_ERASE_SECTOR_SIZE) = unat (of_nat (64 * i) :: u32)" .
  qed
  have page: "pk_offset ?pkt - pk_offset ?pkt mod EXT_FLASH_ERASE_SECTOR_SIZE = l_current_rx_page_offset st"
    unfolding m by (simp add: r(2) cur)
  have idx: "unat (pk_offset ?pkt mod EXT_FLASH_ERASE_SECTOR_SIZE) div 64 = i"
    unfolding m by (subst unat_of_nat_u32) (use bs(3) in simp_all)
  have np: "l_current_rx_page_offset st \<noteq> NO_PAGE"
    unfolding cur by (rule page_not_no_page)
  have len: "unat (pk_length ?pkt) = length bs" unfolding r(3) by (subst length_le_64_u16) (use bs in simp_all)
  have pos: "0 < pk_length ?pkt" using len bs(1) by (simp add: word_less_nat_alt)
  have bytes: "buf_bytes (pk_data ?pkt) 0 (length bs) = bs"
    using r(5) by (intro nth_equalityI) (simp_all add: buf_bytes_def)
  define f where "f \<longleftrightarrow> packet_should_forward net sender"
  define raw where "raw = buf_bytes data 0 (unat datalen)"
  have step: "legacy_udp_rx E net sender data datalen st = legacy_store_chunk E net ?pkt raw f st"
    using d(2) r(1) page np
    by (simp add: legacy_udp_rx_def Let_def legacy_handle_data_def legacy_select_page_def pkt_type_defs f_def raw_def
        packet_should_forward_def is_leaf_node_def)
  obtain d1 where o: "ext_flash_open (le_flash E) (l_flash st) = (True, d1)" "is_open d1" using ext_opens [OF ok rel] by blast
  obtain w d2 where w: "ext_flash_write (le_flash E) (pk_offset ?pkt) bs d1 = (w, d2)" by fastforce
  have wt: "w" using rel o(2) w unfolding ext_never_fails_def by (metis fst_conv)
  show "cont (l_flash (legacy_udp_rx E net sender data datalen st)) =
      mem_program (of_nat (4096 * k + 64 * i)) bs (cont (l_flash st))"
    unfolding step using bs(3) new pos o(1) w wt ext_open(1) [OF ok o(1)] ext_write(3) [OF ok w] ext_close(1) [OF ok]
    by (simp add: legacy_store_chunk_def Let_def idx len bytes) (simp add: r(2))
  show "l_page_bitmap (legacy_udp_rx E net sender data datalen st) = bitmap_set i (l_page_bitmap st)"
    unfolding step using bs(3) new pos o(1) by (simp add: legacy_store_chunk_def Let_def idx)
qed

section \<open>A chunk without its last byte\<close>

lemma short_datagram_read:
  assumes h: "holds_bytes data (butlast (data_datagram t off bs))" and bs: "bs \<noteq> []"
  shows "holds_bytes data (data_datagram t off (butlast bs @ [data (7 + length bs)]))"
proof -
  let ?x = "butlast (data_datagram t off bs)"
  have len: "length ?x = 7 + length bs" using bs by (simp add: data_datagram_def)
  have "holds_bytes data (?x @ [data (length ?x)])"
    using h by (auto simp: holds_bytes_def nth_append less_Suc_eq)
  moreover have "?x @ [data (length ?x)] = data_datagram t off (butlast bs @ [data (7 + length bs)])"
    using bs unfolding len by (simp add: data_datagram_def butlast_append)
  ultimately show ?thesis by simp
qed

text \<open>C32. A legacy node loses the last byte of every chunk. It receives the short datagram of a chunk it has
  not stored yet, for an erased part of its current page: it stores the chunk and marks it as
  received, but the last byte in the flash is the byte that follows the datagram in the receive
  buffer, whatever the page contains.\<close>

theorem legacy_last_byte_lost:
  assumes ok: "ext_flash_ok (le_flash E) cont is_open" and rel: "ext_never_fails (le_flash E) is_open"
    and d: "holds_bytes data (butlast (data_datagram junk (4096 * k + 64 * i) bs))" "unat datalen = 7 + length bs"
    and bs: "0 < length bs" "length bs \<le> 64" "i < 64" "4096 * Suc k \<le> 2 ^ 32"
    and st: "l_current_rx_page_offset st = of_nat (4096 * k)" "\<not> bitmap_bit (l_page_bitmap st) i" "length (l_page_bitmap st) = 8"
    and erased: "\<And>j. j < length bs \<Longrightarrow> cont (l_flash st) (of_nat (4096 * k + 64 * i) + of_nat j) = 0xFF"
    and st': "st' = legacy_udp_rx E net sender data datalen st"
  shows "bitmap_bit (l_page_bitmap st') i \<and>
    (\<forall>j < length bs - 1. cont (l_flash st') (of_nat (4096 * k + 64 * i) + of_nat j) = bs ! j) \<and>
    cont (l_flash st') (of_nat (4096 * k + 64 * i) + of_nat (length bs - 1)) = data (unat datalen)"
proof -
  have ne: "bs \<noteq> []" using bs(1) by auto
  let ?bs = "butlast bs @ [data (7 + length bs)]"
  have len: "length ?bs = length bs" using bs(1) by simp
  have dl: "\<not> datalen < 7" using d(2) by (simp add: word_less_nat_alt)
  note c = legacy_chunk_stored [OF ok rel short_datagram_read [OF d(1) ne] dl _ _ bs(3,4) st(1,2), of net sender, folded st',
      unfolded len, OF bs(1,2)]
  have at: "cont (l_flash st') (of_nat (4096 * k + 64 * i) + of_nat j) = ?bs ! j" if j: "j < length bs" for j
  proof -
    have j32: "j < 2 ^ 32" using j bs(2) by simp
    have "in_region (of_nat (4096 * k + 64 * i)) (length ?bs) (of_nat (4096 * k + 64 * i) + of_nat j)"
      unfolding len by (rule in_region_of_nat [OF j j32])
    from mem_program_erased [where m = "cont (l_flash st)", OF this erased [OF j]] show ?thesis
      unfolding c(1) by (simp add: unat_of_nat_u32 [OF j32] del: of_nat_add of_nat_mult)
  qed
  have "bitmap_bit (l_page_bitmap st') i" unfolding c(2) using st(3) bs(3) by (simp add: bitmap_bit_set)
  moreover have "?bs ! j = bs ! j" if "j < length bs - 1" for j using that by (simp add: nth_append nth_butlast)
  moreover have "?bs ! (length bs - 1) = data (unat datalen)" by (simp add: nth_append d(2))
  ultimately show ?thesis using at bs(1) by auto
qed

section \<open>PAGE_END\<close>

lemma legacy_crc_loop_reads:
  assumes ok: "ext_flash_ok (le_flash E) cont is_open" and rel: "ext_never_fails (le_flash E) is_open"
    and crc: "crc16_laws (le_crc16 E)" and o: "is_open d"
  shows "\<exists>d'. legacy_crc_loop E p n i buf acc fw d =
      (le_crc16 E (mem_read (cont d) (p + of_nat i) (n - i)) acc, le_crc16 E (mem_read (cont d) (p + of_nat i) (n - i)) fw, d') \<and>
    cont d' = cont d"
  using o
proof (induction "n - i" arbitrary: i buf acc fw d rule: less_induct)
  case less
  show ?case
  proof (cases "i < n")
    case False
    then show ?thesis by (simp add: legacy_crc_loop.simps mem_read_def crc16_laws.crc_nil [OF crc])
  next
    case True
    define chunk where "chunk = (if n - i > 64 then 64 else n - i)"
    obtain r d1 where r: "ext_flash_read (le_flash E) (p + of_nat i) chunk d = (r, d1)" by fastforce
    then obtain bs where bs: "r = Some bs" using rel less.prems unfolding ext_never_fails_def by (metis fst_conv not_None_eq)
    note e = ext_read [OF ok r]
    have bs': "bs = mem_read (cont d) (p + of_nat i) chunk" using e(3) bs by simp
    then have len: "length bs = chunk" by simp
    have rd: "mem_read (cont d) (p + of_nat i) (n - i) = bs @ mem_read (cont d) (p + of_nat (i + 64)) (n - (i + 64))"
    proof (cases "n - i > 64")
      case True
      then show ?thesis
        using mem_read_split [of 64 "n - i" "cont d" "p + of_nat i"] by (simp add: bs' chunk_def add.assoc)
    next
      case False
      then show ?thesis by (simp add: bs' chunk_def mem_read_def)
    qed
    have "legacy_crc_loop E p n i buf acc fw d =
        legacy_crc_loop E p n (i + 64) (bs @ drop chunk buf) (le_crc16 E bs acc) (le_crc16 E bs fw) d1"
      using True r len by (subst legacy_crc_loop.simps) (simp add: chunk_def [symmetric] Let_def bs)
    moreover have "is_open d1" using e(2) less.prems by simp
    ultimately show ?thesis
      using less.hyps [of "i + 64" d1 "bs @ drop chunk buf" "le_crc16 E bs acc" "le_crc16 E bs fw"] True
      by (simp add: rd crc16_laws.crc_append [OF crc] e(1))
  qed
qed

text \<open>A PAGE_END for the current page, on a flash that works.\<close>

lemma legacy_page_end_step:
  assumes ok: "ext_flash_ok (le_flash E) cont is_open" and rel: "ext_never_fails (le_flash E) is_open"
    and crc: "crc16_laws (le_crc16 E)"
    and d: "holds_bytes data (page_end_datagram t (l_current_rx_page_offset st) c)" "\<not> datalen < 7"
    and bs: "bs = mem_read (cont (l_flash st)) (l_current_rx_page_offset st) (unat (legacy_page_len st))"
    and st': "st' = legacy_udp_rx E net sender data datalen st"
  shows "cont (l_flash st') = cont (l_flash st) \<and> l_current_rx_page_offset st' = l_current_rx_page_offset st \<and>
    l_current_file_size st' = l_current_file_size st \<and>
    (if le_crc16 E bs 0 = c
     then l_running_fw_crc st' = le_crc16 E bs (l_running_fw_crc st) \<and> l_page_bitmap st' = l_page_bitmap st
     else l_running_fw_crc st' = l_running_fw_crc st \<and> l_page_bitmap st' = replicate 8 0)"
proof -
  let ?pkt = "fw_packet_at data"
  note r = page_end_datagram_read [OF d(1)]
  define f where "f \<longleftrightarrow> packet_should_forward net sender"
  define raw where "raw = buf_bytes data 0 (unat datalen)"
  have step: "st' = legacy_handle_page_end E net ?pkt raw f st"
    using d(2) r(1) by (simp add: st' legacy_udp_rx_def Let_def pkt_type_defs f_def raw_def packet_should_forward_def is_leaf_node_def)
  define s where "s = legacy_forward net f raw st"
  have f: "l_flash s = l_flash st" "l_current_rx_page_offset s = l_current_rx_page_offset st" "l_page_bitmap s = l_page_bitmap st"
    "l_running_fw_crc s = l_running_fw_crc st" "l_current_file_size s = l_current_file_size st"
    by (simp_all add: s_def)
  have page: "legacy_page_end_page ?pkt s = Some s" by (simp add: legacy_page_end_page_def r(2) s_def)
  have len: "legacy_page_len s = legacy_page_len st" by (simp add: legacy_page_len_def s_def)
  obtain d1 where o: "ext_flash_open (le_flash E) (l_flash st) = (True, d1)" "is_open d1" using ext_opens [OF ok rel] by blast
  have c1: "cont d1 = cont (l_flash st)" by (rule ext_open(1) [OF ok o(1)])
  from legacy_crc_loop_reads [OF ok rel crc o(2), of "l_current_rx_page_offset st" "unat (legacy_page_len st)" 0 "le_buf E" 0
      "l_running_fw_crc st"]
  obtain d2 where "legacy_crc_loop E (l_current_rx_page_offset st) (unat (legacy_page_len st)) 0 (le_buf E) 0 (l_running_fw_crc st) d1 =
      (le_crc16 E bs 0, le_crc16 E bs (l_running_fw_crc st), d2)" and c2: "cont d2 = cont d1"
    by (auto simp: bs c1)
  then show ?thesis
    unfolding step legacy_handle_page_end_def Let_def s_def [symmetric] page option.case len f(1,2,4) o(1)
    by (simp add: r(3) f c1 c2 ext_close(1) [OF ok])
qed

text \<open>C33. A legacy PAGE_END is counted every time it is received. The page's checksum is added to the
  cumulative one as often as the PAGE_END arrives: nothing remembers that the page was committed.
  After \<open>n\<close> PAGE_ENDs of a page whose contents are right, the cumulative checksum is the one of
  \<open>n\<close> copies of the page.\<close>

theorem legacy_page_end_repeated:
  assumes ok: "ext_flash_ok (le_flash E) cont is_open" and rel: "ext_never_fails (le_flash E) is_open"
    and crc: "crc16_laws (le_crc16 E)"
    and d: "holds_bytes data (page_end_datagram t (l_current_rx_page_offset st) (le_crc16 E bs 0))" "\<not> datalen < 7"
    and bs: "bs = mem_read (cont (l_flash st)) (l_current_rx_page_offset st) (unat (legacy_page_len st))"
  shows "l_running_fw_crc ((legacy_udp_rx E net sender data datalen ^^ n) st) =
    le_crc16 E (concat (replicate n bs)) (l_running_fw_crc st)"
proof -
  let ?f = "legacy_udp_rx E net sender data datalen"
  have "cont (l_flash ((?f ^^ n) st)) = cont (l_flash st) \<and> l_current_rx_page_offset ((?f ^^ n) st) = l_current_rx_page_offset st \<and>
    l_current_file_size ((?f ^^ n) st) = l_current_file_size st \<and>
    l_running_fw_crc ((?f ^^ n) st) = le_crc16 E (concat (replicate n bs)) (l_running_fw_crc st)"
  proof (induction n)
    case 0
    show ?case by (simp add: crc16_laws.crc_nil [OF crc])
  next
    case (Suc n)
    let ?s = "(?f ^^ n) st"
    have c: "concat (replicate (Suc n) bs) = concat (replicate n bs) @ bs" by (induction n) simp_all
    have b: "bs = mem_read (cont (l_flash ?s)) (l_current_rx_page_offset ?s) (unat (legacy_page_len ?s))"
      using Suc bs by (simp add: legacy_page_len_def)
    have h: "holds_bytes data (page_end_datagram t (l_current_rx_page_offset ?s) (le_crc16 E bs 0))" using d(1) Suc by simp
    from legacy_page_end_step [OF ok rel crc h d(2) b refl, of net sender] Suc
    show ?case unfolding c crc16_laws.crc_append [OF crc] by simp
  qed
  then show ?thesis by blast
qed

section \<open>Small inputs\<close>

text \<open>The short datagram of a one-chunk page, in a receive buffer whose next byte is \<open>0x77\<close>; a node with
  an erased flash, and one that holds the five bytes.\<close>

definition sample_bytes :: "u8 list" where "sample_bytes = [1, 2, 3, 4, 5]"

definition sample_legacy_env :: "ext_dev legacy_env" where
  "sample_legacy_env = \<lparr>le_flash = nor_ext_flash, le_crc16 = py_crc16_data, le_buf = replicate 64 0\<rparr>"

definition sample_legacy :: "mem \<Rightarrow> ext_dev legacy_state" where
  "sample_legacy m =
     (legacy_initial \<lparr>ed_mem = m, ed_open = False\<rparr>)\<lparr>l_current_file_size := 5, l_current_rx_page_offset := 0\<rparr>"

definition sample_short :: rx_buf where
  "sample_short i = (if i < 12 then butlast (data_datagram 0xAA 0 sample_bytes) ! i else 0x77)"

lemma sample_legacy_facts:
  "ext_flash_ok (le_flash sample_legacy_env) ed_mem ed_open" "ext_never_fails (le_flash sample_legacy_env) ed_open"
  "crc16_laws (le_crc16 sample_legacy_env)" "le_crc16 sample_legacy_env = py_crc16_data"
  "l_current_rx_page_offset (sample_legacy m) = 0" "ed_mem (l_flash (sample_legacy m)) = m"
  "l_page_bitmap (sample_legacy m) = replicate 8 0" "l_running_fw_crc (sample_legacy m) = 0" "unat (legacy_page_len (sample_legacy m)) = 5"
  by (simp_all add: sample_legacy_env_def nor_ext_flash_ok nor_ext_never_fails py.crc16_laws_axioms sample_legacy_def
      legacy_initial_def legacy_page_len_def PAGE_SIZE_def)

theorem legacy_last_byte_lost_witness:
  "let st' = legacy_udp_rx sample_legacy_env sample_net (sample_ip 1) sample_short 12 (sample_legacy (\<lambda>_. 0xFF))
   in ed_mem (l_flash st') 3 = 4 \<and> ed_mem (l_flash st') 4 = 0x77"
proof -
  have len: "length (butlast (data_datagram 0xAA (4096 * 0 + 64 * 0) sample_bytes)) = 12" "0 < length sample_bytes"
    "length sample_bytes \<le> 64" "unat (12 :: u16) = 7 + length sample_bytes"
    by (simp_all add: data_datagram_def sample_bytes_def)
  then have h: "holds_bytes sample_short (butlast (data_datagram 0xAA (4096 * 0 + 64 * 0) sample_bytes))"
    by (simp add: holds_bytes_def sample_short_def)
  have st: "l_current_rx_page_offset (sample_legacy (\<lambda>_. 0xFF)) = of_nat (4096 * 0)"
    "\<not> bitmap_bit (l_page_bitmap (sample_legacy (\<lambda>_. 0xFF))) 0" "length (l_page_bitmap (sample_legacy (\<lambda>_. 0xFF))) = 8"
    by (simp_all add: sample_legacy_facts bitmap_bit_def)
  have er: "\<And>j. j < length sample_bytes \<Longrightarrow> ed_mem (l_flash (sample_legacy (\<lambda>_. 0xFF))) (of_nat (4096 * 0 + 64 * 0) + of_nat j) = 0xFF"
    by (simp add: sample_legacy_facts)
  note l = legacy_last_byte_lost [OF sample_legacy_facts(1,2) h len(4,2,3) _ _ st er refl, of sample_net "sample_ip 1"]
  from l have "\<forall>j < 4. ed_mem (l_flash (legacy_udp_rx sample_legacy_env sample_net (sample_ip 1) sample_short 12 (sample_legacy (\<lambda>_. 0xFF))))
      (of_nat j) = sample_bytes ! j"
    "ed_mem (l_flash (legacy_udp_rx sample_legacy_env sample_net (sample_ip 1) sample_short 12 (sample_legacy (\<lambda>_. 0xFF)))) 4 = sample_short 12"
    by (simp_all add: sample_bytes_def)
  from this(1) [rule_format, of 3] this(2) show ?thesis by (simp add: sample_short_def sample_bytes_def Let_def)
qed

theorem legacy_page_end_repeated_witness:
  "let f = legacy_udp_rx sample_legacy_env sample_net (sample_ip 1) ((!) (page_end_datagram 0 0 (py_crc16_data sample_bytes 0))) 8;
       st = sample_legacy (\<lambda>x. ucast x + 1)
   in l_running_fw_crc ((f ^^ 1) st) = py_crc16_data sample_bytes 0 \<and> l_running_fw_crc ((f ^^ 2) st) \<noteq> py_crc16_data sample_bytes 0"
proof -
  let ?st = "sample_legacy (\<lambda>x. ucast x + 1)"
  have bs: "sample_bytes = mem_read (ed_mem (l_flash ?st)) (l_current_rx_page_offset ?st) (unat (legacy_page_len ?st))"
  proof -
    have "[0..<5] = [0, 1, 2, 3, 4 :: nat]" by (simp add: upt_rec)
    then show ?thesis by (simp add: sample_legacy_facts mem_read_def sample_bytes_def)
  qed
  have h: "holds_bytes ((!) (page_end_datagram 0 0 (py_crc16_data sample_bytes 0)))
      (page_end_datagram 0 (l_current_rx_page_offset ?st) (le_crc16 sample_legacy_env sample_bytes 0))"
    by (simp add: sample_legacy_facts holds_bytes_self)
  have "\<not> (8 :: u16) < 7" by simp
  note l = legacy_page_end_repeated [OF sample_legacy_facts(1-3) h this bs, of _ sample_net "sample_ip 1"]
  have "py_crc16_data sample_bytes 0 \<noteq> 0"
    by (simp add: sample_bytes_def py_crc16_data_def crc16_add_def crc16_step_def Let_def)
  then have "py_crc16_data (sample_bytes @ sample_bytes) 0 \<noteq> py_crc16_data sample_bytes 0"
    by (simp only: py.crc_append py_crc16_inject) simp
  moreover have "concat (replicate 1 sample_bytes) = sample_bytes" "concat (replicate 2 sample_bytes) = sample_bytes @ sample_bytes"
    by (simp_all add: numeral_2_eq_2)
  ultimately show ?thesis using l [of 1] l [of 2] unfolding Let_def by (simp only: sample_legacy_facts(4,8)) simp
qed

end
