(* ===== verification/Node.thy ===== *)
theory Node
  imports Sessions Coordinator
begin

text \<open>
  A whole node, \<open>node.c\<close>: the process that every device runs, which takes one of the two roles by the
  node id, and the events that reach the role's code: lines on the serial port, datagrams, expired
  timers and the posted event. \<open>N\<close> holds what the build fixes: the node id, whether a boot manager is
  configured (\<open>ne_bim\<close>) with its boot check and confirmation, and the sensor's parameters.
\<close>

section \<open>The process\<close>

datatype node_pc = WaitRoutes | CoordinatorLoop | SensorLoop

record 's node_env =
  ne_id :: u16
  ne_bim :: bool
  ne_boot_check :: "'s \<Rightarrow> boot_outcome \<times> 's"
  ne_confirm :: "'s \<Rightarrow> 's"
  ne_sensor :: "'s sensor_env"

record 's node_state =
  np_pc :: node_pc
  np_coord :: coord_state
  np_sensor :: "'s sensor_state"
  np_effects :: "effect list"
  np_posts :: "string list"

text \<open>One test of the loop that waits for the first route.\<close>

definition node_wait_routes :: "net_env \<Rightarrow> 's node_state \<Rightarrow> 's node_state" where
  "node_wait_routes net st = st\<lparr>np_pc := (if ota_coordinator_has_routes net then CoordinatorLoop else WaitRoutes)\<rparr>"

text \<open>The process up to its first blocking point. A boot check that does not return stops it.\<close>

definition node_start :: "'s node_env \<Rightarrow> net_env \<Rightarrow> coord_state \<Rightarrow> 's sensor_state \<Rightarrow> boot_outcome \<times> 's node_state" where
  "node_start N net c s =
     (if ne_id N = 1 then
        (BootContinues,
         node_wait_routes net
           \<lparr>np_pc = WaitRoutes, np_coord = c, np_sensor = s, np_effects = [SetTimer RouteTimer (CLOCK_SECOND net)],
            np_posts = []\<rparr>)
      else
        case (if ne_bim N then ne_boot_check N (backend s) else (BootContinues, backend s)) of
          (outcome, b) \<Rightarrow>
            (outcome,
             \<lparr>np_pc = SensorLoop, np_coord = c, np_sensor = s\<lparr>backend := b\<rparr>,
              np_effects = (if ne_bim N then [SetTimer StabilityTimer (CLOCK_SECOND net * 30)] else []), np_posts = []\<rparr>))"

text \<open>A line on the coordinator's serial port. The commands of the update start with \<open>FW:\<close>; any other
  line restarts a stopped shell and is posted to it again. \<open>None\<close> is the null pointer.\<close>

definition node_serial_line :: "'s node_env \<Rightarrow> net_env \<Rightarrow> string option \<Rightarrow> 's node_state \<Rightarrow> 's node_state" where
  "node_serial_line N net line st =
     (if np_pc st \<noteq> CoordinatorLoop then st
      else case line of
        None \<Rightarrow> st
      | Some str \<Rightarrow>
          if take 3 str = ''FW:'' then
            st\<lparr>np_coord := ota_coordinator_handle_uart (crc16_data (ne_sensor N)) net str (np_coord st)\<rparr>
          else if \<not> shell_running (np_coord st) then
            st\<lparr>np_coord := (np_coord st)\<lparr>shell_running := True\<rparr>, np_posts := np_posts st @ [str]\<rparr>
          else st)"

text \<open>\<open>udp_rx_callback\<close>, by role.\<close>

definition udp_rx_callback :: "'s node_env \<Rightarrow> net_env \<Rightarrow> ipaddr \<Rightarrow> rx_buf \<Rightarrow> u16 \<Rightarrow> 's node_state \<Rightarrow> 's node_state" where
  "udp_rx_callback N net sender_addr data datalen st =
     (if ne_id N = 1 then st\<lparr>np_coord := handle_coordinator_report data datalen sender_addr (np_coord st)\<rparr>
      else st\<lparr>np_sensor := sensor_udp_rx (ne_sensor N) net sender_addr data datalen (np_sensor st)\<rparr>)"

text \<open>The timers of the process itself.\<close>

definition node_route_timer :: "net_env \<Rightarrow> 's node_state \<Rightarrow> 's node_state" where
  "node_route_timer net st =
     (if np_pc st = WaitRoutes
      then node_wait_routes net (st\<lparr>np_effects := np_effects st @ [SetTimer RouteTimer (CLOCK_SECOND net)]\<rparr>)
      else st)"

definition node_stability_timer :: "'s node_env \<Rightarrow> 's node_state \<Rightarrow> 's node_state" where
  "node_stability_timer N st =
     (if np_pc st = SensorLoop \<and> ne_bim N
      then st\<lparr>np_sensor := (np_sensor st)\<lparr>backend := ne_confirm N (backend (np_sensor st))\<rparr>\<rparr>
      else st)"

section \<open>Events\<close>

datatype node_event =
    SerialLine "string option"
  | Received ipaddr rx_buf u16
  | BitmapPosted
  | Expired timer

fun node_timer :: "'s node_env \<Rightarrow> net_env \<Rightarrow> timer \<Rightarrow> 's node_state \<Rightarrow> 's node_state" where
  "node_timer N net ReportTimer st = st\<lparr>np_sensor := send_report_callback net (np_sensor st)\<rparr>"
| "node_timer N net LeafStabilityTimer st = st\<lparr>np_sensor := leaf_stability_callback (ne_sensor N) net (np_sensor st)\<rparr>"
| "node_timer N net StagedRebootTimer st = st\<lparr>np_sensor := staged_reboot_callback (np_sensor st)\<rparr>"
| "node_timer N net StartAdmissionTimer st = st\<lparr>np_coord := start_admission_expired (np_coord st)\<rparr>"
| "node_timer N net DistTimer st = st\<lparr>np_coord := distribute_resume net TimerEvent (np_coord st)\<rparr>"
| "node_timer N net RouteTimer st = node_route_timer net st"
| "node_timer N net StabilityTimer st = node_stability_timer N st"

fun node_step :: "'s node_env \<Rightarrow> net_env \<Rightarrow> node_event \<Rightarrow> 's node_state \<Rightarrow> 's node_state" where
  "node_step N net (SerialLine line) st = node_serial_line N net line st"
| "node_step N net (Received sender data datalen) st = udp_rx_callback N net sender data datalen st"
| "node_step N net BitmapPosted st = st\<lparr>np_coord := distribute_resume net BitmapEvent (np_coord st)\<rparr>"
| "node_step N net (Expired t) st = node_timer N net t st"

text \<open>An event can happen when the code has asked for it: a timer that was set by the code it belongs to, an
  event that was posted.\<close>

fun timer_log :: "timer \<Rightarrow> 's node_state \<Rightarrow> effect list" where
  "timer_log StartAdmissionTimer st = session_state.effects (np_coord st)"
| "timer_log DistTimer st = session_state.effects (np_coord st)"
| "timer_log RouteTimer st = np_effects st"
| "timer_log StabilityTimer st = np_effects st"
| "timer_log t st = sensor_state.effects (np_sensor st)"

fun event_possible :: "node_event \<Rightarrow> 's node_state \<Rightarrow> bool" where
  "event_possible (SerialLine line) st \<longleftrightarrow> True"
| "event_possible (Received sender data datalen) st \<longleftrightarrow> True"
| "event_possible BitmapPosted st \<longleftrightarrow> PostBitmapReceived \<in> set (session_state.effects (np_coord st))"
| "event_possible (Expired t) st \<longleftrightarrow> (\<exists>ticks. SetTimer t ticks \<in> set (timer_log t st))"

definition node_resets :: "'s node_state \<Rightarrow> bool" where
  "node_resets st \<longleftrightarrow> SystemReset \<in> set (sensor_state.effects (np_sensor st))"

text \<open>The states a node reaches after a boot, in networks \<open>P\<close>, until it resets itself.\<close>

inductive node_reachable :: "'s node_env \<Rightarrow> (net_env \<Rightarrow> bool) \<Rightarrow> 's \<Rightarrow> 's node_state \<Rightarrow> bool"
  for N P b where
  start: "P net \<Longrightarrow> node_start N net coord_initial (sensor_initial b) = (BootContinues, st) \<Longrightarrow> node_reachable N P b st"
| step: "node_reachable N P b st \<Longrightarrow> \<not> node_resets st \<Longrightarrow> P net \<Longrightarrow> node_id net = ne_id N \<Longrightarrow> event_possible ev st \<Longrightarrow>
    node_reachable N P b (node_step N net ev st)"

section \<open>What a sensor node sends\<close>

text \<open>What a received datagram makes a node do besides forwarding it: answer a START, arm the timer of
  the page report, and, on a leaf, the timer before the reboot.\<close>

fun own_effect :: "net_env \<Rightarrow> effect \<Rightarrow> bool" where
  "own_effect net (SendTo hop bs) \<longleftrightarrow>
     length bs = sizeof_start_report \<and> hd bs = PKT_TYPE_START_REPORT \<and> node_id net \<noteq> 1 \<and>
     (\<exists>root. root_ipaddr net = Some root \<and> hop \<in> {root, link_local_of root})"
| "own_effect net (SetTimer t ticks) \<longleftrightarrow> t = ReportTimer \<or> t = LeafStabilityTimer \<and> is_leaf_node net"
| "own_effect net e \<longleftrightarrow> False"

definition emits :: "(effect \<Rightarrow> bool) \<Rightarrow> 's sensor_state \<Rightarrow> 's sensor_state \<Rightarrow> bool" where
  "emits ok st st' \<longleftrightarrow> (\<exists>es. sensor_state.effects st' = sensor_state.effects st @ es \<and> list_all ok es)"

lemma emits_silent: "sensor_state.effects st' = sensor_state.effects st \<Longrightarrow> emits ok st st'"
  by (simp add: emits_def)

lemma emits_emit: "sensor_state.effects st' = sensor_state.effects st @ es \<Longrightarrow> list_all ok es \<Longrightarrow> emits ok st st'"
  by (auto simp: emits_def)

lemma send_start_report_emits: "emits (own_effect net) st (send_start_report E net q v t st)"
  by (rule emits_emit, simp_all add: send_start_report_def emit_def)
    (auto simp: send_to_coordinator_def Let_def start_report_bytes_def sizeof_start_report_def split: option.split)

lemma send_page_report_emits: "emits (own_effect net) st (send_page_report net st)"
  by (auto simp: send_page_report_def schedule_bitmap_send_def emit_def emits_def)

lemma leaf_reboot_emits: "emits (own_effect net) st (schedule_leaf_reboot_if_safe net v t st)"
  by (auto simp: schedule_leaf_reboot_if_safe_def Let_def emit_def emits_def)

lemma rx_silent:
  "sensor_state.effects (snd (rx_select_page E pkt st)) = sensor_state.effects st"
  "sensor_state.effects (rx_store_chunk E pkt st) = sensor_state.effects st"
  by (auto simp: rx_select_page_def rx_store_chunk_def Let_def split: prod.split bool.split)

lemma handle_start_emits: "emits (own_effect net) (forward net f raw st) (handle_start E net pkt raw f st)"
proof -
  have "emits (own_effect net) (forward net f raw st) (send_start_report E net q v t s)"
    if "sensor_state.effects s = sensor_state.effects (forward net f raw st)" for q v t s
    using send_start_report_emits [of net s E q v t] that by (simp add: emits_def)
  then show ?thesis
    by (auto simp: handle_start_def Let_def reset_rx_state_def split: prod.split bool.split)
qed

lemma handle_data_emits: "emits (own_effect net) (forward net f raw st) (handle_data E net pkt raw f st)"
proof -
  obtain go s where r: "rx_select_page E pkt (forward net f raw st) = (go, s)" by fastforce
  then have "sensor_state.effects s = sensor_state.effects (forward net f raw st)"
    using rx_silent(1) [of E pkt "forward net f raw st"] by simp
  then show ?thesis
    by (cases go) (simp_all add: handle_data_def Let_def r rx_silent(2) emits_silent)
qed

lemma handle_page_end_emits: "emits (own_effect net) (forward net f raw st) (handle_page_end E net pkt raw f st)"
proof -
  have "emits (own_effect net) (forward net f raw st) (send_page_report net s)"
    if "sensor_state.effects s = sensor_state.effects (forward net f raw st)" for s
    using send_page_report_emits [of net s] that by (simp add: emits_def)
  then show ?thesis
    by (auto simp: handle_page_end_def Let_def intro!: emits_silent split: prod.split)
qed

lemma handle_verify_emits: "emits (own_effect net) (forward net f raw st) (handle_verify E net pkt raw f st)"
proof -
  let ?st = "forward net f raw st"
  have 2: "emits (own_effect net) ?st s" if "sensor_state.effects s = sensor_state.effects (send_page_report net ?st)" for s
    using send_page_report_emits [of net ?st] that by (simp add: emits_def)
  have 3: "emits (own_effect net) ?st ((schedule_leaf_reboot_if_safe net v t s)\<lparr>ota_session_active := b\<rparr>)"
    if "sensor_state.effects s = sensor_state.effects (send_page_report net ?st)" for s v t b
    using 2 [OF that] leaf_reboot_emits [of net s v t] unfolding emits_def by force
  obtain staged b where s: "be_stage (se_backend E) (sensor_state.current_file_size ?st) (sensor_state.ota_target_slot ?st)
      (backend ?st) = (staged, b)" by fastforce
  have page: "sensor_state.current_file_size (send_page_report net ?st) = sensor_state.current_file_size ?st"
    "sensor_state.ota_target_slot (send_page_report net ?st) = sensor_state.ota_target_slot ?st"
    "backend (send_page_report net ?st) = backend ?st"
    by (simp_all add: send_page_report_def schedule_bitmap_send_def emit_def)
  show ?thesis
    by (cases staged) (simp_all add: handle_verify_def Let_def page s 2 3 emits_silent)
qed

lemma sensor_sends_base:
  "\<exists>fs own. sensor_state.effects (sensor_udp_rx E net sender data datalen st) = sensor_state.effects st @ fs @ own \<and>
    (fs = [] \<or>
     fs = send_to_all net (buf_bytes data 0 (unat datalen)) \<and> packet_should_forward net sender \<and> \<not> is_leaf_node net) \<and>
    list_all (own_effect net) own"
proof -
  let ?f = "packet_should_forward net sender" and ?raw = "buf_bytes data 0 (unat datalen)" and ?rx = "sensor_udp_rx E net sender data datalen st"
  define fs where "fs = (if ?f then send_to_all net ?raw else [])"
  have fw: "sensor_state.effects (forward net ?f ?raw st) = sensor_state.effects st @ fs"
    by (simp add: forward_def emit_def fs_def)
  have "sensor_state.effects ?rx = sensor_state.effects st \<or> emits (own_effect net) (forward net ?f ?raw st) ?rx"
    by (simp add: sensor_udp_rx_def Let_def handle_start_emits handle_data_emits handle_page_end_emits handle_verify_emits)
  then show ?thesis
  proof
    assume "sensor_state.effects ?rx = sensor_state.effects st"
    then show ?thesis by (intro exI [of _ "[]"]) simp
  next
    assume "emits (own_effect net) (forward net ?f ?raw st) ?rx"
    then obtain own where "sensor_state.effects ?rx = sensor_state.effects st @ fs @ own" "list_all (own_effect net) own"
      by (auto simp: emits_def fw)
    moreover have "?f \<Longrightarrow> \<not> is_leaf_node net" by (simp add: packet_should_forward_def Let_def)
    ultimately show ?thesis by (intro exI [of _ fs] exI [of _ own]) (simp add: fs_def)
  qed
qed

text \<open>C26. What a received datagram can make a sensor node send. The node may forward it, unchanged and
  once, to its downstream neighbour, and only when it came from the node's parent or the coordinator
  and the node has children; besides it answers a START to the coordinator and arms the timer of
  its page report. It resets nothing itself, and only a leaf arms the timer that leads to a reboot.\<close>

theorem sensor_sends_only:
  "\<exists>fs own. sensor_state.effects (sensor_udp_rx E net sender data datalen st) = sensor_state.effects st @ fs @ own \<and>
    (fs = [] \<or>
     fs = send_to_all net (buf_bytes data 0 (unat datalen)) \<and> packet_should_forward net sender \<and> \<not> is_leaf_node net) \<and>
    list_all (own_effect net) own"
  by (rule sensor_sends_base)

section \<open>The two roles\<close>

definition in_role :: "'s node_env \<Rightarrow> 's \<Rightarrow> 's node_state \<Rightarrow> bool" where
  "in_role N b st \<longleftrightarrow>
     (if ne_id N = 1 then np_sensor st = sensor_initial b \<and> np_pc st \<noteq> SensorLoop
      else np_coord st = coord_initial \<and> np_pc st = SensorLoop)"

lemma initial_effects: "sensor_state.effects (sensor_initial b) = []" "session_state.effects coord_initial = []"
  by (simp_all add: sensor_initial_def coord_initial_def)

lemma in_role_start: "node_start N net coord_initial (sensor_initial b) = (out, st) \<Longrightarrow> in_role N b st"
  by (auto simp: node_start_def in_role_def node_wait_routes_def split: if_splits prod.splits)

lemma in_role_timer:
  assumes "in_role N b st" "event_possible (Expired t) st"
  shows "in_role N b (node_timer N net t st)"
  using assms
  by (cases t) (auto simp: in_role_def initial_effects node_route_timer_def node_wait_routes_def node_stability_timer_def split: if_splits)

lemma in_role_step:
  assumes r: "in_role N b st" and e: "event_possible ev st"
  shows "in_role N b (node_step N net ev st)"
proof (cases ev)
  case (SerialLine line)
  then show ?thesis using r by (simp add: in_role_def node_serial_line_def split: option.split)
next
  case (Received sender data datalen)
  then show ?thesis using r by (simp add: in_role_def udp_rx_callback_def)
next
  case BitmapPosted
  then show ?thesis using r e by (auto simp: in_role_def initial_effects split: if_splits)
next
  case (Expired t)
  then show ?thesis using r e in_role_timer by (metis node_step.simps(4))
qed

text \<open>C27. The node id decides the role for good. Whatever happens to it after a boot, node 1 never touches
  the state of the sensor role, in particular never its own storage, and every other node never
  touches the state of the coordinator and never leaves the sensor's loop.\<close>

theorem roles_separate:
  assumes "node_reachable N P b st"
  shows "if ne_id N = 1 then np_sensor st = sensor_initial b \<and> np_pc st \<noteq> SensorLoop
    else np_coord st = coord_initial \<and> np_pc st = SensorLoop"
proof -
  have "in_role N b st" using assms by induction (auto intro: in_role_start in_role_step)
  then show ?thesis by (simp add: in_role_def)
qed

section \<open>Who reboots\<close>

text \<open>Nothing in the log leads to a reset.\<close>

definition stays_up :: "effect list \<Rightarrow> bool" where
  "stays_up es \<longleftrightarrow> list_all (\<lambda>e. e \<noteq> SystemReset \<and> (\<forall>n. e \<noteq> SetTimer StagedRebootTimer n \<and> e \<noteq> SetTimer LeafStabilityTimer n)) es"

lemma stays_up_append: "stays_up (es @ es') \<longleftrightarrow> stays_up es \<and> stays_up es'"
  by (simp add: stays_up_def)

lemma stays_up_rx:
  assumes "stays_up (sensor_state.effects st)" "\<not> is_leaf_node net"
  shows "stays_up (sensor_state.effects (sensor_udp_rx E net sender data datalen st))"
proof -
  obtain fs own where e: "sensor_state.effects (sensor_udp_rx E net sender data datalen st) = sensor_state.effects st @ fs @ own"
    "fs = [] \<or> fs = send_to_all net (buf_bytes data 0 (unat datalen))" "list_all (own_effect net) own"
    using sensor_sends_base by blast
  have "e \<noteq> SystemReset \<and> (\<forall>n. e \<noteq> SetTimer StagedRebootTimer n \<and> e \<noteq> SetTimer LeafStabilityTimer n)" if "own_effect net e" for e
    using that assms(2) by (cases e) auto
  then have "stays_up own" using e(3) by (auto simp: stays_up_def list_all_iff)
  moreover have "stays_up fs" using e(2) by (auto simp: stays_up_def send_to_all_def split: option.splits)
  ultimately show ?thesis using assms(1) by (simp add: e(1) stays_up_append)
qed

lemma stays_up_report: "stays_up (sensor_state.effects st) \<Longrightarrow> stays_up (sensor_state.effects (send_report_callback net st))"
  by (auto simp: send_report_callback_def emit_def stays_up_append stays_up_def send_to_coordinator_def Let_def split: option.split)

lemma stays_up_timer:
  assumes "stays_up (sensor_state.effects (np_sensor st))" "event_possible (Expired t) st"
  shows "stays_up (sensor_state.effects (np_sensor (node_timer N net t st)))"
proof (cases t)
  case ReportTimer
  then show ?thesis using stays_up_report [OF assms(1)] by simp
next
  case LeafStabilityTimer
  then show ?thesis using assms by (auto simp: stays_up_def list_all_iff)
next
  case StagedRebootTimer
  then show ?thesis using assms by (auto simp: stays_up_def list_all_iff)
qed (use assms(1) in \<open>simp_all add: node_route_timer_def node_wait_routes_def node_stability_timer_def\<close>)

lemma stays_up_step:
  assumes "stays_up (sensor_state.effects (np_sensor st))" "\<not> is_leaf_node net" "event_possible ev st"
  shows "stays_up (sensor_state.effects (np_sensor (node_step N net ev st)))"
proof (cases ev)
  case (SerialLine line)
  then show ?thesis using assms(1) by (simp add: node_serial_line_def split: option.split)
next
  case (Received sender data datalen)
  then show ?thesis using assms(1) stays_up_rx [OF assms(1,2)] by (simp add: udp_rx_callback_def)
next
  case (Expired t)
  then show ?thesis using assms stays_up_timer by (metis node_step.simps(4))
qed (use assms(1) in simp)

text \<open>C28. A node with children never restarts into a staged image. As long as it has a downward route,
  whatever it receives and whichever timers expire, it neither resets nor arms the timers that lead
  to a reset, also after it has staged an image.\<close>

theorem only_leaves_reboot:
  assumes r: "node_reachable N P b st" and P: "\<And>net. P net \<Longrightarrow> \<not> is_leaf_node net"
  shows "\<not> node_resets st \<and> (\<forall>n. SetTimer StagedRebootTimer n \<notin> set (sensor_state.effects (np_sensor st)) \<and>
    SetTimer LeafStabilityTimer n \<notin> set (sensor_state.effects (np_sensor st)))"
proof -
  have "stays_up (sensor_state.effects (np_sensor st))" using r
  proof induction
    case (start net st)
    then show ?case
      by (auto simp: node_start_def node_wait_routes_def stays_up_def initial_effects split: if_splits prod.splits)
  next
    case (step st net ev)
    then show ?case using stays_up_step P by blast
  qed
  then show ?thesis by (auto simp: stays_up_def node_resets_def list_all_iff)
qed

section \<open>A node with a child\<close>

definition sample_relay :: net_env where
  "sample_relay = sample_net\<lparr>routes := [(sample_ip 3, Some (sample_ip 3))], defrt_choose := Some (sample_ip 1),
     root_ipaddr := Some (sample_ip 1)\<rparr>"

definition sample_node :: "dual_state node_env" where
  "sample_node =
     \<lparr>ne_id = 2, ne_bim = False, ne_boot_check = Pair BootContinues, ne_confirm = id, ne_sensor = sample_sensor_env\<rparr>"

definition sample_node_started :: "dual_state node_state" where
  "sample_node_started = snd (node_start sample_node sample_relay coord_initial (sensor_initial sample_state))"

text \<open>It receives a START from its parent.\<close>

definition sample_node_received :: "dual_state node_state" where
  "sample_node_received =
     node_step sample_node sample_relay
       (Received (sample_ip 1) ((!) (PKT_TYPE_START # le32 5 @ le16 2 @ [1])) 8) sample_node_started"

lemma sample_node_reached: "node_reachable sample_node (\<lambda>net. net = sample_relay) sample_state sample_node_received"
  unfolding sample_node_received_def
proof (rule node_reachable.step)
  show "node_reachable sample_node (\<lambda>net. net = sample_relay) sample_state sample_node_started"
    by (rule node_reachable.start [where net = sample_relay])
      (simp_all add: sample_node_started_def node_start_def sample_node_def)
  show "\<not> node_resets sample_node_started"
    by (simp add: sample_node_started_def node_start_def sample_node_def node_resets_def sensor_initial_def)
  show "node_id sample_relay = ne_id sample_node" by (simp add: sample_relay_def sample_net_def sample_node_def)
qed simp_all

theorem roles_separate_witness: "np_coord sample_node_received = coord_initial"
  using roles_separate [OF sample_node_reached] by (simp add: sample_node_def)

theorem only_leaves_reboot_witness: "\<not> node_resets sample_node_received"
proof -
  have "\<not> is_leaf_node sample_relay" by (simp add: sample_relay_def is_leaf_node_def)
  then show ?thesis using only_leaves_reboot [OF sample_node_reached] by simp
qed

end
