(* ===== verification/Edge_Cases.thy ===== *)
theory Edge_Cases
  imports Sensor_Flow Legacy_Sensor Dual_Boot Coordinator_Session
begin

text \<open>
  Behaviours at the edges of the code that no theorem of the components covers: a page whose erase
  fails, a legacy chunk whose write fails, the factory image at the end of its stability window,
  and a target with a minus sign.
\<close>

section \<open>A failed erase is not retried\<close>

text \<open>When a DATA packet opens a new page and the erase of its sector fails, the packet is dropped but
  the page stays selected: the next packet of the page is let through, and nothing is erased for it
  either.\<close>

theorem failed_erase_not_retried:
  assumes new: "current_rx_page_offset st \<noteq> NO_PAGE" "current_rx_page_offset st < page"
    and p1: "page = pk_offset pkt - pk_offset pkt mod of_nat PAGE_SIZE"
    and p2: "page = pk_offset pkt2 - pk_offset pkt2 mod of_nat PAGE_SIZE" "page \<noteq> NO_PAGE"
    and fails: "be_erase_sector (se_backend E) (sensor_state.ota_target_slot st)
        (pk_offset pkt - pk_offset pkt mod be_erase_sector_size (se_backend E)) (backend st) = (False, s)"
    and st': "rx_select_page E pkt st = (ok, st')"
  shows "\<not> ok \<and> current_rx_page_offset st' = page \<and> rx_select_page E pkt2 st' = (True, st')"
proof -
  have st: "st' = st\<lparr>current_rx_page_offset := page, page_bitmap := replicate 8 0, backend := s\<rparr>" and "\<not> ok"
    using st' new fails unfolding rx_select_page_def Let_def p1 [symmetric] by auto
  then show ?thesis
    using p2 unfolding rx_select_page_def Let_def p2(1) [symmetric] by simp
qed

section \<open>A legacy chunk counts as received before it is written\<close>

text \<open>Whatever the flash driver does, also if it cannot be opened or the write fails, the chunk is in the
  bitmap afterwards, and the next bitmap report announces it.\<close>

theorem legacy_chunk_counts_unwritten:
  assumes chunk: "pk_length pkt > 0" "unat (pk_offset pkt mod EXT_FLASH_ERASE_SECTOR_SIZE) div 64 = i" "i < 64"
      "length (l_page_bitmap st) = 8"
  shows "bitmap_bit (l_page_bitmap (legacy_store_chunk E net pkt raw fwd st)) i"
proof -
  have [simp]: "l_page_bitmap (legacy_forward net fwd raw st) = l_page_bitmap st"
    by (simp add: legacy_forward_def legacy_emit_def)
  have "bitmap_bit (bitmap_set i (l_page_bitmap st)) i"
    using chunk(3,4) by (simp add: bitmap_bit_set)
  then show ?thesis
    using chunk by (simp add: legacy_store_chunk_def Let_def split: prod.split bool.split)
qed

section \<open>A factory image is not confirmed\<close>

text \<open>The first boot of a new device writes the factory metadata, with the running image pending and no
  boot attempts. The stability window then changes nothing, so the image stays pending.\<close>

theorem factory_image_not_confirmed:
  assumes drv: "driver_never_fails (de_driver env)" and new: "\<not> fst (ota_flash_read_metadata st)"
    and st': "dual_boot_check env r (power_up st) = (outcome, st')"
  shows "outcome = BootContinues \<and> dual_confirm_stable env st' = st' \<and>
    (if running_slot env = OTA_SLOT_A then state_a (current_metadata st') else state_b (current_metadata st')) =
      OTA_IMAGE_STATE_PENDING"
proof -
  obtain s where s: "running_slot env = slot_no s" by (rule running_slot_cases)
  obtain m0 where rd: "ota_flash_read_metadata st = (False, m0)"
    using new by (cases "ota_flash_read_metadata st") simp
  let ?st = "(power_up st)\<lparr>current_slot := slot_no s\<rparr>"
  let ?m = "ota_metadata_init_factory m0 (slot_no s)
     (of_le32 (take 4 (softVer (fixedHdr (ota_image_header env))))) (dual_running_size env)
     (crc32 (fixedHdr (ota_image_header env)))"
  let ?w = "ota_flash_write_metadata (de_driver env) ?m (?st\<lparr>current_metadata := ?m\<rparr>)"
  have "ota_flash_read_metadata ?st = (False, m0)"
    using rd by (simp add: ota_flash_read_metadata_def power_up_def)
  then have st: "outcome = BootContinues" "st' = snd ?w"
    using st' s by (simp_all add: dual_boot_check_def running_slot_def Let_def)
  have m: "current_metadata st' = ?m"
    unfolding st(2) by (subst write_metadata_effect(3) [OF drv], simp)+
  have "boot_attempts ?m = 0"
    by (simp add: ota_metadata_init_factory_def Let_def)
  moreover have "(if running_slot env = OTA_SLOT_A then state_a ?m else state_b ?m) = OTA_IMAGE_STATE_PENDING"
    by (cases s) (simp_all add: s ota_metadata_init_factory_def Let_def OTA_SLOT_A_def OTA_SLOT_B_def)
  ultimately show ?thesis unfolding m dual_confirm_stable_def st(1) by simp
qed

section \<open>A target with a minus sign\<close>

text \<open>\<open>strtoul\<close> negates in the unsigned type, so a large negative number names slot B.\<close>

theorem negative_target_is_slot_b: "ota_parse_target (Some ''-4294967295'') = OTA_SLOT_B"
proof -
  have "- (4294967295 :: u32) = 1" by (rule sym) simp
  then have "- (4294967295 :: u32) \<le> 1" by (simp only: order_refl)
  then show ?thesis
    by (simp add: ota_parse_target_def strtoul_def isspace_def is_digit_def digit_value_def
        digits_value_def unsigned_long_def Let_def OTA_SLOT_B_def)
qed

end
