(* ===== verification/Spec2Isabelle.thy ===== *)
theory Spec2Isabelle
  imports End_To_End Recovery_Rounds Legacy_Flow Node Edge_Cases
begin

text \<open>
  A verification development for the over-the-air firmware update of a 6TiSCH network: a coordinator
  (node 1) receives an image page by page from a host over UART and distributes it along a line of
  sensor nodes, which store it in flash, check it, stage it and restart into it.

  \<^bold>\<open>The program and its model.\<close>

  \<^item> \<open>ota-metadata.c/.h\<close> (the boot record of the dual-onchip layout): \<open>Crc32\<close> (the CRC-32 routine) and
    \<open>Metadata\<close> (the record, its bytes and all operations). \<open>ota-flash.c/.h\<close>: \<open>Flash\<close>, over a
    32-bit byte memory; the flash of the chip can only clear bits when it programs and sets them when
    it erases.
  \<^item> \<open>oad_image_header_app.c/.h\<close>: \<open>Oad_Image\<close>.
  \<^item> \<open>ota-sensor-backend.h\<close>: \<open>Backend\<close>, a record of operations over a backend state with two values:
    \<open>Dual_Backend\<close> (\<open>sensor-node-dual-onchip.c\<close>; its boot check over several boots is in \<open>Dual_Boot\<close>)
    and \<open>Offchip_Backend\<close> (\<open>sensor-node-offchip.c\<close>).
  \<^item> \<open>ota.h\<close> (packed structs and constants): \<open>Wire\<close>. \<open>ota-common.c\<close> and what a node sees of the network
    and does to it: \<open>Common\<close>. The state variables of the C files are the fields of the records
    \<open>flash_state\<close>, \<open>dual_state\<close>, \<open>sensor_state\<close>, \<open>session_state\<close> and \<open>coord_state\<close>; sending, arming
    timers, posting events, protocol lines on the UART and resets are appended to a log of \<open>effect\<close>s.
  \<^item> \<open>ota-sensor.c\<close>: \<open>Sensor\<close>, one function per handler and callback; \<open>sensor_udp_rx\<close> is the sensor side
    of \<open>udp_rx_callback\<close>.
  \<^item> \<open>ota-coordinator-session.c\<close>: \<open>Coordinator_Session\<close>, with the string functions of the C library in
    \<open>Libc\<close>. \<open>ota-coordinator.c\<close>: \<open>Coordinator\<close>; the process \<open>distribute_process\<close> is a state machine
    over its blocking points, \<open>distribute_resume\<close> runs it from one to the next.
  \<^item> \<open>node.c\<close>: \<open>Node\<close>, the process every device runs and the dispatch between the two roles.
  \<^item> \<open>sensor-node-legacy.c\<close>, \<open>coordinator-legacy.c\<close> (the build without a boot manager):
    \<open>Legacy_Sensor\<close>, \<open>Legacy_Coordinator\<close>.
  \<^item> \<open>uart_sender.py\<close>: the checksum in \<open>Crc16\<close>, the lines it writes in \<open>Uart\<close>, the script itself (slot
    detection, waiting for an answer, repeated attempts, the pages, its command line) in \<open>Sender\<close>,
    over a tape of the lines that reading the serial port returns.

  \<^bold>\<open>What is shown.\<close>

  \<^item> Storage: checksums detect every change of one field or byte, the record survives flash, bounds
    checks are exact, writes stay in their slot (\<open>Metadata\<close>, \<open>Flash\<close>, \<open>Crc16\<close>). The operations on the
    record refine a small abstract view of it, \<open>boot_view\<close>, on every branch.
  \<^item> Backends: which START is admitted, what staging leaves in flash, the external flash is closed after
    every call; an image that keeps crashing before its confirmation is abandoned for the other slot
    after a bounded number of boots, a stable one is confirmed, and one that crashes only after it
    was confirmed is never abandoned (\<open>Dual_Backend\<close>, \<open>Dual_Boot\<close>, \<open>Offchip_Backend\<close>).
  \<^item> The receiving node: \<open>Sensor_Flow\<close> proves in the locale \<open>sensor_flow\<close>, for every backend that keeps
    the laws of \<open>reliable_backend\<close>, that pages whose chunks arrive in any order and number are stored;
    \<open>Lossy_Flow\<close> drops the assumption that chunks arrive before the PAGE_END; \<open>Sensor_Guard\<close> proves
    what no sequence of datagrams can break. \<open>Sessions\<close> and \<open>Rollouts\<close> interpret the locales on the
    two backends.
  \<^item> The coordinator: \<open>Coordinator_Inv\<close> (the invariant of all reachable states), \<open>Uart\<close> (a page arrives
    as the host sent it), \<open>Distribution\<close> (what is sent), \<open>Recovery\<close> and \<open>Recovery_Rounds\<close> (reports,
    retransmission, dropped nodes, termination of a page), \<open>Page_Frame\<close> (what one resumption cannot
    change).
  \<^item> The host: \<open>Sender\<close> shows what the script can write and when it gives up, and what an
    acknowledgement that comes too late does to a page; \<open>Session_Start\<close> goes from its START line over
    the answers of the nodes to the session of the coordinator.
  \<^item> Both together: \<open>Rollout\<close> is the transition system of coordinator, network and node, with losses,
    duplication and reordering, for runs in which every page ends with a complete bitmap of the node
    (the code also ends a page after ten rounds with chunks missing) and nothing of an earlier
    session is on its way; \<open>Rollout_Inv\<close> its invariant; \<open>Lossless\<close> one complete run; \<open>Rollouts\<close>
    the results, from the file on the host to the metadata in the flash of the node. \<open>End_To_End\<close> joins
    START, the pages and VERIFY into one run, each step fed with what the step before has sent.
  \<^item> \<open>Legacy_Coordinator\<close> shows that the legacy coordinator makes the same steps as the current one,
    \<open>Legacy_Flow\<close> what its nodes do with its datagrams. \<open>Edge_Cases\<close> and the theorems whose text says
    so show behaviour at the edges that the code does not guard against.

  \<^bold>\<open>Parameters and what is assumed of them.\<close> The internal flash driver (\<open>flash_driver\<close>) and the
  external one (\<open>ext_flash\<close>) keep the contracts \<open>flash_driver_ok\<close> and \<open>ext_flash_ok\<close>, hypotheses of the
  theorems that need them: a successful program clears bits, a successful erase sets them, a failed one stays inside
  its region; \<open>driver_never_fails\<close> and \<open>ext_never_fails\<close> say that there are no faults. \<open>nor_driver\<close> and
  \<open>nor_ext_flash\<close> satisfy them. The operating system's \<open>crc16_data\<close> is a parameter whose laws are
  \<open>crc16_laws\<close> (it folds over bytes) and \<open>crc16_linear\<close>; the sender's checksum satisfies them. The
  routing table, the parent, the queue lengths and the clock are a \<open>net_env\<close> that may differ at every
  step; the type \<open>imgHdr_t\<close> and constants of the vendor's SDK are parameters too.

  \<^bold>\<open>Bounds.\<close> Machine integers are words of their width; the loop counters of the distribution process
  are natural numbers, shown to stay within 64 chunks and 10 rounds. No definition uses fuel: loops
  are structural or have a measure, and the process that may wait for ever is a step function with a
  program counter. Rollout theorems hold for images up to \<open>2 ^ 32 - 4096\<close> bytes, beyond which the page
  length of \<open>handle_page_end\<close> wraps.

  \<^bold>\<open>Not modelled.\<close> The text of the \<open>LOG_\<close> macros and the functions that only print
  (\<open>ota_log_downstream_queue_state\<close>, \<open>handle_stage_report\<close>, \<open>slot_char\<close>); switching the flash cache
  and interrupts off and on; starting the radio, the routing root and the socket; the preprocessor
  settings of \<open>project-conf.h\<close>, the linker scripts, the Makefile and the simulation file; the
  terminal output and log file of \<open>uart_sender.py\<close>, and the conversion of its version argument by
  Python's \<open>int\<close>, which is a number of the model.
\<close>

end
